(* ===== verification/Praefect_Prelude.thy ===== *)
theory Praefect_Prelude
  imports Main "HOL-Library.Word" "HOL-Library.AList" "HOL-Library.Multiset"
begin

text \<open>
  Shared vocabulary of the development: how Go values are represented, and the generic facts on
  association lists, weighted sums and machine words that the component theories rest on.

  A Go \<open>uint\<close> or \<open>uint64\<close> is a \<^typ>\<open>64 word\<close>, so that addition, subtraction and
  multiplication wrap. A Go map is an association list with distinct keys: \<open>m[k]\<close> is
  \<^const>\<open>map_of\<close>, \<open>m[k] = v\<close> is \<^const>\<open>AList.update\<close>, \<open>delete(m, k)\<close> is
  \<^const>\<open>AList.delete\<close>, and a \<open>range\<close> loop visits the list from left to right. Go leaves
  the iteration order open; where an operation depends on it, the step relation of the component
  may permute the list between two operations.
\<close>

section \<open>Collections of facts\<close>

named_theorems weight_simps \<open>equations for weighted sums over association lists\<close>

section \<open>Types\<close>

type_synonym uint = "64 word"
type_synonym byte = "8 word"
type_synonym ('k, 'v) gomap = "('k \<times> 'v) list"

section \<open>Go maps as association lists\<close>

definition gokeys :: "('k, 'v) gomap \<Rightarrow> 'k list" where
  "gokeys m = map fst m"

definition gowf :: "('k, 'v) gomap \<Rightarrow> bool" where
  "gowf m \<longleftrightarrow> distinct (map fst m)"

definition govals :: "('k, 'v) gomap \<Rightarrow> 'v set" where
  "govals m = snd ` set m"

lemma govals_Nil [simp]: "govals [] = {}"
  by (simp add: govals_def)

lemma govals_Cons [simp]: "govals (p # m) = insert (snd p) (govals m)"
  by (simp add: govals_def)

lemma govalsI [intro]: "(k, x) \<in> set m \<Longrightarrow> x \<in> govals m"
  by (force simp: govals_def)

lemma govalsE [elim]:
  assumes "x \<in> govals m"
  obtains k where "(k, x) \<in> set m"
  using assms by (auto simp: govals_def)

lemma govals_map_of: "map_of m k = Some x \<Longrightarrow> x \<in> govals m"
  by (blast dest: map_of_SomeD)

lemma govals_map: "govals (map (\<lambda>(k, x). (k, f x)) m) = f ` govals m"
  by (force simp: govals_def)

lemma govals_mset: "mset m' = mset m \<Longrightarrow> govals m' = govals m"
  by (auto simp: govals_def dest: mset_eq_setD)

lemma update_new: "k \<notin> fst ` set m \<Longrightarrow> AList.update k x m = m @ [(k, x)]"
  by (induction m) auto

text \<open>Changing every value, in place and depending on its key.\<close>

lemma map_of_map_entries:
  "map_of (map (\<lambda>p. (fst p, f p)) m) k = map_option (\<lambda>x. f (k, x)) (map_of m k)"
  by (induction m) auto

lemma gowf_map_entries: "gowf (map (\<lambda>p. (fst p, f p)) m) = gowf m"
  by (simp add: gowf_def comp_def)

lemma gowf_filter: "gowf m \<Longrightarrow> gowf (filter P m)"
  by (auto simp: gowf_def distinct_map_filter)

lemma map_of_filter_entries:
  "gowf m \<Longrightarrow> map_of (filter P m) k =
     (case map_of m k of None \<Rightarrow> None | Some x \<Rightarrow> if P (k, x) then Some x else None)"
proof (induction m)
  case (Cons p m)
  obtain k' x where p: "p = (k', x)" by (cases p)
  have none: "map_of (filter P m) k = None" if "k \<notin> fst ` set m"
    using that by (auto simp: map_of_eq_None_iff)
  from Cons show ?case by (auto simp: p gowf_def none map_of_eq_None_iff split: option.split)
qed simp

text \<open>Moving the entry of one key to a free one.\<close>

abbreviation rekey :: "'k \<Rightarrow> 'k \<Rightarrow> ('v \<Rightarrow> 'v) \<Rightarrow> ('k, 'v) gomap \<Rightarrow> ('k, 'v) gomap" where
  "rekey a b f m \<equiv> map (\<lambda>(k, x). if k = a then (b, f x) else (k, x)) m"

lemma rekey_absent: "map_of m a = None \<Longrightarrow> rekey a b f m = m"
  by (induction m) (auto split: if_splits)

lemma map_of_rekey:
  assumes "gowf m" "map_of m b = None" "map_of m a \<noteq> None"
  shows "map_of (rekey a b f m) k =
    (if k = b then map_option f (map_of m a) else if k = a then None else map_of m k)"
  using assms
proof (induction m)
  case (Cons p m)
  obtain k' x where p: "p = (k', x)" by (cases p)
  show ?case
  proof (cases "k' = a")
    case True
    with Cons.prems(1) have "map_of m a = None" by (simp add: p gowf_def map_of_eq_None_iff)
    with True Cons.prems(2) show ?thesis by (auto simp: p rekey_absent split: if_splits)
  next
    case False
    with Cons.prems have "gowf m" "map_of m b = None" "map_of m a \<noteq> None"
      by (auto simp: p gowf_def split: if_splits)
    note Cons.IH [OF this]
    with False Cons.prems(2) show ?thesis by (auto simp: p split: if_splits)
  qed
qed simp

lemma gowf_rekey:
  assumes "gowf m" "map_of m b = None"
  shows "gowf (rekey a b f m)"
proof -
  have "map fst (rekey a b f m) = map (\<lambda>k. if k = a then b else k) (map fst m)"
    by (induction m) auto
  moreover have "inj_on (\<lambda>k. if k = a then b else k) (fst ` set m)"
    using assms(2) by (auto simp: inj_on_def map_of_eq_None_iff)
  ultimately show ?thesis
    using assms(1) unfolding gowf_def by (metis distinct_map list.set_map)
qed

text \<open>Reading a missing key of a map of numbers yields zero.\<close>

definition getz :: "('k, 'v::zero) gomap \<Rightarrow> 'k \<Rightarrow> 'v" where
  "getz m k = (case map_of m k of None \<Rightarrow> 0 | Some v \<Rightarrow> v)"

lemma getz_Nil [simp]: "getz [] k = 0"
  by (simp add: getz_def)

lemma gowf_Nil [simp]: "gowf []"
  by (simp add: gowf_def)

lemma gowf_Cons [simp]: "gowf (p # m) \<longleftrightarrow> fst p \<notin> fst ` set m \<and> gowf m"
  by (simp add: gowf_def)

lemma gowf_update [simp]: "gowf m \<Longrightarrow> gowf (AList.update k v m)"
  by (simp add: gowf_def distinct_update)

lemma map_of_update [simp]: "map_of (AList.update k v m) = (map_of m)(k \<mapsto> v)"
  by (simp add: update_conv')

lemma getz_update: "getz (AList.update k v m) k' = (if k' = k then v else getz m k')"
  by (simp add: getz_def)

lemma gowf_mset: "mset m' = mset m \<Longrightarrow> gowf m \<Longrightarrow> gowf m'"
proof -
  assume eq: "mset m' = mset m" and "gowf m"
  from eq have "mset (map fst m') = mset (map fst m)" by simp
  then have "distinct (map fst m') = distinct (map fst m)" by (rule mset_eq_imp_distinct_iff)
  with \<open>gowf m\<close> show "gowf m'" by (simp add: gowf_def)
qed

lemma map_of_mset: "mset m' = mset m \<Longrightarrow> gowf m \<Longrightarrow> map_of m' = map_of m"
proof -
  assume eq: "mset m' = mset m" and wf: "gowf m"
  then have "distinct (map fst m')" and "distinct (map fst m)" and "set m' = set m"
    using gowf_mset by (auto simp: gowf_def dest: mset_eq_setD)
  then show ?thesis by (simp add: map_of_inject_set)
qed

lemma getz_mset: "mset m' = mset m \<Longrightarrow> gowf m \<Longrightarrow> getz m' = getz m"
  using map_of_mset [of m' m] by (simp add: getz_def fun_eq_iff)

lemma gowf_lookup: "gowf m \<Longrightarrow> (k, v) \<in> set m \<Longrightarrow> map_of m k = Some v"
  by (simp add: gowf_def)

section \<open>Weighted sums over the values of a map\<close>

definition weight :: "('v \<Rightarrow> nat) \<Rightarrow> ('v \<Rightarrow> bool) \<Rightarrow> ('k, 'v) gomap \<Rightarrow> nat" where
  "weight w P m = (\<Sum>(k, x)\<leftarrow>m. if P x then w x else 0)"

lemma weight_Nil [simp]: "weight w P [] = 0"
  by (simp add: weight_def)

lemma weight_Cons [simp]:
  "weight w P ((k, x) # m) = (if P x then w x else 0) + weight w P m"
  by (simp add: weight_def)

lemma weight_none: "\<forall>x\<in>govals m. \<not> P x \<Longrightarrow> weight w P m = 0"
  by (induction m) auto

lemma weight_mset: "mset m' = mset m \<Longrightarrow> weight w P m' = weight w P m"
proof -
  assume "mset m' = mset m"
  then have "mset (map (\<lambda>(k, x). if P x then w x else 0) m')
           = mset (map (\<lambda>(k, x). if P x then w x else 0) m)"
    by simp
  then show ?thesis unfolding weight_def by (simp flip: sum_mset_sum_list)
qed

lemma weight_mono:
  assumes "\<forall>x\<in>govals m. P x \<longrightarrow> Q x"
  shows "weight w P m \<le> weight w Q m"
  using assms by (induction m) auto

lemma weight_cong:
  assumes "\<forall>x\<in>govals m. P x = Q x"
  shows "weight w P m = weight w Q m"
  using assms by (induction m) auto

text \<open>Disjoint predicates share the total weight.\<close>

lemma weight_disj:
  assumes "\<forall>x\<in>govals m. \<not> (P x \<and> Q x)"
  shows "weight w P m + weight w Q m \<le> weight w (\<lambda>_. True) m"
  using assms by (induction m) auto

lemma weight_le_total: "weight w P m \<le> weight w (\<lambda>_. True) m"
  by (rule weight_mono) simp

text \<open>Replacing one entry moves its contribution.\<close>

lemma weight_update:
  assumes "gowf m" and "map_of m k = Some x"
  shows "weight w P (AList.update k y m) + (if P x then w x else 0)
       = weight w P m + (if P y then w y else 0)"
  using assms
proof (induction m)
  case (Cons p m)
  obtain k' x' where p: "p = (k', x')" by (cases p)
  show ?case
  proof (cases "k' = k")
    case True
    with Cons.prems p show ?thesis by simp
  next
    case False
    with Cons p show ?thesis by simp
  qed
qed simp

lemma weight_by_key:
  assumes "gowf m"
  shows "weight w P m = (\<Sum>k\<in>dom (map_of m). if P (the (map_of m k)) then w (the (map_of m k)) else 0)"
proof -
  have "weight w P m = (\<Sum>p\<in>set m. if P (snd p) then w (snd p) else 0)"
    using assms by (simp add: weight_def gowf_def distinct_map sum_list_distinct_conv_sum_set case_prod_unfold)
  also have "\<dots> = (\<Sum>k\<in>fst ` set m. if P (the (map_of m k)) then w (the (map_of m k)) else 0)"
    using assms by (subst sum.reindex) (auto simp: gowf_def distinct_map intro!: sum.cong)
  finally show ?thesis by (simp add: dom_map_of_conv_image_fst)
qed

lemma weight_ge_entry:
  assumes "(k, x) \<in> set m" and "P x"
  shows "w x \<le> weight w P m"
  using assms by (induction m) auto

text \<open>Rewriting every entry in place.\<close>

lemma weight_map:
  assumes "\<forall>(k, x)\<in>set m. w (f k x) = w x \<and> P (f k x) = Q x"
  shows "weight w P (map (\<lambda>(k, x). (k, f k x)) m) = weight w Q m"
  using assms by (induction m) auto

section \<open>Words read as natural numbers\<close>

text \<open>A word sum is the natural sum as long as the latter fits the width.\<close>

lemma unat_sum_list:
  fixes f :: "'a \<Rightarrow> uint"
  assumes "(\<Sum>x\<leftarrow>xs. unat (f x)) < 2 ^ 64"
  shows "unat (\<Sum>x\<leftarrow>xs. f x) = (\<Sum>x\<leftarrow>xs. unat (f x))"
  using assms
proof (induction xs)
  case (Cons x xs)
  then have "unat (\<Sum>x\<leftarrow>xs. f x) = (\<Sum>x\<leftarrow>xs. unat (f x))" by simp
  with Cons.prems show ?case by (simp add: unat_word_ariths)
qed simp

lemma unat_add_lt: "unat (a::uint) + unat b < 2 ^ 64 \<Longrightarrow> unat (a + b) = unat a + unat b"
  by (simp add: unat_word_ariths)

lemma unat_sub_le: "unat (b::uint) \<le> unat a \<Longrightarrow> unat (a - b) = unat a - unat b"
  by (simp add: unat_sub word_le_nat_alt)

section \<open>Leaving one element out\<close>

lemma filter_neq_remove1: "distinct xs \<Longrightarrow> filter (\<lambda>y. y \<noteq> x) xs = remove1 x xs"
  by (induction xs) (auto simp: filter_id_conv)

section \<open>A bounded window at the end of a list\<close>

definition lastn :: "nat \<Rightarrow> 'a list \<Rightarrow> 'a list" where
  "lastn k xs = drop (length xs - k) xs"

lemma length_lastn [simp]: "length (lastn k xs) = min k (length xs)"
  by (simp add: lastn_def)

lemma lastn_snoc:
  assumes "0 < k"
  shows "lastn k (xs @ [x]) = (if k \<le> length xs then tl (lastn k xs @ [x]) else lastn k xs @ [x])"
proof (cases "lastn k xs")
  case Nil
  with assms length_lastn [of k xs] have "xs = []" by (simp add: min_def split: if_splits)
  with assms show ?thesis by (simp add: lastn_def)
next
  case (Cons y ys)
  then have "drop (length xs - k) (tl xs) = ys" by (simp add: lastn_def flip: tl_drop)
  with Cons assms show ?thesis by (auto simp: lastn_def Suc_diff_le drop_Suc)
qed

section \<open>Runs of a step relation\<close>

text \<open>
  A predicate that every step keeps holds in every state of a run, and of a relation between the
  first and the current state that steps keep the same is true.
\<close>

locale step_invariant =
  fixes step :: "'s \<Rightarrow> 's \<Rightarrow> bool" and inv :: "'s \<Rightarrow> bool"
  assumes step_inv: "step s s' \<Longrightarrow> inv s \<Longrightarrow> inv s'"
begin

lemma run_inv: "step\<^sup>*\<^sup>* s s' \<Longrightarrow> inv s \<Longrightarrow> inv s'"
  by (induction rule: rtranclp_induct) (auto intro: step_inv)

end

text \<open>Facts that, once true, stay true while the invariant holds.\<close>

locale stable_fact = step_invariant step inv
  for step :: "'s \<Rightarrow> 's \<Rightarrow> bool" and inv :: "'s \<Rightarrow> bool" +
  fixes fact :: "'a \<Rightarrow> 's \<Rightarrow> bool"
  assumes step_fact: "step s s' \<Longrightarrow> inv s \<Longrightarrow> fact a s \<Longrightarrow> fact a s'"
begin

lemma run_fact: "step\<^sup>*\<^sup>* s s' \<Longrightarrow> inv s \<Longrightarrow> fact a s \<Longrightarrow> fact a s'"
proof (induction rule: rtranclp_induct)
  case (step s' s'')
  with run_inv [OF step.hyps(1)] show ?case by (blast intro: step_fact)
qed

end

end
