(* ===== verification/Subtransaction.thy ===== *)
theory Subtransaction
  imports Praefect_Prelude
begin

text \<open>
  One voting session of a reference transaction: \<open>internal/transaction/voting/vote.go\<close> and
  \<open>internal/praefect/transactions/subtransaction.go\<close>.

  Every method of \<open>subtransaction\<close> holds \<open>t.lock\<close> for its whole body, so each is one atomic
  function on the record below. \<open>collectVotes\<close> waits before it takes the lock; the wait is the
  guard \<open>collectVotes_ready\<close> of its step. A pointer into \<open>votersByNode\<close> is the node name it is
  stored under together with the value it points to. An error return is \<open>Some\<close> of the error and
  \<open>nil\<close> is \<open>None\<close>; a nil dereference, which Go turns into a panic, is the error
  \<open>PanicNilDereference\<close>.
\<close>

section \<open>Votes, voters and errors\<close>

type_synonym Vote = "byte list"

definition voteSize :: nat where
  "voteSize = 20"

datatype vote_error = InvalidVoteLength nat

definition VoteFromHash :: "byte list \<Rightarrow> vote_error + Vote" where
  "VoteFromHash bytes =
     (if length bytes \<noteq> voteSize then Inl (InvalidVoteLength (length bytes)) else Inr bytes)"

datatype VoteResult = VoteUndecided | VoteCommitted | VoteFailed | VoteCanceled | VoteStopped

record Voter =
  Name :: string
  Votes :: uint
  voter_vote :: "Vote option"
  voter_result :: VoteResult

datatype tx_error =
    ErrDuplicateNodes
  | ErrMissingNodes
  | ErrInvalidThreshold
  | ErrTransactionFailed
  | ErrTransactionCanceled
  | ErrTransactionStopped
  | ErrNotFound
  | ErrTransactionExists
  | ErrInvalidNode string
  | ErrAlreadyVoted string
  | ErrChangeCommitted
  | ErrInvalidVoterState VoteResult
  | ErrChangingVote
  | ErrAlreadyFinished
  | ErrVoterUndecided string
  | ErrContext
  | PanicNilDereference
  | Wrap string tx_error

text \<open>\<open>errors.Is\<close> follows the chain of wrapped errors.\<close>

fun errors_Is :: "tx_error \<Rightarrow> tx_error \<Rightarrow> bool" where
  "errors_Is (Wrap msg e) target = (Wrap msg e = target \<or> errors_Is e target)"
| "errors_Is e target = (e = target)"

section \<open>The state of a subtransaction\<close>

record subtransaction =
  doneCh :: bool
  threshold :: uint
  votersByNode :: "(string, Voter) gomap"
  voteCounts :: "(Vote, uint) gomap"

definition newSubtransaction :: "Voter list \<Rightarrow> uint \<Rightarrow> subtransaction" where
  "newSubtransaction voters thr =
     \<lparr>doneCh = False, threshold = thr,
      votersByNode = fold (\<lambda>voter m. AList.update (Name voter) voter m) voters [],
      voteCounts = []\<rparr>"

definition isDone :: "subtransaction \<Rightarrow> bool" where
  "isDone t = doneCh t"

definition set_voter :: "string \<Rightarrow> Voter \<Rightarrow> subtransaction \<Rightarrow> subtransaction" where
  "set_voter node voter t = t\<lparr>votersByNode := AList.update node voter (votersByNode t)\<rparr>"

section \<open>Cancelling and stopping\<close>

text \<open>The loop of \<open>cancel\<close> touches each voter by itself.\<close>

definition cancel :: "subtransaction \<Rightarrow> subtransaction" where
  "cancel t = t\<lparr>
     votersByNode := map (\<lambda>(node, voter).
       (node, if voter_result voter = VoteUndecided then voter\<lparr>voter_result := VoteCanceled\<rparr>
              else voter)) (votersByNode t),
     doneCh := True\<rparr>"

text \<open>
  The loop of \<open>stop\<close> returns in the middle when it meets a cancelled or stopped voter; the voters
  it has visited before stay changed.
\<close>

fun stop_voters :: "(string, Voter) gomap \<Rightarrow> (string, Voter) gomap \<times> tx_error option" where
  "stop_voters [] = ([], None)"
| "stop_voters ((node, voter) # rest) =
     (case voter_result voter of
        VoteCanceled \<Rightarrow> ((node, voter) # rest, Some ErrTransactionCanceled)
      | VoteStopped \<Rightarrow> ((node, voter) # rest, Some ErrTransactionStopped)
      | VoteUndecided \<Rightarrow>
          (let (rest', err) = stop_voters rest
           in ((node, voter\<lparr>voter_result := VoteStopped\<rparr>) # rest', err))
      | _ \<Rightarrow> (let (rest', err) = stop_voters rest in ((node, voter) # rest', err)))"

definition stop :: "subtransaction \<Rightarrow> subtransaction \<times> tx_error option" where
  "stop t =
     (let (voters, err) = stop_voters (votersByNode t); t' = t\<lparr>votersByNode := voters\<rparr>
      in case err of
           Some e \<Rightarrow> (t', Some e)
         | None \<Rightarrow> (t'\<lparr>doneCh := True\<rparr>, None))"

definition sub_state :: "subtransaction \<Rightarrow> (string, VoteResult) gomap" where
  "sub_state t = map (\<lambda>(node, voter). (node, voter_result voter)) (votersByNode t)"

section \<open>Counting votes\<close>

text \<open>The loop that looks for the vote with the highest count, in the map's order.\<close>

fun majority :: "(Vote, uint) gomap \<Rightarrow> Vote option \<times> uint \<Rightarrow> Vote option \<times> uint" where
  "majority [] m = m"
| "majority ((v, voteCount) # rest) (majorityVote, majorityVoteCount) =
     (if majorityVoteCount < voteCount then majority rest (Some v, voteCount)
      else majority rest (majorityVote, majorityVoteCount))"

definition outstandingVotes :: "(string, Voter) gomap \<Rightarrow> uint" where
  "outstandingVotes voters =
     (\<Sum>(node, voter)\<leftarrow>voters. if voter_vote voter = None then Votes voter else 0)"

text \<open>The last loop of \<open>updateVoterState\<close>; \<open>None\<close> is the dereference of a nil majority vote.\<close>

fun decide_voters ::
  "uint \<Rightarrow> Vote option \<Rightarrow> uint \<Rightarrow> (string, Voter) gomap \<Rightarrow> (string, Voter) gomap option" where
  "decide_voters thr majorityVote majorityVoteCount [] = Some []"
| "decide_voters thr majorityVote majorityVoteCount ((node, voter) # rest) =
     (if voter_result voter \<noteq> VoteUndecided \<or> voter_vote voter = None then
        map_option (Cons (node, voter)) (decide_voters thr majorityVote majorityVoteCount rest)
      else if majorityVoteCount < thr then
        map_option (Cons (node, voter\<lparr>voter_result := VoteFailed\<rparr>))
          (decide_voters thr majorityVote majorityVoteCount rest)
      else case majorityVote of
        None \<Rightarrow> None
      | Some v \<Rightarrow>
          map_option (Cons (node, voter\<lparr>voter_result :=
              (if voter_vote voter = Some v then VoteCommitted else VoteFailed)\<rparr>))
            (decide_voters thr majorityVote majorityVoteCount rest))"

definition mustSignalVoters :: "subtransaction \<Rightarrow> bool" where
  "mustSignalVoters t \<longleftrightarrow>
     \<not> isDone t \<and>
     (list_ex (\<lambda>(v, voteCount). threshold t \<le> voteCount) (voteCounts t) \<or>
      \<not> list_ex (\<lambda>(node, voter). voter_result voter = VoteUndecided) (votersByNode t))"

text \<open>The deferred function of \<open>updateVoterState\<close>.\<close>

definition signalVoters :: "subtransaction \<Rightarrow> subtransaction" where
  "signalVoters t = (if mustSignalVoters t then t\<lparr>doneCh := True\<rparr> else t)"

text \<open>Everything \<open>updateVoterState\<close> does once the vote has been added or removed.\<close>

definition settle :: "subtransaction \<Rightarrow> subtransaction \<times> tx_error option" where
  "settle t =
     (let (majorityVote, majorityVoteCount) = majority (voteCounts t) (None, 0);
          outstanding = outstandingVotes (votersByNode t)
      in if majorityVoteCount < threshold t \<and> threshold t \<le> majorityVoteCount + outstanding
         then (signalVoters t, None)
         else case decide_voters (threshold t) majorityVote majorityVoteCount (votersByNode t) of
                None \<Rightarrow> (t, Some PanicNilDereference)
              | Some voters \<Rightarrow> (signalVoters (t\<lparr>votersByNode := voters\<rparr>), None))"

definition castVote :: "subtransaction \<Rightarrow> string \<Rightarrow> Voter \<Rightarrow> Vote \<Rightarrow> subtransaction" where
  "castVote t node voter v =
     set_voter node (voter\<lparr>voter_vote := Some v\<rparr>)
       (t\<lparr>voteCounts := AList.update v (getz (voteCounts t) v + Votes voter) (voteCounts t)\<rparr>)"

definition withdrawVote :: "subtransaction \<Rightarrow> string \<Rightarrow> Voter \<Rightarrow> Vote \<Rightarrow> subtransaction" where
  "withdrawVote t node voter v =
     set_voter node (voter\<lparr>voter_result := VoteCanceled\<rparr>)
       (t\<lparr>voteCounts := AList.update v (getz (voteCounts t) v - Votes voter) (voteCounts t)\<rparr>)"

definition updateVoterState ::
  "subtransaction \<Rightarrow> string \<Rightarrow> Voter \<Rightarrow> Vote option \<Rightarrow> subtransaction \<times> tx_error option" where
  "updateVoterState t node voter vote =
     (case voter_result voter of
        VoteCanceled \<Rightarrow> (t, Some ErrTransactionCanceled)
      | VoteStopped \<Rightarrow> (t, Some ErrTransactionStopped)
      | VoteCommitted \<Rightarrow> (t, Some ErrChangeCommitted)
      | VoteFailed \<Rightarrow> (t, Some (ErrInvalidVoterState VoteFailed))
      | VoteUndecided \<Rightarrow>
          (case vote of
             Some v \<Rightarrow>
               (if voter_vote voter \<noteq> None then (t, Some ErrChangingVote)
                else settle (castVote t node voter v))
           | None \<Rightarrow>
               (if isDone t then (t, Some ErrAlreadyFinished)
                else case voter_vote voter of
                       None \<Rightarrow> (t, Some PanicNilDereference)
                     | Some v \<Rightarrow> settle (withdrawVote t node voter v))))"

section \<open>Voting and collecting the outcome\<close>

definition vote :: "subtransaction \<Rightarrow> string \<Rightarrow> Vote \<Rightarrow> subtransaction \<times> tx_error option" where
  "vote t node v =
     (case map_of (votersByNode t) node of
        None \<Rightarrow> (t, Some (ErrInvalidNode node))
      | Some voter \<Rightarrow>
          (if voter_vote voter \<noteq> None then (t, Some (ErrAlreadyVoted node))
           else case updateVoterState t node voter (Some v) of
                  (t', Some err) \<Rightarrow> (t', Some (Wrap ''updating state of node'' err))
                | (t', None) \<Rightarrow> (t', None)))"

definition collectVotes_ready :: "subtransaction \<Rightarrow> bool \<Rightarrow> bool" where
  "collectVotes_ready t ctxDone \<longleftrightarrow> ctxDone \<or> doneCh t"

definition collectVotes ::
  "subtransaction \<Rightarrow> string \<Rightarrow> bool \<Rightarrow> subtransaction \<times> tx_error option" where
  "collectVotes t node ctxErr =
     (case map_of (votersByNode t) node of
        None \<Rightarrow> (t, Some (ErrInvalidNode node))
      | Some voter \<Rightarrow>
          (if ctxErr then
             (case updateVoterState t node voter None of
                (t', Some err) \<Rightarrow> (t', Some (Wrap ''cancel vote'' err))
              | (t', None) \<Rightarrow> (t', Some ErrContext))
           else case voter_result voter of
             VoteCommitted \<Rightarrow> (t, None)
           | VoteFailed \<Rightarrow>
               (t, Some (if voter_vote voter = None
                         then Wrap ''did not cast a vote'' ErrTransactionFailed
                         else Wrap ''got too few votes'' ErrTransactionFailed))
           | VoteCanceled \<Rightarrow> (t, Some ErrTransactionCanceled)
           | VoteStopped \<Rightarrow> (t, Some ErrTransactionStopped)
           | VoteUndecided \<Rightarrow> (t, Some (ErrVoterUndecided node))))"

definition getResult :: "subtransaction \<Rightarrow> string \<Rightarrow> tx_error + VoteResult" where
  "getResult t node =
     (case map_of (votersByNode t) node of
        None \<Rightarrow> Inl (ErrInvalidNode node)
      | Some voter \<Rightarrow> Inr (voter_result voter))"

definition getVote :: "subtransaction \<Rightarrow> string \<Rightarrow> tx_error + Vote option" where
  "getVote t node =
     (case map_of (votersByNode t) node of
        None \<Rightarrow> Inl (ErrInvalidNode node)
      | Some voter \<Rightarrow> Inr (voter_vote voter))"

section \<open>Runs of a subtransaction\<close>

text \<open>
  One step is one locked call by some client, or a change of the order in which Go will next visit
  the two maps.
\<close>

inductive sub_step :: "subtransaction \<Rightarrow> subtransaction \<Rightarrow> bool" where
  sub_vote: "sub_step t (fst (vote t node v))"
| sub_collect: "collectVotes_ready t ctxErr \<Longrightarrow> sub_step t (fst (collectVotes t node ctxErr))"
| sub_cancel: "sub_step t (cancel t)"
| sub_stop: "sub_step t (fst (stop t))"
| sub_reorder: "mset voters = mset (votersByNode t) \<Longrightarrow> mset counts = mset (voteCounts t) \<Longrightarrow>
     sub_step t (t\<lparr>votersByNode := voters, voteCounts := counts\<rparr>)"

abbreviation sub_reachable :: "subtransaction \<Rightarrow> subtransaction \<Rightarrow> bool" where
  "sub_reachable t0 t \<equiv> sub_step\<^sup>*\<^sup>* t0 t"

inductive_cases sub_stepE: "sub_step t t'"

end
