(* ===== verification/Subtransaction_Invariant.thy ===== *)
theory Subtransaction_Invariant
  imports Subtransaction
begin

text \<open>
  The invariant of a voting session and what follows from it: agreement, quorum, no split between
  voters of the same vote, finality of outcomes and progress.
\<close>

section \<open>Weights\<close>

abbreviation voter_weight :: "Voter \<Rightarrow> nat" where
  "voter_weight x \<equiv> unat (Votes x)"

abbreviation total_weight :: "(string, Voter) gomap \<Rightarrow> nat" where
  "total_weight \<equiv> weight voter_weight (\<lambda>_. True)"

abbreviation open_weight :: "(string, Voter) gomap \<Rightarrow> nat" where
  "open_weight \<equiv> weight voter_weight (\<lambda>x. voter_vote x = None)"

abbreviation cast_weight :: "Vote \<Rightarrow> (string, Voter) gomap \<Rightarrow> nat" where
  "cast_weight v \<equiv> weight voter_weight (\<lambda>x. voter_vote x = Some v)"

abbreviation counted_weight :: "Vote \<Rightarrow> (string, Voter) gomap \<Rightarrow> nat" where
  "counted_weight v \<equiv>
     weight voter_weight (\<lambda>x. voter_vote x = Some v \<and> voter_result x \<noteq> VoteCanceled)"

abbreviation votes_for :: "subtransaction \<Rightarrow> Vote \<Rightarrow> nat" where
  "votes_for t v \<equiv> unat (getz (voteCounts t) v)"

section \<open>The invariant\<close>

text \<open>Static shape: well-formed maps, some voter, and a threshold above half of all votes.\<close>

definition sub_wf :: "subtransaction \<Rightarrow> bool" where
  "sub_wf t \<longleftrightarrow> gowf (votersByNode t) \<and> gowf (voteCounts t) \<and> votersByNode t \<noteq> [] \<and>
     total_weight (votersByNode t) < 2 ^ 64 \<and>
     total_weight (votersByNode t) < 2 * unat (threshold t)"

text \<open>The counters agree with the votes that were cast, less what cancelled voters took back.\<close>

definition sub_tally :: "subtransaction \<Rightarrow> bool" where
  "sub_tally t \<longleftrightarrow> (\<forall>v. counted_weight v (votersByNode t) \<le> votes_for t v \<and>
                        votes_for t v \<le> cast_weight v (votersByNode t))"

definition sub_quorum :: "subtransaction \<Rightarrow> Vote \<Rightarrow> bool" where
  "sub_quorum t v \<longleftrightarrow> threshold t \<le> getz (voteCounts t) v"

text \<open>Why a voter was decided the way it was.\<close>

definition sub_committed_ok :: "subtransaction \<Rightarrow> bool" where
  "sub_committed_ok t \<longleftrightarrow> (\<forall>x\<in>govals (votersByNode t). voter_result x = VoteCommitted \<longrightarrow>
     (\<exists>v. voter_vote x = Some v \<and> sub_quorum t v))"

definition sub_failed_ok :: "subtransaction \<Rightarrow> bool" where
  "sub_failed_ok t \<longleftrightarrow> (\<forall>x\<in>govals (votersByNode t). voter_result x = VoteFailed \<longrightarrow>
     (\<exists>v. voter_vote x = Some v \<and>
       ((\<exists>w. w \<noteq> v \<and> sub_quorum t w) \<or>
        (\<forall>w. votes_for t w + open_weight (votersByNode t) < unat (threshold t)))))"

definition sub_undecided :: "subtransaction \<Rightarrow> bool" where
  "sub_undecided t \<longleftrightarrow> (\<exists>x\<in>govals (votersByNode t). voter_result x = VoteUndecided)"

text \<open>How the outcome relates to the signal.\<close>

definition sub_signal_ok :: "subtransaction \<Rightarrow> bool" where
  "sub_signal_ok t \<longleftrightarrow>
     ((\<exists>v. sub_quorum t v) \<longrightarrow> doneCh t \<and>
        (\<forall>x\<in>govals (votersByNode t). voter_result x = VoteUndecided \<longrightarrow> voter_vote x = None)) \<and>
     (doneCh t \<longrightarrow> (\<exists>v. sub_quorum t v) \<or> \<not> sub_undecided t) \<and>
     ((\<forall>x\<in>govals (votersByNode t). voter_vote x \<noteq> None) \<longrightarrow> doneCh t)"

definition sub_inv :: "subtransaction \<Rightarrow> bool" where
  "sub_inv t \<longleftrightarrow> sub_wf t \<and> sub_tally t \<and> sub_committed_ok t \<and> sub_failed_ok t \<and> sub_signal_ok t"

text \<open>What holds between the change of the tally and the decision that follows it.\<close>

definition sub_pre :: "subtransaction \<Rightarrow> bool" where
  "sub_pre t \<longleftrightarrow> sub_wf t \<and> sub_tally t \<and> sub_committed_ok t \<and> sub_failed_ok t \<and>
     (doneCh t \<longrightarrow> (\<exists>v. sub_quorum t v))"

lemmas sub_inv_defs = sub_inv_def sub_wf_def sub_tally_def sub_committed_ok_def sub_failed_ok_def
  sub_signal_ok_def sub_undecided_def

section \<open>The counting loops\<close>

lemma majority_max:
  assumes "majority cs (mv, mc) = (mv', mc')"
  shows "mc \<le> mc' \<and> (\<forall>c\<in>snd ` set cs. c \<le> mc')"
  using assms
proof (induction cs arbitrary: mv mc)
  case (Cons p cs)
  obtain v c where p: "p = (v, c)" by (cases p)
  show ?case
  proof (cases "mc < c")
    case True
    then have "majority cs (Some v, c) = (mv', mc')" using Cons.prems p by simp
    from Cons.IH [OF this] True p show ?thesis by auto
  next
    case False
    then have "majority cs (mv, mc) = (mv', mc')" using Cons.prems p by simp
    from Cons.IH [OF this] False p show ?thesis by auto
  qed
qed simp

lemma majority_source:
  assumes "majority cs (mv, mc) = (mv', mc')"
  shows "(mv', mc') = (mv, mc) \<or> (\<exists>v. mv' = Some v \<and> (v, mc') \<in> set cs)"
  using assms
proof (induction cs arbitrary: mv mc)
  case (Cons p cs)
  obtain v c where p: "p = (v, c)" by (cases p)
  show ?case
  proof (cases "mc < c")
    case True
    then have "majority cs (Some v, c) = (mv', mc')" using Cons.prems p by simp
    from Cons.IH [OF this] p show ?thesis by auto
  next
    case False
    then have "majority cs (mv, mc) = (mv', mc')" using Cons.prems p by simp
    from Cons.IH [OF this] p show ?thesis by auto
  qed
qed simp

text \<open>The two facts the decision needs of the loop over \<open>voteCounts\<close>.\<close>

lemma majority_count_le:
  assumes "majority cs (None, 0) = (mv, mc)"
  shows "getz cs v \<le> mc"
proof (cases "map_of cs v")
  case None
  then show ?thesis by (simp add: getz_def)
next
  case (Some c)
  then have "c \<in> snd ` set cs" by (force dest: map_of_SomeD)
  with majority_max [OF assms] have "c \<le> mc" by blast
  with Some show ?thesis by (simp add: getz_def)
qed

lemma majority_count_eq:
  assumes "majority cs (None, 0) = (mv, mc)" and "gowf cs" and "0 < mc"
  shows "\<exists>v. mv = Some v \<and> getz cs v = mc"
proof -
  from majority_source [OF assms(1)] assms(3) obtain v where "mv = Some v" and "(v, mc) \<in> set cs"
    by auto
  moreover have "map_of cs v = Some mc"
    using \<open>gowf cs\<close> \<open>(v, mc) \<in> set cs\<close> by (rule gowf_lookup)
  ultimately show ?thesis by (auto simp: getz_def)
qed

lemma unat_outstandingVotes:
  assumes "total_weight m < 2 ^ 64"
  shows "unat (outstandingVotes m) = open_weight m"
proof -
  have eq: "(\<Sum>p\<leftarrow>m. unat (case p of (node, x) \<Rightarrow> if voter_vote x = None then Votes x else 0))
      = open_weight m"
    by (induction m) auto
  have "open_weight m < 2 ^ 64"
    using weight_le_total [of voter_weight "\<lambda>x. voter_vote x = None" m] assms by simp
  with eq show ?thesis
    unfolding outstandingVotes_def by (subst unat_sum_list) simp_all
qed

section \<open>The decision loop\<close>

text \<open>What the loop makes of one voter when the majority vote, if it is read, is there.\<close>

definition decide1 :: "uint \<Rightarrow> Vote option \<Rightarrow> uint \<Rightarrow> Voter \<Rightarrow> Voter" where
  "decide1 thr mv mc x =
     (if voter_result x \<noteq> VoteUndecided \<or> voter_vote x = None then x
      else if mc < thr then x\<lparr>voter_result := VoteFailed\<rparr>
      else x\<lparr>voter_result := (if voter_vote x = mv then VoteCommitted else VoteFailed)\<rparr>)"

lemma decide1_frame [simp]:
  "Votes (decide1 thr mv mc x) = Votes x" "voter_vote (decide1 thr mv mc x) = voter_vote x"
  "Name (decide1 thr mv mc x) = Name x"
  "(voter_result (decide1 thr mv mc x) = VoteCanceled) = (voter_result x = VoteCanceled)"
  by (auto simp: decide1_def)

lemma decide1_decided [simp]:
  "voter_result x \<noteq> VoteUndecided \<Longrightarrow> decide1 thr mv mc x = x"
  by (simp add: decide1_def)

lemma decide_voters_eq:
  assumes "mc < thr \<or> mv \<noteq> None"
  shows "decide_voters thr mv mc m = Some (map (\<lambda>(node, x). (node, decide1 thr mv mc x)) m)"
  using assms
proof (induction m)
  case (Cons p m)
  then show ?case by (cases p) (auto simp: decide1_def)
qed simp

definition decided :: "Vote option \<Rightarrow> uint \<Rightarrow> subtransaction \<Rightarrow> subtransaction" where
  "decided mv mc t =
     t\<lparr>votersByNode := map (\<lambda>(node, x). (node, decide1 (threshold t) mv mc x)) (votersByNode t)\<rparr>"

lemma decided_frame [simp]:
  "doneCh (decided mv mc t) = doneCh t" "threshold (decided mv mc t) = threshold t"
  "voteCounts (decided mv mc t) = voteCounts t"
  "gowf (votersByNode (decided mv mc t)) = gowf (votersByNode t)"
  "(votersByNode (decided mv mc t) = []) = (votersByNode t = [])"
  by (simp_all add: decided_def gowf_def comp_def case_prod_unfold)

lemma decided_weights [simp]:
  "total_weight (votersByNode (decided mv mc t)) = total_weight (votersByNode t)"
  "open_weight (votersByNode (decided mv mc t)) = open_weight (votersByNode t)"
  "cast_weight v (votersByNode (decided mv mc t)) = cast_weight v (votersByNode t)"
  "counted_weight v (votersByNode (decided mv mc t)) = counted_weight v (votersByNode t)"
  by (simp_all add: decided_def, (rule weight_map, auto)+)

lemma decided_voters:
  "govals (votersByNode (decided mv mc t))
     = decide1 (threshold t) mv mc ` govals (votersByNode t)"
  by (simp add: decided_def govals_map)

lemma signalVoters_frame [simp]:
  "threshold (signalVoters t) = threshold t" "voteCounts (signalVoters t) = voteCounts t"
  "votersByNode (signalVoters t) = votersByNode t"
  by (simp_all add: signalVoters_def)

lemma signalVoters_done:
  "doneCh (signalVoters t) \<longleftrightarrow> doneCh t \<or> mustSignalVoters t"
  by (simp add: signalVoters_def)

text \<open>The signal is raised exactly for a quorum or for a vote in which nobody is left undecided.\<close>

lemma mustSignalVoters_iff:
  assumes "sub_wf t"
  shows "mustSignalVoters t \<longleftrightarrow> \<not> doneCh t \<and> ((\<exists>v. sub_quorum t v) \<or> \<not> sub_undecided t)"
proof -
  have pos: "0 < threshold t"
    using assms by (auto simp: sub_wf_def word_less_nat_alt)
  have "list_ex (\<lambda>(v, c). threshold t \<le> c) (voteCounts t) \<longleftrightarrow> (\<exists>v. sub_quorum t v)"
  proof
    assume "list_ex (\<lambda>(v, c). threshold t \<le> c) (voteCounts t)"
    then obtain v c where "(v, c) \<in> set (voteCounts t)" and le: "threshold t \<le> c"
      by (auto simp: list_ex_iff)
    then have "map_of (voteCounts t) v = Some c"
      using assms by (auto simp: sub_wf_def intro: gowf_lookup)
    with le have "sub_quorum t v" by (simp add: sub_quorum_def getz_def)
    then show "\<exists>v. sub_quorum t v" ..
  next
    assume "\<exists>v. sub_quorum t v"
    then obtain v where le: "threshold t \<le> getz (voteCounts t) v" by (auto simp: sub_quorum_def)
    with pos obtain c where "map_of (voteCounts t) v = Some c" and "threshold t \<le> c"
      by (auto simp: getz_def split: option.splits)
    then show "list_ex (\<lambda>(v, c). threshold t \<le> c) (voteCounts t)"
      by (force simp: list_ex_iff dest: map_of_SomeD)
  qed
  moreover have "list_ex (\<lambda>(n, x). voter_result x = VoteUndecided) (votersByNode t)
      \<longleftrightarrow> sub_undecided t"
    by (auto simp: list_ex_iff sub_undecided_def)
  ultimately show ?thesis by (simp add: mustSignalVoters_def isDone_def)
qed

text \<open>The highest count and the outstanding votes together never exceed all votes.\<close>

lemma majority_plus_open:
  assumes "sub_wf t" and "sub_tally t" and "majority (voteCounts t) (None, 0) = (mv, mc)"
  shows "unat (mc + outstandingVotes (votersByNode t)) = unat mc + open_weight (votersByNode t)"
proof -
  let ?m = "votersByNode t"
  have total: "total_weight ?m < 2 ^ 64" and wf: "gowf (voteCounts t)"
    using assms(1) by (auto simp: sub_wf_def)
  have "unat mc + open_weight ?m \<le> total_weight ?m"
  proof (cases "mc = 0")
    case True
    then show ?thesis using weight_le_total by simp
  next
    case False
    then obtain v where "getz (voteCounts t) v = mc"
      using majority_count_eq [OF assms(3) wf] by (auto simp: word_gt_0)
    then have "unat mc \<le> cast_weight v ?m"
      using assms(2) by (auto simp: sub_tally_def)
    moreover have "cast_weight v ?m + open_weight ?m \<le> total_weight ?m"
      by (rule weight_disj) simp
    ultimately show ?thesis by simp
  qed
  with total unat_outstandingVotes [OF total] show ?thesis
    by (simp add: unat_add_lt)
qed

text \<open>
  The decision after a change of the tally: either nothing can be said yet, or the voters that
  have cast a vote are settled; no branch dereferences a nil vote.
\<close>

lemma settle_split:
  assumes "sub_pre t" and maj: "majority (voteCounts t) (None, 0) = (mv, mc)"
  shows "settle t =
     (if unat mc < unat (threshold t) \<and>
         unat (threshold t) \<le> unat mc + open_weight (votersByNode t)
      then (signalVoters t, None) else (signalVoters (decided mv mc t), None))"
proof -
  have wf: "sub_wf t" and tally: "sub_tally t" using assms(1) by (auto simp: sub_pre_def)
  have "mc < threshold t \<or> mv \<noteq> None"
  proof (cases "mc < threshold t")
    case False
    moreover have "0 < threshold t" using wf by (auto simp: sub_wf_def word_less_nat_alt)
    ultimately have "0 < mc" by simp
    then show ?thesis using majority_count_eq [OF maj] wf by (auto simp: sub_wf_def)
  qed simp
  from decide_voters_eq [OF this] show ?thesis
    using majority_plus_open [OF wf tally maj]
    by (simp add: settle_def maj decided_def word_less_nat_alt word_le_nat_alt)
qed

text \<open>What reaching and what missing the threshold mean for the counters.\<close>

lemma majority_wins:
  assumes "sub_wf t" and "majority (voteCounts t) (None, 0) = (mv, mc)" and "threshold t \<le> mc"
  shows "\<exists>v. mv = Some v \<and> sub_quorum t v"
proof -
  have "0 < threshold t" using assms(1) by (auto simp: sub_wf_def word_less_nat_alt)
  with assms(3) have "0 < mc" by simp
  with majority_count_eq [OF assms(2)] assms(1,3) show ?thesis
    by (auto simp: sub_wf_def sub_quorum_def)
qed

lemma majority_loses:
  assumes "majority (voteCounts t) (None, 0) = (mv, mc)"
    and "unat mc + open_weight (votersByNode t) < unat (threshold t)"
  shows "votes_for t w + open_weight (votersByNode t) < unat (threshold t)"
proof -
  have "votes_for t w \<le> unat mc"
    using majority_count_le [OF assms(1), of w] by (simp add: word_le_nat_alt)
  with assms(2) show ?thesis by simp
qed

text \<open>Why a voter of a decided session failed.\<close>

lemma decide1_failed:
  assumes "sub_pre t" and maj: "majority (voteCounts t) (None, 0) = (mv, mc)"
    and go: "\<not> (unat mc < unat (threshold t) \<and>
                unat (threshold t) \<le> unat mc + open_weight (votersByNode t))"
    and x: "x \<in> govals (votersByNode t)"
    and failed: "voter_result (decide1 (threshold t) mv mc x) = VoteFailed"
  shows "\<exists>v. voter_vote x = Some v \<and> ((\<exists>w. w \<noteq> v \<and> sub_quorum t w) \<or>
           (\<forall>w. votes_for t w + open_weight (votersByNode t) < unat (threshold t)))"
proof (cases "voter_result x = VoteFailed")
  case True
  with assms(1) x show ?thesis by (auto simp: sub_pre_def sub_failed_ok_def)
next
  case False
  with failed obtain v where v: "voter_vote x = Some v" and or: "mc < threshold t \<or> Some v \<noteq> mv"
    by (auto simp: decide1_def split: if_splits)
  show ?thesis
  proof (cases "mc < threshold t")
    case True
    with go have "unat mc + open_weight (votersByNode t) < unat (threshold t)"
      by (simp add: word_less_nat_alt)
    with v majority_loses [OF maj] show ?thesis by blast
  next
    case False
    with or v majority_wins [OF _ maj] assms(1) show ?thesis
      by (auto simp: sub_pre_def not_less)
  qed
qed

text \<open>Deciding keeps the reasons behind committed and failed voters.\<close>

lemma decided_pre:
  assumes pre: "sub_pre t" and maj: "majority (voteCounts t) (None, 0) = (mv, mc)"
    and go: "\<not> (unat mc < unat (threshold t) \<and>
                unat (threshold t) \<le> unat mc + open_weight (votersByNode t))"
  shows "sub_pre (decided mv mc t)"
proof -
  have q: "sub_quorum (decided mv mc t) v = sub_quorum t v" for v by (simp add: sub_quorum_def)
  have "sub_committed_ok (decided mv mc t)"
    using pre majority_wins [OF _ maj]
    by (auto simp: sub_pre_def sub_committed_ok_def decided_voters q decide1_def not_less
        split: if_splits)
  moreover have "sub_failed_ok (decided mv mc t)"
    using decide1_failed [OF pre maj go]
    by (auto simp: sub_failed_ok_def decided_voters q)
  ultimately show ?thesis
    using pre by (auto simp: sub_pre_def sub_wf_def sub_tally_def q)
qed

text \<open>After the decision, only voters that have not voted can be undecided.\<close>

lemma decided_undecided:
  assumes "x \<in> govals (votersByNode (decided mv mc t))" and "voter_result x = VoteUndecided"
  shows "voter_vote x = None"
  using assms by (auto simp: decided_voters decide1_def split: if_splits)

lemma signalVoters_inv:
  assumes pre: "sub_pre t"
    and q: "\<exists>v. sub_quorum t v \<Longrightarrow>
      \<forall>x\<in>govals (votersByNode t). voter_result x = VoteUndecided \<longrightarrow> voter_vote x = None"
    and all: "\<forall>x\<in>govals (votersByNode t). voter_vote x \<noteq> None \<Longrightarrow> \<not> sub_undecided t"
  shows "sub_inv (signalVoters t)"
proof -
  have wf: "sub_wf t" using pre by (simp add: sub_pre_def)
  have eq: "sub_quorum (signalVoters t) v = sub_quorum t v" for v by (simp add: sub_quorum_def)
  have und: "sub_undecided (signalVoters t) = sub_undecided t" by (simp add: sub_undecided_def)
  have "doneCh (signalVoters t) \<longleftrightarrow> doneCh t \<or> (\<exists>v. sub_quorum t v) \<or> \<not> sub_undecided t"
    by (auto simp: signalVoters_done mustSignalVoters_iff [OF wf])
  then have "sub_signal_ok (signalVoters t)"
    using pre q all unfolding sub_signal_ok_def eq und by (auto simp: sub_pre_def)
  moreover have "sub_wf (signalVoters t)" "sub_tally (signalVoters t)"
      "sub_committed_ok (signalVoters t)" "sub_failed_ok (signalVoters t)"
    using pre by (auto simp: sub_pre_def sub_wf_def sub_tally_def sub_committed_ok_def
        sub_failed_ok_def eq)
  ultimately show ?thesis by (simp add: sub_inv_def)
qed

lemma settle_inv:
  assumes pre: "sub_pre t"
  shows "sub_inv (fst (settle t)) \<and> snd (settle t) = None"
proof -
  obtain mv mc where maj: "majority (voteCounts t) (None, 0) = (mv, mc)" by fastforce
  let ?wait = "unat mc < unat (threshold t) \<and>
      unat (threshold t) \<le> unat mc + open_weight (votersByNode t)"
  show ?thesis
  proof (cases ?wait)
    case True
    have "\<not> sub_quorum t v" for v
    proof -
      have "votes_for t v \<le> unat mc"
        using majority_count_le [OF maj, of v] by (simp add: word_le_nat_alt)
      with True show ?thesis by (simp add: sub_quorum_def word_le_nat_alt)
    qed
    moreover have "\<not> (\<forall>x\<in>govals (votersByNode t). voter_vote x \<noteq> None)"
    proof
      assume "\<forall>x\<in>govals (votersByNode t). voter_vote x \<noteq> None"
      then have "open_weight (votersByNode t) = weight voter_weight (\<lambda>_. False) (votersByNode t)"
        by (intro weight_cong) auto
      also have "\<dots> = 0" by (simp add: weight_def case_prod_unfold)
      finally show False using True by simp
    qed
    ultimately have "sub_inv (signalVoters t)"
      by (intro signalVoters_inv [OF pre]) blast+
    then show ?thesis
      by (simp only: settle_split [OF pre maj] if_P [OF True] fst_conv snd_conv simp_thms)
  next
    case False
    have "\<forall>x\<in>govals (votersByNode (decided mv mc t)).
        voter_result x = VoteUndecided \<longrightarrow> voter_vote x = None"
      by (intro ballI impI) (rule decided_undecided)
    then have "sub_inv (signalVoters (decided mv mc t))"
      by (intro signalVoters_inv [OF decided_pre [OF pre maj False]])
        (blast, unfold sub_undecided_def, blast)
    then show ?thesis
      by (simp only: settle_split [OF pre maj] if_not_P [OF False] fst_conv snd_conv simp_thms)
  qed
qed

section \<open>Every operation keeps the invariant\<close>

lemma set_voter_frame [simp]:
  "doneCh (set_voter node x t) = doneCh t" "threshold (set_voter node x t) = threshold t"
  "voteCounts (set_voter node x t) = voteCounts t"
  "votersByNode (set_voter node x t) = AList.update node x (votersByNode t)"
  by (simp_all add: set_voter_def)

lemma update_ne_Nil [simp]: "AList.update k x m \<noteq> []"
  by (cases m) auto

lemma update_values:
  assumes "y \<in> govals (AList.update k x m)" and "gowf m"
  shows "y = x \<or> (\<exists>k'. k' \<noteq> k \<and> (k', y) \<in> set m)"
proof -
  from assms(1) obtain k' where "(k', y) \<in> set (AList.update k x m)" by auto
  with assms(2) have "map_of (AList.update k x m) k' = Some y"
    by (intro gowf_lookup) simp_all
  then show ?thesis by (auto split: if_splits dest: map_of_SomeD)
qed

lemma update_mem: "(k', y) \<in> set m \<Longrightarrow> k' \<noteq> k \<Longrightarrow> (k', y) \<in> set (AList.update k x m)"
  by (induction m) auto

text \<open>
  Casting moves the votes of an open voter to the tally of its vote: no counter wraps, and a
  quorum that was there stays.
\<close>

lemma castVote_weights:
  fixes v :: Vote
  assumes "sub_wf t" and "map_of (votersByNode t) node = Some x" and "voter_vote x = None"
  defines "m' \<equiv> AList.update node (x\<lparr>voter_vote := Some v\<rparr>) (votersByNode t)"
  shows "total_weight m' = total_weight (votersByNode t)"
    and "open_weight m' + voter_weight x = open_weight (votersByNode t)"
    and "cast_weight w m' = cast_weight w (votersByNode t) + (if w = v then voter_weight x else 0)"
    and "voter_result x \<noteq> VoteCanceled \<Longrightarrow>
      counted_weight w m' = counted_weight w (votersByNode t) + (if w = v then voter_weight x else 0)"
proof -
  have wf: "gowf (votersByNode t)" using assms(1) by (simp add: sub_wf_def)
  note upd = weight_update [OF wf assms(2), of voter_weight _ "x\<lparr>voter_vote := Some v\<rparr>",
      folded m'_def]
  show "total_weight m' = total_weight (votersByNode t)"
    using upd [of "\<lambda>_. True"] by simp
  show "open_weight m' + voter_weight x = open_weight (votersByNode t)"
    using upd [of "\<lambda>x. voter_vote x = None"] assms(3) by simp
  show "cast_weight w m' = cast_weight w (votersByNode t) + (if w = v then voter_weight x else 0)"
    using upd [of "\<lambda>x. voter_vote x = Some w"] assms(3) by (simp split: if_splits)
  show "counted_weight w m' = counted_weight w (votersByNode t) + (if w = v then voter_weight x else 0)"
    if "voter_result x \<noteq> VoteCanceled"
    using upd [of "\<lambda>x. voter_vote x = Some w \<and> voter_result x \<noteq> VoteCanceled"] assms(3) that
    by (simp split: if_splits)
qed

lemma castVote_count:
  assumes "sub_wf t" and "sub_tally t" and x: "map_of (votersByNode t) node = Some x"
    and "voter_vote x = None"
  shows "votes_for (castVote t node x v) w = votes_for t w + (if w = v then voter_weight x else 0)"
proof -
  note cw = castVote_weights [OF assms(1) x assms(4)]
  have "votes_for t v + voter_weight x < 2 ^ 64"
  proof -
    have "votes_for t v \<le> cast_weight v (votersByNode t)" using assms(2) by (simp add: sub_tally_def)
    then have "votes_for t v + voter_weight x
        \<le> cast_weight v (AList.update node (x\<lparr>voter_vote := Some v\<rparr>) (votersByNode t))"
      using cw(3) [of v v] by simp
    also have "\<dots> \<le> total_weight (votersByNode t)"
      using weight_le_total cw(1) by metis
    also have "\<dots> < 2 ^ 64" using assms(1) by (simp add: sub_wf_def)
    finally show ?thesis .
  qed
  then show ?thesis by (simp add: castVote_def getz_update unat_add_lt)
qed

lemma undecided_mem:
  assumes "map_of (votersByNode t) node = Some x" and "voter_result x = VoteUndecided"
  shows "sub_undecided t"
  using assms by (auto simp: sub_undecided_def dest: govals_map_of)

text \<open>
  Reasons survive a change that adds no decided voter, keeps every quorum and lets no vote gain
  more than was outstanding.
\<close>

lemma reasons_transfer:
  assumes c: "sub_committed_ok t" and f: "sub_failed_ok t" and thr: "threshold t' = threshold t"
    and old: "\<And>y. y \<in> govals (votersByNode t') \<Longrightarrow>
      voter_result y \<in> {VoteCommitted, VoteFailed} \<Longrightarrow> y \<in> govals (votersByNode t)"
    and keep: "\<And>w. sub_quorum t w \<Longrightarrow> sub_quorum t' w"
    and less: "\<And>w. votes_for t' w + open_weight (votersByNode t')
                 \<le> votes_for t w + open_weight (votersByNode t)"
  shows "sub_committed_ok t' \<and> sub_failed_ok t'"
proof
  show "sub_committed_ok t'"
    unfolding sub_committed_ok_def
  proof (intro ballI impI)
    fix y assume "y \<in> govals (votersByNode t')" and com: "voter_result y = VoteCommitted"
    then have "y \<in> govals (votersByNode t)" by (intro old) simp_all
    with c com keep show "\<exists>v. voter_vote y = Some v \<and> sub_quorum t' v"
      unfolding sub_committed_ok_def by blast
  qed
  show "sub_failed_ok t'"
    unfolding sub_failed_ok_def
  proof (intro ballI impI)
    fix y assume "y \<in> govals (votersByNode t')" and failed: "voter_result y = VoteFailed"
    then have "y \<in> govals (votersByNode t)" by (intro old) simp_all
    with f failed obtain u where "voter_vote y = Some u"
      and "(\<exists>w. w \<noteq> u \<and> sub_quorum t w) \<or>
        (\<forall>w. votes_for t w + open_weight (votersByNode t) < unat (threshold t))"
      unfolding sub_failed_ok_def by blast
    then show "\<exists>u. voter_vote y = Some u \<and> ((\<exists>w. w \<noteq> u \<and> sub_quorum t' w) \<or>
        (\<forall>w. votes_for t' w + open_weight (votersByNode t') < unat (threshold t')))"
      using keep less unfolding thr by (meson le_less_trans)
  qed
qed

lemma set_voter_old:
  assumes "sub_wf t" and "votersByNode t' = AList.update node x (votersByNode t)"
    and "y \<in> govals (votersByNode t')" and "y \<noteq> x"
  shows "y \<in> govals (votersByNode t)"
  using update_values [of y node x "votersByNode t"] assms by (auto simp: sub_wf_def)

lemma castVote_pre:
  assumes inv: "sub_inv t" and x: "map_of (votersByNode t) node = Some x"
    and vote: "voter_vote x = None" and res: "voter_result x = VoteUndecided"
  shows "sub_pre (castVote t node x v)"
proof -
  have wf: "sub_wf t" and tally: "sub_tally t" and reasons: "sub_committed_ok t" "sub_failed_ok t"
    using inv by (auto simp: sub_inv_def)
  let ?t = "castVote t node x v" and ?m = "votersByNode t"
  have voters: "votersByNode ?t = AList.update node (x\<lparr>voter_vote := Some v\<rparr>) ?m"
    and frame: "doneCh ?t = doneCh t" "threshold ?t = threshold t"
    by (simp_all add: castVote_def)
  note cw = castVote_weights [OF wf x vote, where v = v]
  note cnt = castVote_count [OF wf tally x vote, where v = v]
  have keep: "sub_quorum t w \<Longrightarrow> sub_quorum ?t w" for w
    using cnt [of w] by (simp add: sub_quorum_def frame word_le_nat_alt)
  have less: "votes_for ?t w + open_weight (votersByNode ?t) \<le> votes_for t w + open_weight ?m" for w
    using cnt [of w] cw(2) by (simp add: voters split: if_splits)
  have "y \<in> govals ?m"
    if "y \<in> govals (votersByNode ?t)" "voter_result y \<in> {VoteCommitted, VoteFailed}" for y
    using wf voters that(1) by (rule set_voter_old) (use that(2) res in auto)
  from reasons_transfer [OF reasons frame(2) this keep less]
  have "sub_committed_ok ?t \<and> sub_failed_ok ?t" .
  moreover have "sub_wf ?t"
    using wf cw(1) by (simp add: sub_wf_def voters frame castVote_def)
  moreover have "sub_tally ?t"
    using tally cw(3,4) cnt res by (simp add: sub_tally_def voters)
  moreover have "doneCh ?t \<longrightarrow> (\<exists>w. sub_quorum ?t w)"
    using inv undecided_mem [OF x res] keep
    by (auto simp: sub_inv_def sub_signal_ok_def frame)
  ultimately show ?thesis by (simp add: sub_pre_def)
qed

text \<open>
  Withdrawing is possible only before the signal, hence without a quorum, and takes back no more
  than was counted.
\<close>

lemma withdrawVote_weights:
  fixes w :: Vote
  assumes "sub_wf t" and "map_of (votersByNode t) node = Some x" and "voter_vote x = Some v"
    and "voter_result x = VoteUndecided"
  defines "m' \<equiv> AList.update node (x\<lparr>voter_result := VoteCanceled\<rparr>) (votersByNode t)"
  shows "total_weight m' = total_weight (votersByNode t)"
    and "open_weight m' = open_weight (votersByNode t)"
    and "cast_weight w m' = cast_weight w (votersByNode t)"
    and "counted_weight w m' + (if w = v then voter_weight x else 0)
       = counted_weight w (votersByNode t)"
proof -
  have wf: "gowf (votersByNode t)" using assms(1) by (simp add: sub_wf_def)
  note upd = weight_update [OF wf assms(2), of voter_weight _ "x\<lparr>voter_result := VoteCanceled\<rparr>",
      folded m'_def]
  show "total_weight m' = total_weight (votersByNode t)"
    using upd [of "\<lambda>_. True"] by simp
  show "open_weight m' = open_weight (votersByNode t)"
    using upd [of "\<lambda>x. voter_vote x = None"] assms(3) by simp
  show "cast_weight w m' = cast_weight w (votersByNode t)"
    using upd [of "\<lambda>x. voter_vote x = Some w"] assms(3) by (simp split: if_splits)
  show "counted_weight w m' + (if w = v then voter_weight x else 0)
      = counted_weight w (votersByNode t)"
    using upd [of "\<lambda>x. voter_vote x = Some w \<and> voter_result x \<noteq> VoteCanceled"] assms(3,4)
    by (simp split: if_splits)
qed

lemma withdrawVote_count:
  assumes "sub_wf t" and "sub_tally t" and x: "map_of (votersByNode t) node = Some x"
    and v: "voter_vote x = Some v" and res: "voter_result x = VoteUndecided"
  shows "votes_for (withdrawVote t node x v) w + (if w = v then voter_weight x else 0)
       = votes_for t w"
proof -
  have "voter_weight x \<le> counted_weight v (votersByNode t)"
    using map_of_SomeD [OF x] v res by (intro weight_ge_entry) auto
  also have "\<dots> \<le> votes_for t v" using assms(2) by (simp add: sub_tally_def)
  finally have "unat (getz (voteCounts t) v - Votes x) = votes_for t v - voter_weight x"
    and "voter_weight x \<le> votes_for t v"
    by (simp_all add: unat_sub_le)
  then show ?thesis by (simp add: withdrawVote_def getz_update)
qed

lemma withdrawVote_pre:
  assumes inv: "sub_inv t" and x: "map_of (votersByNode t) node = Some x"
    and v: "voter_vote x = Some v" and res: "voter_result x = VoteUndecided"
    and nd: "\<not> doneCh t"
  shows "sub_pre (withdrawVote t node x v)"
proof -
  have wf: "sub_wf t" and tally: "sub_tally t" and reasons: "sub_committed_ok t" "sub_failed_ok t"
    using inv by (auto simp: sub_inv_def)
  let ?t = "withdrawVote t node x v" and ?m = "votersByNode t"
  have voters: "votersByNode ?t = AList.update node (x\<lparr>voter_result := VoteCanceled\<rparr>) ?m"
    and frame: "doneCh ?t = doneCh t" "threshold ?t = threshold t"
    by (simp_all add: withdrawVote_def)
  note ww = withdrawVote_weights [OF wf x v res]
  note cnt = withdrawVote_count [OF wf tally x v res]
  have keep: "sub_quorum t w \<Longrightarrow> sub_quorum ?t w" for w
    using inv nd by (auto simp: sub_inv_def sub_signal_ok_def)
  have less: "votes_for ?t w + open_weight (votersByNode ?t) \<le> votes_for t w + open_weight ?m" for w
    using cnt [of w] ww(2) by (simp add: voters split: if_splits)
  have "y \<in> govals ?m"
    if "y \<in> govals (votersByNode ?t)" "voter_result y \<in> {VoteCommitted, VoteFailed}" for y
    using wf voters that(1) by (rule set_voter_old) (use that(2) in auto)
  from reasons_transfer [OF reasons frame(2) this keep less]
  have "sub_committed_ok ?t \<and> sub_failed_ok ?t" .
  moreover have "sub_wf ?t"
    using wf ww(1) by (simp add: sub_wf_def voters frame withdrawVote_def)
  moreover have "sub_tally ?t"
    unfolding sub_tally_def
  proof (intro allI conjI)
    fix w
    have "counted_weight w ?m \<le> votes_for t w" "votes_for t w \<le> cast_weight w ?m"
      using tally by (auto simp: sub_tally_def)
    with ww(3,4) [of w] cnt [of w]
    show "counted_weight w (votersByNode ?t) \<le> votes_for ?t w"
      and "votes_for ?t w \<le> cast_weight w (votersByNode ?t)"
      by (simp_all add: voters split: if_splits)
  qed
  ultimately show ?thesis using nd by (simp add: sub_pre_def frame)
qed

lemma updateVoterState_inv:
  assumes inv: "sub_inv t" and x: "map_of (votersByNode t) node = Some x"
  shows "sub_inv (fst (updateVoterState t node x vo))"
proof (cases "voter_result x = VoteUndecided")
  case True
  show ?thesis
  proof (cases vo)
    case (Some v)
    with True inv show ?thesis
      using settle_inv [OF castVote_pre [OF inv x _ True]] by (simp add: updateVoterState_def)
  next
    case None
    show ?thesis
    proof (cases "doneCh t \<or> voter_vote x = None")
      case False
      then obtain v where "voter_vote x = Some v" and "\<not> doneCh t" by auto
      with settle_inv [OF withdrawVote_pre [OF inv x _ True]] True None show ?thesis
        by (simp add: updateVoterState_def isDone_def)
    qed (use inv True None in \<open>auto simp: updateVoterState_def isDone_def\<close>)
  qed
next
  case False
  with inv show ?thesis by (simp add: updateVoterState_def split: VoteResult.splits)
qed

lemma vote_inv: "sub_inv t \<Longrightarrow> sub_inv (fst (vote t node v))"
  using updateVoterState_inv [of t node _ "Some v"]
  by (fastforce simp: vote_def split: option.splits prod.splits)

lemma collectVotes_inv: "sub_inv t \<Longrightarrow> sub_inv (fst (collectVotes t node ctxErr))"
  using updateVoterState_inv [of t node _ None]
  by (fastforce simp: collectVotes_def split: option.splits prod.splits VoteResult.splits)

text \<open>
  \<open>cancel\<close> and \<open>stop\<close> relabel undecided voters and leave everything else alone.
\<close>

definition relabelled :: "string \<times> Voter \<Rightarrow> string \<times> Voter \<Rightarrow> bool" where
  "relabelled p q \<longleftrightarrow> fst q = fst p \<and> (snd q = snd p \<or> voter_result (snd p) = VoteUndecided \<and>
     (\<exists>r\<in>{VoteCanceled, VoteStopped}. snd q = (snd p)\<lparr>voter_result := r\<rparr>))"

lemma relabelled_frame:
  assumes "relabelled p q"
  shows "fst q = fst p" "Votes (snd q) = Votes (snd p)" "voter_vote (snd q) = voter_vote (snd p)"
    "voter_result (snd p) \<noteq> VoteUndecided \<Longrightarrow> snd q = snd p"
    "voter_result (snd q) = VoteUndecided \<Longrightarrow> snd q = snd p"
    "voter_result (snd q) \<in> {VoteCommitted, VoteFailed} \<Longrightarrow> snd q = snd p"
    "voter_result (snd p) = VoteCanceled \<Longrightarrow> voter_result (snd q) = VoteCanceled"
  using assms by (auto simp: relabelled_def)

lemma relabelled_weights:
  assumes "list_all2 relabelled m m'"
  shows "map fst m' = map fst m" "total_weight m' = total_weight m"
    "open_weight m' = open_weight m" "cast_weight v m' = cast_weight v m"
    "counted_weight v m' \<le> counted_weight v m"
  using assms
proof (induction m m' rule: list_all2_induct)
  case (Cons p m q m')
  note rf = relabelled_frame(1,2,3,7) [OF Cons.hyps(1)]
  obtain n x n' y where "p = (n, x)" "q = (n', y)" by (cases p, cases q)
  with Cons.IH rf show "map fst (q # m') = map fst (p # m)"
    "total_weight (q # m') = total_weight (p # m)" "open_weight (q # m') = open_weight (p # m)"
    "cast_weight v (q # m') = cast_weight v (p # m)"
    "counted_weight v (q # m') \<le> counted_weight v (p # m)"
    by (auto simp: add_mono)
qed simp_all

lemma relabelled_values:
  assumes "list_all2 relabelled m m'" and "y \<in> govals m'"
  shows "\<exists>p\<in>set m. \<exists>n. relabelled p (n, y)"
  using assms by (induction rule: list_all2_induct) auto

lemma relabelled_old:
  assumes "list_all2 relabelled m m'" and "y \<in> govals m'"
    and "voter_result y \<in> {VoteUndecided, VoteCommitted, VoteFailed}"
  shows "y \<in> govals m"
  using relabelled_values [OF assms(1,2)] assms(3) by (force dest: relabelled_frame(5,6))

lemma relabelled_all_voted:
  assumes "list_all2 relabelled m m'"
  shows "(\<forall>x\<in>govals m'. voter_vote x \<noteq> None) \<longleftrightarrow> (\<forall>x\<in>govals m. voter_vote x \<noteq> None)"
  using assms
proof (induction rule: list_all2_induct)
  case (Cons p m q m')
  with relabelled_frame(3) [OF Cons.hyps(1)] show ?case by simp
qed simp

lemma relabel_inv:
  assumes inv: "sub_inv t" and rel: "list_all2 relabelled (votersByNode t) m"
    and mono: "doneCh t \<Longrightarrow> d"
    and just: "d \<Longrightarrow> doneCh t \<or> (\<forall>x\<in>govals m. voter_result x \<noteq> VoteUndecided)"
  shows "sub_inv (t\<lparr>votersByNode := m, doneCh := d\<rparr>)"
proof -
  let ?t = "t\<lparr>votersByNode := m, doneCh := d\<rparr>"
  note rw = relabelled_weights [OF rel] and old = relabelled_old [OF rel]
  have q: "sub_quorum ?t w = sub_quorum t w" for w by (simp add: sub_quorum_def)
  have reasons: "sub_committed_ok t" "sub_failed_ok t" and sig: "sub_signal_ok t"
    using inv by (auto simp: sub_inv_def)
  have "sub_committed_ok ?t \<and> sub_failed_ok ?t"
  proof (rule reasons_transfer [OF reasons])
    fix y assume "y \<in> govals (votersByNode ?t)" "voter_result y \<in> {VoteCommitted, VoteFailed}"
    then show "y \<in> govals (votersByNode t)" by (intro old) simp_all
  qed (simp_all only: q, simp_all add: rw(3))
  moreover have "m \<noteq> []" using inv rel by (auto simp: sub_inv_def sub_wf_def)
  then have "sub_wf ?t" using inv rw(1,2) by (simp add: sub_inv_def sub_wf_def gowf_def)
  moreover have "sub_tally ?t"
    using inv rw(4,5) by (auto simp: sub_inv_def sub_tally_def intro: le_trans)
  moreover have und: "x \<in> govals (votersByNode t)"
    if "x \<in> govals m" "voter_result x = VoteUndecided" for x
    by (rule old [OF that(1)]) (simp add: that(2))
  moreover have "sub_signal_ok ?t"
    unfolding sub_signal_ok_def q
  proof (intro conjI impI)
    assume "\<exists>v. sub_quorum t v"
    with sig have "doneCh t" and "\<forall>x\<in>govals (votersByNode t).
        voter_result x = VoteUndecided \<longrightarrow> voter_vote x = None"
      by (auto simp: sub_signal_ok_def)
    then show "doneCh ?t" and "\<forall>x\<in>govals (votersByNode ?t).
        voter_result x = VoteUndecided \<longrightarrow> voter_vote x = None"
      using mono und by simp_all
  next
    assume "doneCh ?t"
    with just sig show "(\<exists>v. sub_quorum t v) \<or> \<not> sub_undecided ?t"
      using und unfolding sub_signal_ok_def sub_undecided_def by auto
  next
    assume "\<forall>x\<in>govals (votersByNode ?t). voter_vote x \<noteq> None"
    with relabelled_all_voted [OF rel] sig mono show "doneCh ?t"
      by (simp add: sub_signal_ok_def)
  qed
  ultimately show ?thesis by (simp add: sub_inv_def)
qed

lemma cancel_relabelled: "list_all2 relabelled (votersByNode t) (votersByNode (cancel t))"
  by (auto simp: cancel_def list_all2_conv_all_nth relabelled_def case_prod_unfold)

lemma cancel_inv:
  assumes "sub_inv t"
  shows "sub_inv (cancel t)"
proof -
  let ?m = "votersByNode (cancel t)"
  have "\<forall>x\<in>govals ?m. voter_result x \<noteq> VoteUndecided"
    by (auto simp: cancel_def govals_def split: if_splits)
  then have "sub_inv (t\<lparr>votersByNode := ?m, doneCh := True\<rparr>)"
    by (intro relabel_inv [OF assms cancel_relabelled]) auto
  then show ?thesis by (simp add: cancel_def)
qed

lemma stop_voters_relabelled: "list_all2 relabelled m (fst (stop_voters m))"
  by (induction m rule: stop_voters.induct)
    (auto simp: relabelled_def list_all2_refl split: VoteResult.splits prod.splits)

lemma stop_relabelled: "list_all2 relabelled (votersByNode t) (votersByNode (fst (stop t)))"
  using stop_voters_relabelled [of "votersByNode t"]
  by (simp add: stop_def Let_def case_prod_unfold split: option.split)

lemma stop_voters_ok:
  "snd (stop_voters m) = None \<Longrightarrow> \<forall>x\<in>govals (fst (stop_voters m)). voter_result x \<noteq> VoteUndecided"
  by (induction m rule: stop_voters.induct) (auto split: VoteResult.splits prod.splits)

lemma stop_inv:
  assumes "sub_inv t"
  shows "sub_inv (fst (stop t))"
proof (cases "snd (stop_voters (votersByNode t))")
  case None
  then show ?thesis
    using relabel_inv [OF assms stop_voters_relabelled, of True] stop_voters_ok [OF None]
    by (simp add: stop_def case_prod_unfold)
next
  case (Some e)
  then show ?thesis
    using relabel_inv [OF assms stop_voters_relabelled, of "doneCh t"]
    by (simp add: stop_def case_prod_unfold)
qed

lemma reorder_inv:
  assumes inv: "sub_inv t" and m: "mset m = mset (votersByNode t)"
    and c: "mset cs = mset (voteCounts t)"
  shows "sub_inv (t\<lparr>votersByNode := m, voteCounts := cs\<rparr>)"
proof -
  let ?t = "t\<lparr>votersByNode := m, voteCounts := cs\<rparr>"
  have wf: "gowf (votersByNode t)" "gowf (voteCounts t)" using inv by (auto simp: sub_inv_def sub_wf_def)
  have w: "weight f P m = weight f P (votersByNode t)" for f P by (rule weight_mset [OF m])
  have g: "getz cs = getz (voteCounts t)" by (rule getz_mset [OF c wf(2)])
  have s: "govals m = govals (votersByNode t)" by (rule govals_mset [OF m])
  have q: "sub_quorum ?t v = sub_quorum t v" for v by (simp add: sub_quorum_def g)
  have "m \<noteq> []" using inv m by (auto simp: sub_inv_def sub_wf_def)
  then show ?thesis
    using inv gowf_mset [OF m wf(1)] gowf_mset [OF c wf(2)]
    unfolding sub_inv_def sub_wf_def sub_tally_def sub_committed_ok_def sub_failed_ok_def
      sub_signal_ok_def sub_undecided_def q
    by (simp add: w g s)
qed

lemma sub_step_inv: "sub_step t t' \<Longrightarrow> sub_inv t \<Longrightarrow> sub_inv t'"
  by (induction rule: sub_step.induct)
    (auto intro: vote_inv collectVotes_inv cancel_inv stop_inv reorder_inv)

interpretation sub_run: step_invariant sub_step sub_inv
  by unfold_locales (rule sub_step_inv)

end
