(* ===== verification/Subtransaction_Evolution.thy ===== *)
theory Subtransaction_Evolution
  imports Subtransaction_Invariant
begin

text \<open>
  How one voting session changes over time: a decided voter is never touched again, a vote that
  was cast is never changed, and the set of voters, their weights and the threshold are fixed.
\<close>

section \<open>Evolution of a voter\<close>

definition voter_evolves :: "Voter \<Rightarrow> Voter \<Rightarrow> bool" where
  "voter_evolves x y \<longleftrightarrow> y = x \<or>
     (voter_result x = VoteUndecided \<and> Name y = Name x \<and> Votes y = Votes x \<and>
      (voter_vote x = None \<or> voter_vote y = voter_vote x))"

lemma voter_evolves_refl [simp]: "voter_evolves x x"
  by (simp add: voter_evolves_def)

lemma voter_evolves_trans: "voter_evolves x y \<Longrightarrow> voter_evolves y z \<Longrightarrow> voter_evolves x z"
  by (auto simp: voter_evolves_def)

text \<open>Position by position, as the loops over the map change it.\<close>

definition entry_evolves :: "string \<times> Voter \<Rightarrow> string \<times> Voter \<Rightarrow> bool" where
  "entry_evolves p q \<longleftrightarrow> fst q = fst p \<and> voter_evolves (snd p) (snd q)"

lemma entries_map_of:
  "list_all2 entry_evolves m m' \<Longrightarrow> rel_option voter_evolves (map_of m node) (map_of m' node)"
  by (induction rule: list_all2_induct) (auto simp: entry_evolves_def)

lemma entries_map:
  assumes "\<And>x. voter_evolves x (f x)"
  shows "list_all2 entry_evolves m (map (\<lambda>(node, x). (node, f x)) m)"
  using assms by (auto simp: list_all2_conv_all_nth entry_evolves_def case_prod_unfold)

lemma entries_relabelled: "list_all2 relabelled m m' \<Longrightarrow> list_all2 entry_evolves m m'"
  by (erule list_all2_mono) (auto simp: relabelled_def entry_evolves_def voter_evolves_def)

section \<open>Evolution of the session\<close>

definition sub_evolves :: "subtransaction \<Rightarrow> subtransaction \<Rightarrow> bool" where
  "sub_evolves t t' \<longleftrightarrow> threshold t' = threshold t \<and> (doneCh t \<longrightarrow> doneCh t') \<and>
     (\<forall>node. rel_option voter_evolves (map_of (votersByNode t) node) (map_of (votersByNode t') node))"

lemma sub_evolvesI:
  assumes "threshold t' = threshold t" and "doneCh t \<Longrightarrow> doneCh t'"
    and "list_all2 entry_evolves (votersByNode t) (votersByNode t')"
  shows "sub_evolves t t'"
  using assms(1,2) entries_map_of [OF assms(3)] by (simp add: sub_evolves_def)

lemma sub_evolves_refl [simp]: "sub_evolves t t"
  by (simp add: sub_evolves_def option.rel_refl)

lemma sub_evolves_trans:
  assumes "sub_evolves t t'" and "sub_evolves t' t''"
  shows "sub_evolves t t''"
proof -
  have "rel_option voter_evolves (map_of (votersByNode t) node) (map_of (votersByNode t'') node)" for node
  proof -
    have "rel_option voter_evolves (map_of (votersByNode t) node) (map_of (votersByNode t') node)"
      and "rel_option voter_evolves (map_of (votersByNode t') node) (map_of (votersByNode t'') node)"
      using assms by (simp_all add: sub_evolves_def)
    then show ?thesis by (auto simp: rel_option_iff dest: voter_evolves_trans split: option.splits)
  qed
  with assms show ?thesis by (simp add: sub_evolves_def)
qed

lemma signalVoters_evolves: "sub_evolves t (signalVoters t)"
  by (intro sub_evolvesI) (simp_all add: signalVoters_done list_all2_refl entry_evolves_def)

lemma decide_voters_evolves:
  "decide_voters thr mv mc m = Some m' \<Longrightarrow> list_all2 entry_evolves m m'"
proof (induction m arbitrary: m')
  case (Cons p m)
  then show ?case
    by (cases p) (auto simp: entry_evolves_def voter_evolves_def split: if_splits option.splits)
qed simp

lemma settle_evolves: "sub_evolves t (fst (settle t))"
proof (cases "decide_voters (threshold t) (fst (majority (voteCounts t) (None, 0)))
    (snd (majority (voteCounts t) (None, 0))) (votersByNode t)")
  case (Some voters)
  have "sub_evolves t (t\<lparr>votersByNode := voters\<rparr>)"
    by (rule sub_evolvesI) (simp_all add: decide_voters_evolves [OF Some])
  with Some show ?thesis
    by (auto simp: settle_def Let_def case_prod_unfold intro: sub_evolves_trans signalVoters_evolves)
qed (auto simp: settle_def Let_def case_prod_unfold intro: signalVoters_evolves)

lemma set_voter_evolves:
  assumes "map_of (votersByNode t) node = Some x" and "voter_evolves x y"
  shows "sub_evolves t (set_voter node y (t\<lparr>voteCounts := cs\<rparr>))"
  using assms by (auto simp: sub_evolves_def update_conv option.rel_refl)

lemma updateVoterState_evolves:
  assumes "map_of (votersByNode t) node = Some x"
  shows "sub_evolves t (fst (updateVoterState t node x vo))"
proof -
  have "sub_evolves t (fst (settle (castVote t node x v)))"
    if "voter_result x = VoteUndecided" "voter_vote x = None" for v
    unfolding castVote_def
    by (rule sub_evolves_trans [OF set_voter_evolves settle_evolves], rule assms)
      (simp add: that voter_evolves_def)
  moreover have "sub_evolves t (fst (settle (withdrawVote t node x v)))"
    if "voter_result x = VoteUndecided" for v
    unfolding withdrawVote_def
    by (rule sub_evolves_trans [OF set_voter_evolves settle_evolves], rule assms)
      (simp add: that voter_evolves_def)
  ultimately show ?thesis
    by (simp add: updateVoterState_def split: VoteResult.splits option.splits)
qed

lemma vote_evolves: "sub_evolves t (fst (vote t node v))"
  using updateVoterState_evolves [of t node _ "Some v"]
  by (fastforce simp: vote_def split: option.splits prod.splits)

lemma collectVotes_evolves: "sub_evolves t (fst (collectVotes t node ctxErr))"
  using updateVoterState_evolves [of t node _ None]
  by (fastforce simp: collectVotes_def split: option.splits prod.splits VoteResult.splits)

lemma cancel_evolves: "sub_evolves t (cancel t)"
  by (rule sub_evolvesI [OF _ _ entries_relabelled [OF cancel_relabelled]]) (simp_all add: cancel_def)

lemma stop_evolves: "sub_evolves t (fst (stop t))"
  by (rule sub_evolvesI [OF _ _ entries_relabelled [OF stop_relabelled]])
    (simp_all add: stop_def Let_def case_prod_unfold split: option.split)

lemma reorder_evolves:
  assumes "mset m = mset (votersByNode t)" and "gowf (votersByNode t)"
  shows "sub_evolves t (t\<lparr>votersByNode := m, voteCounts := cs\<rparr>)"
  using map_of_mset [OF assms] by (simp add: sub_evolves_def option.rel_refl)

lemma sub_step_evolves: "sub_step t t' \<Longrightarrow> sub_inv t \<Longrightarrow> sub_evolves t t'"
  by (induction rule: sub_step.induct)
    (simp_all add: vote_evolves collectVotes_evolves cancel_evolves stop_evolves reorder_evolves
      sub_inv_def sub_wf_def)

interpretation sub_evolution: stable_fact sub_step sub_inv sub_evolves
  by unfold_locales (blast intro: sub_step_inv sub_evolves_trans sub_step_evolves)+

lemma sub_run_evolves: "sub_reachable t0 t \<Longrightarrow> sub_inv t0 \<Longrightarrow> sub_evolves t0 t"
  using sub_evolution.run_fact [of t0 t t0] by simp

end
