(* ===== verification/Transactions.thy ===== *)
theory Transactions
  imports Subtransaction_Evolution
begin

text \<open>
  A reference transaction, \<open>internal/praefect/transactions/transaction.go\<close>: a sequence of voting
  sessions that every node goes through in the same order.

  \<open>cancel\<close>, \<open>stop\<close>, \<open>State\<close>, \<open>DidVote\<close> and \<open>getOrCreateSubtransaction\<close> hold the transaction's
  lock and are functions on the record; \<open>vote\<close> holds no lock between its three calls, so a call of
  it is a program counter that moves one call at a time (\<open>vote_call_step\<close>). Other goroutines may
  run between two iterations of the loops of \<open>cancel\<close> and \<open>stop\<close>, on sessions the loop is not
  looking at: the step relation has one step per iteration, and \<open>tx_cancel_run\<close> and \<open>tx_stop_run\<close>
  show that the functions are runs of it. The loop of \<open>getOrCreateSubtransaction\<close> continues only
  past sessions the node has committed, which never change again, so reading them one by one gives
  what reading them at once gives.
\<close>

section \<open>The state of a transaction\<close>

datatype transactionState = transactionOpen | transactionCanceled | transactionStopped

record transaction =
  tx_id :: uint
  tx_threshold :: uint
  tx_voters :: "Voter list"
  tx_state :: transactionState
  subtransactions :: "subtransaction list"

text \<open>The loop of \<open>newTransaction\<close>: the names seen so far and the sum of the votes.\<close>

fun sum_voters :: "Voter list \<Rightarrow> string list \<Rightarrow> uint \<Rightarrow> tx_error + uint" where
  "sum_voters [] seen totalVotes = Inr totalVotes"
| "sum_voters (voter # rest) seen totalVotes =
     (if Name voter \<in> set seen then Inl ErrDuplicateNodes
      else sum_voters rest (Name voter # seen) (totalVotes + Votes voter))"

definition newTransaction :: "uint \<Rightarrow> Voter list \<Rightarrow> uint \<Rightarrow> tx_error + transaction" where
  "newTransaction tid voters thr =
     (if voters = [] then Inl ErrMissingNodes
      else case sum_voters voters [] 0 of
        Inl err \<Rightarrow> Inl err
      | Inr totalVotes \<Rightarrow>
          (if totalVotes < thr then Inl ErrInvalidThreshold
           else if thr * 2 \<le> totalVotes then Inl ErrInvalidThreshold
           else Inr \<lparr>tx_id = tid, tx_threshold = thr, tx_voters = voters,
                     tx_state = transactionOpen, subtransactions = []\<rparr>))"

definition tx_cancel :: "transaction \<Rightarrow> transaction" where
  "tx_cancel t =
     t\<lparr>subtransactions := map cancel (subtransactions t), tx_state := transactionCanceled\<rparr>"

fun stop_subtransactions :: "subtransaction list \<Rightarrow> subtransaction list \<times> tx_error option" where
  "stop_subtransactions [] = ([], None)"
| "stop_subtransactions (s # rest) =
     (case stop s of
        (s', Some err) \<Rightarrow> (s' # rest, Some err)
      | (s', None) \<Rightarrow> (let (rest', err) = stop_subtransactions rest in (s' # rest', err)))"

definition tx_stop :: "transaction \<Rightarrow> transaction \<times> tx_error option" where
  "tx_stop t =
     (case stop_subtransactions (subtransactions t) of
        (subs, Some err) \<Rightarrow> (t\<lparr>subtransactions := subs\<rparr>, Some err)
      | (subs, None) \<Rightarrow> (t\<lparr>subtransactions := subs, tx_state := transactionStopped\<rparr>, None))"

definition State :: "transaction \<Rightarrow> (string, VoteResult) gomap" where
  "State t =
     (if subtransactions t = [] then
        fold (\<lambda>voter results. AList.update (Name voter)
          (case tx_state t of
             transactionOpen \<Rightarrow> VoteUndecided
           | transactionCanceled \<Rightarrow> VoteCanceled
           | transactionStopped \<Rightarrow> VoteStopped) results) (tx_voters t) []
      else
        fold (\<lambda>(voter, result) results. AList.update voter result results)
          (sub_state (last (subtransactions t))) [])"

definition CountSubtransactions :: "transaction \<Rightarrow> nat" where
  "CountSubtransactions t = length (subtransactions t)"

definition DidVote :: "transaction \<Rightarrow> string \<Rightarrow> bool" where
  "DidVote t node =
     (case subtransactions t of
        [] \<Rightarrow> False
      | s # _ \<Rightarrow> (case getVote s node of Inl err \<Rightarrow> False | Inr v \<Rightarrow> v \<noteq> None))"

section \<open>Joining a session\<close>

text \<open>
  The loop over the sessions: the index of the first one the node is undecided on, or the number
  of sessions when it has committed all of them.
\<close>

fun find_subtransaction :: "subtransaction list \<Rightarrow> nat \<Rightarrow> string \<Rightarrow> tx_error + nat" where
  "find_subtransaction [] i node = Inr i"
| "find_subtransaction (s # rest) i node =
     (case getResult s node of
        Inl err \<Rightarrow> Inl err
      | Inr VoteUndecided \<Rightarrow> Inr i
      | Inr VoteCommitted \<Rightarrow> find_subtransaction rest (Suc i) node
      | Inr VoteFailed \<Rightarrow> Inl ErrTransactionFailed
      | Inr VoteCanceled \<Rightarrow> Inl ErrTransactionCanceled
      | Inr VoteStopped \<Rightarrow> Inl ErrTransactionStopped)"

definition getOrCreateSubtransaction ::
  "transaction \<Rightarrow> string \<Rightarrow> transaction \<times> (tx_error + nat)" where
  "getOrCreateSubtransaction t node =
     (case tx_state t of
        transactionCanceled \<Rightarrow> (t, Inl ErrTransactionCanceled)
      | transactionStopped \<Rightarrow> (t, Inl ErrTransactionStopped)
      | transactionOpen \<Rightarrow>
          (case find_subtransaction (subtransactions t) 0 node of
             Inl err \<Rightarrow> (t, Inl err)
           | Inr i \<Rightarrow>
               (if i < length (subtransactions t) then (t, Inr i)
                else (t\<lparr>subtransactions := subtransactions t @
                          [newSubtransaction (tx_voters t) (tx_threshold t)]\<rparr>, Inr i))))"

section \<open>A call of vote, one locked call at a time\<close>

datatype vote_call =
    AtJoin string Vote
  | AtVote string Vote nat
  | AtCollect string nat
  | Returned string "tx_error option"

definition set_sub :: "nat \<Rightarrow> subtransaction \<Rightarrow> transaction \<Rightarrow> transaction" where
  "set_sub i s t = t\<lparr>subtransactions := (subtransactions t)[i := s]\<rparr>"

text \<open>\<open>None\<close>: the call is blocked, or has returned already.\<close>

fun vote_call_step :: "bool \<Rightarrow> transaction \<Rightarrow> vote_call \<Rightarrow> (transaction \<times> vote_call) option" where
  "vote_call_step ctxErr t (AtJoin node v) =
     (case getOrCreateSubtransaction t node of
        (t', Inl err) \<Rightarrow> Some (t', Returned node (Some err))
      | (t', Inr i) \<Rightarrow> Some (t', AtVote node v i))"
| "vote_call_step ctxErr t (AtVote node v i) =
     (case vote (subtransactions t ! i) node v of
        (s, Some err) \<Rightarrow> Some (set_sub i s t, Returned node (Some err))
      | (s, None) \<Rightarrow> Some (set_sub i s t, AtCollect node i))"
| "vote_call_step ctxErr t (AtCollect node i) =
     (if collectVotes_ready (subtransactions t ! i) ctxErr then
        (case collectVotes (subtransactions t ! i) node ctxErr of
           (s, res) \<Rightarrow> Some (set_sub i s t, Returned node res))
      else None)"
| "vote_call_step ctxErr t (Returned node res) = None"

section \<open>Runs of a transaction\<close>

record tx_system =
  sys_tx :: transaction
  sys_calls :: "vote_call list"

inductive tx_step :: "tx_system \<Rightarrow> tx_system \<Rightarrow> bool" where
  tx_enter: "tx_step s (s\<lparr>sys_calls := sys_calls s @ [AtJoin node v]\<rparr>)"
| tx_call: "k < length (sys_calls s) \<Longrightarrow>
     vote_call_step ctxErr (sys_tx s) (sys_calls s ! k) = Some (t', c) \<Longrightarrow>
     tx_step s (s\<lparr>sys_tx := t', sys_calls := (sys_calls s)[k := c]\<rparr>)"
| tx_sub: "i < length (subtransactions (sys_tx s)) \<Longrightarrow> old = subtransactions (sys_tx s) ! i \<Longrightarrow>
     new = cancel old \<or> new = fst (stop old) \<or>
     (\<exists>voters counts. mset voters = mset (votersByNode old) \<and>
        mset counts = mset (voteCounts old) \<and>
        new = old\<lparr>votersByNode := voters, voteCounts := counts\<rparr>) \<Longrightarrow>
     tx_step s (s\<lparr>sys_tx := set_sub i new (sys_tx s)\<rparr>)"
| tx_end: "st \<in> {transactionCanceled, transactionStopped} \<Longrightarrow>
     tx_step s (s\<lparr>sys_tx := (sys_tx s)\<lparr>tx_state := st\<rparr>\<rparr>)"

inductive_cases tx_stepE: "tx_step s s'"

definition start_system :: "transaction \<Rightarrow> tx_system" where
  "start_system t = \<lparr>sys_tx = t, sys_calls = []\<rparr>"

abbreviation tx_reachable :: "transaction \<Rightarrow> tx_system \<Rightarrow> bool" where
  "tx_reachable t0 s \<equiv> tx_step\<^sup>*\<^sup>* (start_system t0) s"

section \<open>Schedules\<close>

text \<open>
  A schedule of calls: a node enters \<open>vote\<close>, or the call at some position moves on, with its
  context done or not; a blocked call stays where it is.
\<close>

datatype sched = Enter string Vote | Move nat bool

fun exec :: "sched list \<Rightarrow> tx_system \<Rightarrow> tx_system" where
  "exec [] s = s"
| "exec (Enter node v # es) s = exec es (s\<lparr>sys_calls := sys_calls s @ [AtJoin node v]\<rparr>)"
| "exec (Move k ctxErr # es) s =
     (if k < length (sys_calls s) then
        (case vote_call_step ctxErr (sys_tx s) (sys_calls s ! k) of
           None \<Rightarrow> exec es s
         | Some (t', c) \<Rightarrow> exec es (s\<lparr>sys_tx := t', sys_calls := (sys_calls s)[k := c]\<rparr>))
      else exec es s)"

lemma exec_reachable: "tx_step\<^sup>*\<^sup>* s (exec es s)"
proof (induction es s rule: exec.induct)
  case (2 node v es s)
  have "tx_step s (s\<lparr>sys_calls := sys_calls s @ [AtJoin node v]\<rparr>)" by (rule tx_enter)
  with 2 show ?case by (simp add: converse_rtranclp_into_rtranclp)
next
  case (3 k ctxErr es s)
  show ?case
  proof (cases "k < length (sys_calls s)")
    case True
    show ?thesis
    proof (cases "vote_call_step ctxErr (sys_tx s) (sys_calls s ! k)")
      case None
      with "3.IH"(1) True show ?thesis by simp
    next
      case (Some p)
      obtain t' c where p: "p = (t', c)" by (cases p)
      have "tx_step s (s\<lparr>sys_tx := t', sys_calls := (sys_calls s)[k := c]\<rparr>)"
        using True Some p by (simp add: tx_call)
      with "3.IH"(2) [OF True Some p [symmetric]] True Some p show ?thesis
        by (simp add: converse_rtranclp_into_rtranclp)
    qed
  qed (use "3.IH"(3) in simp)
qed simp

lemma exec_append: "exec (es @ fs) s = exec fs (exec es s)"
  by (induction es s rule: exec.induct) (auto split: option.split)

end
