(* ===== verification/Transaction_Invariant.thy ===== *)
theory Transaction_Invariant
  imports Transactions
begin

text \<open>
  The invariant of a transaction: each of its sessions is a run of the voting protocol from the
  initial state, and a node votes on a session only after it has committed all earlier ones.
\<close>

section \<open>What newTransaction accepts\<close>

lemma sum_voters_eq:
  "sum_voters voters seen acc =
     (if distinct (map Name voters) \<and> set (map Name voters) \<inter> set seen = {}
      then Inr (acc + sum_list (map Votes voters)) else Inl ErrDuplicateNodes)"
  by (induction voters seen acc rule: sum_voters.induct) (auto simp: add.assoc)

definition voters_ok :: "Voter list \<Rightarrow> bool" where
  "voters_ok voters \<longleftrightarrow>
     (\<forall>x\<in>set voters. voter_vote x = None \<and> voter_result x = VoteUndecided) \<and>
     sum_list (map (\<lambda>x. unat (Votes x)) voters) < 2 ^ 64"

lemma newTransaction_Inr:
  assumes "newTransaction tid voters thr = Inr t"
  shows "t = \<lparr>tx_id = tid, tx_threshold = thr, tx_voters = voters,
      tx_state = transactionOpen, subtransactions = []\<rparr>"
    and "voters \<noteq> []" and "distinct (map Name voters)"
    and "thr \<le> sum_list (map Votes voters)" and "sum_list (map Votes voters) < thr * 2"
  using assms by (auto simp: newTransaction_def sum_voters_eq split: if_splits)

lemma unat_Votes_sum:
  assumes "voters_ok voters"
  shows "unat (sum_list (map Votes voters)) = sum_list (map (\<lambda>x. unat (Votes x)) voters)"
  using assms unat_sum_list [of Votes voters] by (simp add: voters_ok_def)

text \<open>The two comparisons of \<open>newTransaction\<close>, with the doubled threshold wrapping.\<close>

lemma double_threshold:
  fixes thr total :: uint
  shows "thr \<le> total \<and> total < thr * 2 \<longleftrightarrow>
     unat thr \<le> unat total \<and> unat total < 2 * unat thr \<and> unat thr < 2 ^ 63"
proof -
  have two: "unat (thr * 2) = (2 * unat thr) mod 2 ^ 64" by (simp add: unat_word_ariths mult.commute)
  show ?thesis
  proof (cases "unat thr < 2 ^ 63")
    case True
    then show ?thesis unfolding word_le_nat_alt word_less_nat_alt two by simp
  next
    case False
    have "unat thr < 2 ^ 64" using unsigned_less [of thr, where ?'a = nat] by simp
    with False have "(2 * unat thr) mod 2 ^ 64 = 2 * unat thr - 2 ^ 64" by (simp add: mod_if)
    with False \<open>unat thr < 2 ^ 64\<close> show ?thesis
      unfolding word_le_nat_alt word_less_nat_alt two by auto
  qed
qed

lemma votersByNode_new:
  assumes "distinct (map Name voters)"
  shows "votersByNode (newSubtransaction voters thr) = map (\<lambda>x. (Name x, x)) voters"
proof -
  have "fold (\<lambda>x m. AList.update (Name x) x m) vs m = m @ map (\<lambda>x. (Name x, x)) vs"
    if "distinct (map Name vs)" "set (map Name vs) \<inter> set (gokeys m) = {}"
    for vs and m :: "(string, Voter) gomap"
    using that
  proof (induction vs arbitrary: m)
    case (Cons x vs)
    then have "AList.update (Name x) x m = m @ [(Name x, x)]"
      by (simp add: update_new gokeys_def)
    with Cons show ?case by (auto simp: gokeys_def)
  qed simp
  from this [of voters "[]"] assms show ?thesis by (simp add: newSubtransaction_def gokeys_def)
qed

lemma newSubtransaction_inv:
  assumes new: "newTransaction tid voters thr = Inr t" and ok: "voters_ok voters"
  shows "sub_inv (newSubtransaction voters thr)"
proof -
  let ?s = "newSubtransaction voters thr"
  note nt = newTransaction_Inr [OF new]
  note vs = votersByNode_new [OF nt(3), of thr]
  have frame: "threshold ?s = thr" "voteCounts ?s = []" "doneCh ?s = False"
    by (simp_all add: newSubtransaction_def)
  have total: "total_weight (votersByNode ?s) = unat (sum_list (map Votes voters))"
    unfolding unat_Votes_sum [OF ok] vs by (simp add: weight_def comp_def)
  have "unat (thr * 2) \<le> 2 * unat thr"
    by (simp add: unat_word_ariths mult.commute)
  with nt(5) have less: "total_weight (votersByNode ?s) < 2 * unat (threshold ?s)"
    unfolding total frame word_less_nat_alt by simp
  have "total_weight (votersByNode ?s) < 2 ^ 64"
    using unsigned_less [of "sum_list (map Votes voters)", where ?'a = nat] unfolding total by simp
  with less have "sub_wf ?s"
    using nt(2,3) unfolding sub_wf_def by (simp add: frame vs gowf_def comp_def)
  moreover have fresh: "voter_vote x = None" "voter_result x = VoteUndecided"
    if "x \<in> govals (votersByNode ?s)" for x
    using that ok unfolding vs by (auto simp: govals_def voters_ok_def)
  have "sub_tally ?s"
    using fresh by (simp add: sub_tally_def frame getz_def weight_none)
  moreover have "\<not> sub_quorum ?s v" for v
    using less by (auto simp: sub_quorum_def frame getz_def)
  moreover have "votersByNode ?s \<noteq> []" using nt(2) vs by simp
  then obtain x where "x \<in> govals (votersByNode ?s)"
    by (cases "votersByNode ?s") auto
  ultimately show ?thesis
    using fresh by (auto simp: sub_inv_def sub_committed_ok_def sub_failed_ok_def sub_signal_ok_def frame)
qed

section \<open>Votes and results over time\<close>

definition voted :: "subtransaction \<Rightarrow> string \<Rightarrow> bool" where
  "voted s node \<longleftrightarrow> (\<exists>v. getVote s node = Inr (Some v))"

lemma evolves_getResult_eq:
  assumes "sub_evolves s s'" and "getResult s node \<noteq> Inr VoteUndecided"
  shows "getResult s' node = getResult s node"
proof -
  have "rel_option voter_evolves (map_of (votersByNode s) node) (map_of (votersByNode s') node)"
    using assms(1) by (simp add: sub_evolves_def)
  with assms(2) show ?thesis
    by (auto simp: getResult_def rel_option_iff voter_evolves_def split: option.splits)
qed

lemma evolves_getVote_eq:
  assumes "sub_evolves s s'" and "getVote s node \<noteq> Inr None"
  shows "getVote s' node = getVote s node"
proof -
  have "rel_option voter_evolves (map_of (votersByNode s) node) (map_of (votersByNode s') node)"
    using assms(1) by (simp add: sub_evolves_def)
  with assms(2) show ?thesis
    by (auto simp: getVote_def rel_option_iff voter_evolves_def split: option.splits)
qed

lemma evolves_voted: "sub_evolves s s' \<Longrightarrow> voted s node \<Longrightarrow> voted s' node"
  using evolves_getVote_eq [of s s' node] by (auto simp: voted_def)

text \<open>Only \<open>castVote\<close> gives a node a vote.\<close>

abbreviation same_vote :: "string \<times> Voter \<Rightarrow> string \<times> Voter \<Rightarrow> bool" where
  "same_vote p q \<equiv> fst q = fst p \<and> voter_vote (snd q) = voter_vote (snd p)"

lemma getVote_alt:
  "getVote s node = (case map_option voter_vote (map_of (votersByNode s) node) of
     None \<Rightarrow> Inl (ErrInvalidNode node) | Some v \<Rightarrow> Inr v)"
  by (simp add: getVote_def split: option.split)

lemma same_vote_getVote:
  assumes "list_all2 same_vote (votersByNode s) (votersByNode s')"
  shows "getVote s' node = getVote s node"
proof -
  have "map_option voter_vote (map_of m' node) = map_option voter_vote (map_of m node)"
    if "list_all2 same_vote m m'" for m m' :: "(string, Voter) gomap"
    using that by (induction rule: list_all2_induct) auto
  from this [OF assms] show ?thesis by (simp only: getVote_alt)
qed

lemma decide_voters_votes: "decide_voters thr mv mc m = Some m' \<Longrightarrow> list_all2 same_vote m m'"
proof (induction m arbitrary: m')
  case (Cons p m)
  then show ?case by (cases p) (auto split: if_splits option.splits)
qed simp

lemma getVote_settle [simp]: "getVote (fst (settle s)) node = getVote s node"
proof (rule same_vote_getVote)
  show "list_all2 same_vote (votersByNode s) (votersByNode (fst (settle s)))"
    by (auto simp: settle_def Let_def case_prod_unfold list_all2_refl
        intro: decide_voters_votes split: option.split)
qed

lemma getVote_castVote:
  "getVote (castVote s node x v) n = (if n = node then Inr (Some v) else getVote s n)"
  by (simp add: castVote_def getVote_def update_conv)

lemma getVote_withdrawVote:
  "map_of (votersByNode s) node = Some x \<Longrightarrow> getVote (withdrawVote s node x v) n = getVote s n"
  by (auto simp: withdrawVote_def getVote_def update_conv)

lemma vote_getVote:
  assumes "vote s node v = (s', None)"
  shows "getVote s' node = Inr (Some v)"
proof -
  obtain x where "map_of (votersByNode s) node = Some x" and "updateVoterState s node x (Some v) = (s', None)"
    using assms by (auto simp: vote_def split: option.splits prod.splits if_splits)
  then have "s' = fst (settle (castVote s node x v))"
    by (auto simp: updateVoterState_def split: VoteResult.splits if_splits)
  then show ?thesis by (simp add: getVote_castVote)
qed

lemma updateVoterState_getVote:
  assumes "map_of (votersByNode s) node = Some x" and "n \<noteq> node \<or> vo = None"
  shows "getVote (fst (updateVoterState s node x vo)) n = getVote s n"
  using assms by (auto simp: updateVoterState_def getVote_castVote getVote_withdrawVote
      split: VoteResult.split option.split)

lemma vote_getVote_other: "n \<noteq> node \<Longrightarrow> getVote (fst (vote s node v)) n = getVote s n"
  using updateVoterState_getVote [of s node _ n "Some v"]
  by (fastforce simp: vote_def split: option.splits prod.splits)

lemma collectVotes_getVote: "getVote (fst (collectVotes s node ctxErr)) n = getVote s n"
  using updateVoterState_getVote [of s node _ n None]
  by (fastforce simp: collectVotes_def split: option.splits prod.splits VoteResult.splits)

lemma relabelled_getVote:
  assumes "list_all2 relabelled (votersByNode s) (votersByNode s')"
  shows "getVote s' node = getVote s node"
  by (rule same_vote_getVote, rule list_all2_mono [OF assms]) (auto dest: relabelled_frame)

lemma reorder_getVote:
  assumes "mset m = mset (votersByNode s)" and "gowf (votersByNode s)"
  shows "getVote (s\<lparr>votersByNode := m, voteCounts := cs\<rparr>) node = getVote s node"
  using map_of_mset [OF assms] by (simp add: getVote_def)

section \<open>The invariant\<close>

definition committed_upto :: "subtransaction list \<Rightarrow> string \<Rightarrow> nat \<Rightarrow> bool" where
  "committed_upto subs node i \<longleftrightarrow> (\<forall>j<i. getResult (subs ! j) node = Inr VoteCommitted)"

text \<open>A result that is neither a panic nor a voter left undecided after the signal.\<close>

definition clean_result :: "tx_error option \<Rightarrow> bool" where
  "clean_result res \<longleftrightarrow> (\<forall>e\<in>set_option res. \<not> errors_Is e PanicNilDereference \<and>
     (\<forall>node. \<not> errors_Is e (ErrVoterUndecided node)))"

fun call_ok :: "subtransaction list \<Rightarrow> vote_call \<Rightarrow> bool" where
  "call_ok subs (AtVote node v i) \<longleftrightarrow> i < length subs \<and> committed_upto subs node i"
| "call_ok subs (AtCollect node i) \<longleftrightarrow> i < length subs \<and> voted (subs ! i) node"
| "call_ok subs (Returned node res) \<longleftrightarrow> clean_result res"
| "call_ok subs (AtJoin node v) \<longleftrightarrow> True"

definition base_sub :: "transaction \<Rightarrow> subtransaction" where
  "base_sub t = newSubtransaction (tx_voters t) (tx_threshold t)"

definition subs_ok :: "transaction \<Rightarrow> subtransaction list \<Rightarrow> bool" where
  "subs_ok t0 subs \<longleftrightarrow>
     (\<forall>s\<in>set subs. sub_reachable (base_sub t0) s) \<and>
     (\<forall>i<length subs. \<forall>node. voted (subs ! i) node \<longrightarrow> committed_upto subs node i)"

definition tx_inv :: "transaction \<Rightarrow> tx_system \<Rightarrow> bool" where
  "tx_inv t0 s \<longleftrightarrow> sub_inv (base_sub t0) \<and> (\<forall>node. \<not> voted (base_sub t0) node) \<and>
     tx_voters (sys_tx s) = tx_voters t0 \<and> tx_threshold (sys_tx s) = tx_threshold t0 \<and>
     subs_ok t0 (subtransactions (sys_tx s)) \<and>
     list_all (call_ok (subtransactions (sys_tx s))) (sys_calls s)"

lemma find_subtransaction_Inr:
  assumes "find_subtransaction subs i node = Inr k"
  shows "i \<le> k \<and> k \<le> i + length subs \<and> committed_upto subs node (k - i) \<and>
    (k < i + length subs \<longrightarrow> getResult (subs ! (k - i)) node = Inr VoteUndecided)"
  using assms
proof (induction subs i node rule: find_subtransaction.induct)
  case (2 s rest i node)
  then consider "k = i" "getResult s node = Inr VoteUndecided"
    | "getResult s node = Inr VoteCommitted" "find_subtransaction rest (Suc i) node = Inr k"
    by (auto split: sum.splits VoteResult.splits)
  then show ?case
  proof cases
    case 2
    with "2.IH" [OF 2(1) refl 2(2)] obtain m where "k = Suc (i + m)"
      by (metis le_Suc_ex add_Suc add.commute)
    with "2.IH" [OF 2(1) refl 2(2)] 2(1) show ?thesis
      by (auto simp: committed_upto_def nth_Cons' less_Suc_eq_0_disj)
  qed (simp add: committed_upto_def)
qed (simp add: committed_upto_def)

text \<open>What a call has learnt stays true when a session moves on or a new one is appended.\<close>

lemma committed_upto_update:
  assumes "sub_evolves (subs ! i) s'" and "committed_upto subs node k" and "i < length subs"
  shows "committed_upto (subs[i := s']) node k"
  using assms evolves_getResult_eq [OF assms(1), of node]
  by (auto simp: committed_upto_def nth_list_update)

lemma voted_update:
  assumes "sub_evolves (subs ! i) s'" and "voted (subs ! j) node" and "i < length subs"
  shows "voted (subs[i := s'] ! j) node"
  using assms evolves_voted [OF assms(1), of node] by (cases "i = j") auto

lemma call_ok_update:
  assumes "sub_evolves (subs ! i) s'" and "i < length subs" and "call_ok subs c"
  shows "call_ok (subs[i := s']) c"
  using assms by (cases c) (auto intro: committed_upto_update voted_update)

lemma call_ok_append: "call_ok subs c \<Longrightarrow> call_ok (subs @ [s]) c"
  by (cases c) (auto simp: committed_upto_def nth_append)

lemma subs_ok_update:
  assumes ok: "subs_ok t0 subs" and i: "i < length subs" and base: "sub_inv (base_sub t0)"
    and step: "sub_step (subs ! i) s'"
    and new: "\<And>node. voted s' node \<Longrightarrow> \<not> voted (subs ! i) node \<Longrightarrow> committed_upto subs node i"
  shows "subs_ok t0 (subs[i := s'])" and "sub_evolves (subs ! i) s'"
proof -
  have reach: "sub_reachable (base_sub t0) (subs ! i)" using ok i by (auto simp: subs_ok_def)
  from sub_run.run_inv [OF this base] show ev: "sub_evolves (subs ! i) s'"
    by (rule sub_step_evolves [OF step])
  have "sub_reachable (base_sub t0) s'" using reach step by (rule rtranclp.rtrancl_into_rtrancl)
  then have "\<forall>s\<in>set (subs[i := s']). sub_reachable (base_sub t0) s"
    using ok set_update_subset_insert [of subs i s'] by (auto simp: subs_ok_def)
  moreover have "committed_upto (subs[i := s']) node j"
    if "j < length subs" "voted (subs[i := s'] ! j) node" for j node
  proof (rule committed_upto_update [OF ev _ i])
    show "committed_upto subs node j"
      using that ok new by (cases "i = j") (auto simp: subs_ok_def)
  qed
  ultimately show "subs_ok t0 (subs[i := s'])" by (simp add: subs_ok_def)
qed

lemma tx_inv_sub_update:
  assumes inv: "tx_inv t0 s" and i: "i < length (subtransactions (sys_tx s))"
    and step: "sub_step (subtransactions (sys_tx s) ! i) s'"
    and new: "\<And>node. voted s' node \<Longrightarrow> \<not> voted (subtransactions (sys_tx s) ! i) node \<Longrightarrow>
      committed_upto (subtransactions (sys_tx s)) node i"
  shows "tx_inv t0 (s\<lparr>sys_tx := set_sub i s' (sys_tx s)\<rparr>)"
  using subs_ok_update [OF _ i _ step new, of t0] inv i
  by (auto simp: tx_inv_def set_sub_def list_all_iff intro: call_ok_update)

section \<open>Every step keeps the invariant\<close>

lemma updateVoterState_clean:
  assumes inv: "sub_inv s" and x: "map_of (votersByNode s) node = Some x"
    and "vo = None \<Longrightarrow> voter_vote x \<noteq> None"
  shows "clean_result (snd (updateVoterState s node x vo))"
proof -
  have "snd (settle (castVote s node x v)) = None"
    if "voter_vote x = None" "voter_result x = VoteUndecided" for v
    using settle_inv [OF castVote_pre [OF inv x that]] by simp
  moreover have "snd (settle (withdrawVote s node x v)) = None"
    if "voter_vote x = Some v" "voter_result x = VoteUndecided" "\<not> doneCh s" for v
    using settle_inv [OF withdrawVote_pre [OF inv x that]] by simp
  ultimately show ?thesis
    using assms(3) by (auto simp: updateVoterState_def clean_result_def isDone_def
        split: VoteResult.split option.split)
qed

lemma vote_clean: "sub_inv s \<Longrightarrow> clean_result (snd (vote s node v))"
  using updateVoterState_clean [of s node _ "Some v"]
  by (fastforce simp: vote_def clean_result_def split: option.splits prod.splits)

text \<open>A voter that has voted and is woken up has been decided.\<close>

lemma voted_done_decided:
  assumes "sub_inv s" and "doneCh s" and "map_of (votersByNode s) node = Some x"
    and "voter_vote x \<noteq> None"
  shows "voter_result x \<noteq> VoteUndecided"
  using assms govals_map_of [OF assms(3)]
  by (auto simp: sub_inv_def sub_signal_ok_def sub_undecided_def)

lemma collectVotes_clean:
  assumes inv: "sub_inv s" and voted: "voted s node" and ready: "collectVotes_ready s ctxErr"
  shows "clean_result (snd (collectVotes s node ctxErr))"
proof -
  from voted obtain x where x: "map_of (votersByNode s) node = Some x" "voter_vote x \<noteq> None"
    by (auto simp: voted_def getVote_def split: option.splits)
  show ?thesis
  proof (cases ctxErr)
    case True
    with updateVoterState_clean [OF inv x(1), of None] x show ?thesis
      by (fastforce simp: collectVotes_def clean_result_def split: prod.splits option.splits)
  next
    case False
    with voted_done_decided [OF inv _ x] ready x show ?thesis
      by (auto simp: collectVotes_def collectVotes_ready_def clean_result_def split: VoteResult.split)
  qed
qed

lemma set_sub_same [simp]: "i < length (subtransactions t) \<Longrightarrow> set_sub i (subtransactions t ! i) t = t"
  by (simp add: set_sub_def)

lemma tx_inv_sub_inv:
  assumes "tx_inv t0 s" and "i < length (subtransactions (sys_tx s))"
  shows "sub_inv (subtransactions (sys_tx s) ! i)"
proof -
  have "sub_reachable (base_sub t0) (subtransactions (sys_tx s) ! i)" and "sub_inv (base_sub t0)"
    using assms by (auto simp: tx_inv_def subs_ok_def)
  then show ?thesis by (rule sub_run.run_inv)
qed

lemma tx_inv_calls:
  assumes "tx_inv t0 s" and "call_ok (subtransactions (sys_tx s)) c"
  shows "tx_inv t0 (s\<lparr>sys_calls := (sys_calls s)[k := c]\<rparr>)"
  using assms set_update_subset_insert [of "sys_calls s" k c] by (auto simp: tx_inv_def list_all_iff)

lemma find_subtransaction_clean:
  "find_subtransaction subs i node = Inl e \<Longrightarrow> clean_result (Some e)"
  by (induction subs i node rule: find_subtransaction.induct)
    (auto simp: clean_result_def getResult_def split: sum.splits VoteResult.splits option.splits)

lemma join_inv:
  assumes inv: "tx_inv t0 s" and join: "getOrCreateSubtransaction (sys_tx s) node = (t', r)"
  shows "tx_inv t0 (s\<lparr>sys_tx := t'\<rparr>) \<and> (case r of
      Inl e \<Rightarrow> clean_result (Some e)
    | Inr i \<Rightarrow> i < length (subtransactions t') \<and> committed_upto (subtransactions t') node i)"
proof (cases "tx_state (sys_tx s)")
  case transactionOpen
  let ?subs = "subtransactions (sys_tx s)"
  show ?thesis
  proof (cases "find_subtransaction ?subs 0 node")
    case (Inl e)
    with join transactionOpen have "t' = sys_tx s" "r = Inl e"
      by (simp_all add: getOrCreateSubtransaction_def)
    with inv find_subtransaction_clean [OF Inl] show ?thesis by simp
  next
    case (Inr i)
    note find = find_subtransaction_Inr [OF Inr, simplified]
    have new: "\<not> voted (base_sub t0) n" for n
      using inv by (simp add: tx_inv_def)
    show ?thesis
    proof (cases "i < length ?subs")
      case True
      with join transactionOpen Inr have "t' = sys_tx s" "r = Inr i"
        by (simp_all add: getOrCreateSubtransaction_def)
      with inv find True show ?thesis by simp
    next
      case False
      then have eq: "t' = (sys_tx s)\<lparr>subtransactions := ?subs @ [base_sub t0]\<rparr>" "r = Inr (length ?subs)"
        using join transactionOpen Inr inv find
        by (auto simp: getOrCreateSubtransaction_def base_sub_def tx_inv_def)
      have "subs_ok t0 (?subs @ [base_sub t0])"
        using inv new by (auto simp: subs_ok_def tx_inv_def nth_append committed_upto_def less_Suc_eq)
      with inv eq find False show ?thesis
        by (auto simp: tx_inv_def list_all_iff call_ok_append committed_upto_def nth_append)
    qed
  qed
qed (use inv join in \<open>auto simp: getOrCreateSubtransaction_def clean_result_def\<close>)

lemma call_step_inv:
  assumes inv: "tx_inv t0 s" and k: "k < length (sys_calls s)"
    and step: "vote_call_step ctxErr (sys_tx s) (sys_calls s ! k) = Some (t', c)"
  shows "tx_inv t0 (s\<lparr>sys_tx := t'\<rparr>) \<and> call_ok (subtransactions t') c"
proof -
  let ?subs = "subtransactions (sys_tx s)"
  have ok: "call_ok ?subs (sys_calls s ! k)" using inv k by (auto simp: tx_inv_def list_all_length)
  show ?thesis
  proof (cases "sys_calls s ! k")
    case (AtJoin node v)
    with step join_inv [OF inv, of node] show ?thesis
      by (auto split: prod.splits sum.splits)
  next
    case (AtVote node v i)
    with ok have i: "i < length ?subs" "committed_upto ?subs node i" by simp_all
    let ?s' = "fst (vote (?subs ! i) node v)"
    have "tx_inv t0 (s\<lparr>sys_tx := set_sub i ?s' (sys_tx s)\<rparr>)"
    proof (rule tx_inv_sub_update [OF inv i(1) sub_vote])
      fix n assume "voted ?s' n" "\<not> voted (?subs ! i) n"
      then have "n = node" using vote_getVote_other [of n node "?subs ! i" v] by (metis voted_def)
      with i(2) show "committed_upto ?subs n i" by simp
    qed
    moreover have "clean_result (snd (vote (?subs ! i) node v))"
      by (rule vote_clean [OF tx_inv_sub_inv [OF inv i(1)]])
    ultimately show ?thesis
      using step AtVote i vote_getVote [of "?subs ! i" node v]
      by (fastforce simp: set_sub_def voted_def split: prod.splits option.splits)
  next
    case (AtCollect node i)
    with ok have i: "i < length ?subs" "voted (?subs ! i) node" by simp_all
    have ready: "collectVotes_ready (?subs ! i) ctxErr" using step AtCollect by (simp split: if_splits)
    let ?s' = "fst (collectVotes (?subs ! i) node ctxErr)"
    have "tx_inv t0 (s\<lparr>sys_tx := set_sub i ?s' (sys_tx s)\<rparr>)"
      using i ready
      by (intro tx_inv_sub_update [OF inv]) (auto intro: sub_collect simp: voted_def collectVotes_getVote)
    moreover have "clean_result (snd (collectVotes (?subs ! i) node ctxErr))"
      by (rule collectVotes_clean [OF tx_inv_sub_inv [OF inv i(1)] i(2) ready])
    ultimately show ?thesis
      using step AtCollect ready by (auto split: prod.splits)
  qed (use step in simp)
qed

lemma tx_sub_inv:
  assumes inv: "tx_inv t0 s" and i: "i < length (subtransactions (sys_tx s))"
    and old: "old = subtransactions (sys_tx s) ! i"
    and new: "new = cancel old \<or> new = fst (stop old) \<or>
     (\<exists>voters counts. mset voters = mset (votersByNode old) \<and>
        mset counts = mset (voteCounts old) \<and>
        new = old\<lparr>votersByNode := voters, voteCounts := counts\<rparr>)"
  shows "tx_inv t0 (s\<lparr>sys_tx := set_sub i new (sys_tx s)\<rparr>)"
proof -
  have wf: "gowf (votersByNode old)"
    using tx_inv_sub_inv [OF inv i] old by (simp add: sub_inv_def sub_wf_def)
  have "sub_step old new" using new by (auto intro: sub_cancel sub_stop sub_reorder)
  moreover have "getVote new node = getVote old node" for node
    using new relabelled_getVote [OF cancel_relabelled] relabelled_getVote [OF stop_relabelled]
      reorder_getVote [OF _ wf] by auto
  ultimately show ?thesis
    by (intro tx_inv_sub_update [OF inv i]) (simp_all add: old voted_def)
qed

lemma tx_step_inv: "tx_step s s' \<Longrightarrow> tx_inv t0 s \<Longrightarrow> tx_inv t0 s'"
proof (induction rule: tx_step.induct)
  case (tx_call k s ctxErr t' c)
  from call_step_inv [OF tx_call.prems tx_call.hyps] show ?case
    using tx_inv_calls [of t0 "s\<lparr>sys_tx := t'\<rparr>" c k] by simp
next
  case (tx_sub i s old new)
  then show ?case by (blast intro: tx_sub_inv)
qed (auto simp: tx_inv_def)

interpretation tx_run: step_invariant tx_step "tx_inv t0" for t0
  by unfold_locales (rule tx_step_inv)

lemma start_inv:
  assumes "newTransaction tid voters thr = Inr t0" and "voters_ok voters"
  shows "tx_inv t0 (start_system t0)"
proof -
  note nt = newTransaction_Inr [OF assms(1)]
  have "\<not> voted (newSubtransaction voters thr) node" for node
    using assms(2) by (auto simp: voted_def getVote_def votersByNode_new [OF nt(3)] voters_ok_def
        map_of_map_keys split: option.splits dest!: map_of_SomeD)
  with newSubtransaction_inv [OF assms] show ?thesis
    by (simp add: tx_inv_def start_system_def nt(1) base_sub_def subs_ok_def)
qed

text \<open>The form the properties use: any session of any reachable state.\<close>

lemma reachable_inv:
  assumes "newTransaction tid voters thr = Inr t0" and "voters_ok voters" and "tx_reachable t0 s"
  shows "tx_inv t0 s"
  using tx_run.run_inv [OF assms(3) start_inv [OF assms(1,2)]] .

lemma reachable_sub_inv:
  assumes "newTransaction tid voters thr = Inr t0" and "voters_ok voters" and "tx_reachable t0 s"
    and "sub \<in> set (subtransactions (sys_tx s))"
  shows "sub_inv sub" and "sub_evolves (newSubtransaction voters thr) sub"
proof -
  have reach: "sub_reachable (newSubtransaction voters thr) sub"
    using reachable_inv [OF assms(1-3)] assms(4) newTransaction_Inr(1) [OF assms(1)]
    by (auto simp: tx_inv_def subs_ok_def base_sub_def)
  note base = newSubtransaction_inv [OF assms(1,2)]
  show "sub_inv sub" by (rule sub_run.run_inv [OF reach base])
  show "sub_evolves (newSubtransaction voters thr) sub" by (rule sub_run_evolves [OF reach base])
qed

end
