(* ===== verification/Transaction_Props.thy ===== *)
theory Transaction_Props
  imports Transaction_Invariant
begin

text \<open>
  What a transaction guarantees to the nodes that vote in it: agreement, quorum, order, finality,
  progress, and what \<open>newTransaction\<close> accepts.
\<close>

section \<open>Votes by name\<close>

text \<open>The weight of the registered voters whose vote on the session is \<open>v\<close>.\<close>

definition weight_of :: "Voter list \<Rightarrow> subtransaction \<Rightarrow> Vote \<Rightarrow> nat" where
  "weight_of voters sub v =
     (\<Sum>x\<leftarrow>voters. if getVote sub (Name x) = Inr (Some v) then unat (Votes x) else 0)"

lemma map_of_voters:
  assumes "distinct (map Name voters)" and "x \<in> set voters"
  shows "map_of (map (\<lambda>x. (Name x, x)) voters) (Name x) = Some x"
  using assms by (intro map_of_is_SomeI) (simp_all add: comp_def)

lemma dom_voters: "dom (map_of (map (\<lambda>x. (Name x, x)) voters)) = Name ` set voters"
  by (simp add: dom_map_of_conv_image_fst image_image)

lemma evolves_voters:
  assumes "distinct (map Name voters)" and "sub_evolves (newSubtransaction voters thr) sub"
  shows "threshold sub = thr" and "dom (map_of (votersByNode sub)) = Name ` set voters"
    and "x \<in> set voters \<Longrightarrow> \<exists>y. map_of (votersByNode sub) (Name x) = Some y \<and> Votes y = Votes x"
proof -
  have ev: "rel_option voter_evolves (map_of (map (\<lambda>x. (Name x, x)) voters) n)
      (map_of (votersByNode sub) n)" for n
    using assms(2) by (simp add: sub_evolves_def votersByNode_new [OF assms(1)])
  show "threshold sub = thr" using assms(2) by (simp add: sub_evolves_def newSubtransaction_def)
  have "n \<in> dom (map_of (votersByNode sub)) \<longleftrightarrow> n \<in> dom (map_of (map (\<lambda>x. (Name x, x)) voters))" for n
    using ev [of n] by (auto simp: rel_option_iff split: option.splits)
  then show "dom (map_of (votersByNode sub)) = Name ` set voters" unfolding dom_voters by blast
  show "\<exists>y. map_of (votersByNode sub) (Name x) = Some y \<and> Votes y = Votes x" if "x \<in> set voters"
    using ev [of "Name x"] map_of_voters [OF assms(1) that]
    by (auto simp: option_rel_Some1 voter_evolves_def)
qed

lemma weight_of_voters:
  assumes "distinct (map Name voters)" and "sub_evolves (newSubtransaction voters thr) sub"
    and "gowf (votersByNode sub)"
  shows "weight voter_weight (\<lambda>x. voter_vote x = vo) (votersByNode sub)
    = (\<Sum>x\<leftarrow>voters. if getVote sub (Name x) = Inr vo then unat (Votes x) else 0)"
proof -
  let ?m = "votersByNode sub"
  let ?g = "\<lambda>k. if voter_vote (the (map_of ?m k)) = vo then unat (Votes (the (map_of ?m k))) else 0"
  note ev = evolves_voters [OF assms(1,2)]
  have inj: "inj_on Name (set voters)" "distinct voters" using assms(1) by (auto simp: distinct_map)
  have "weight voter_weight (\<lambda>x. voter_vote x = vo) ?m = (\<Sum>k\<in>Name ` set voters. ?g k)"
    using weight_by_key [OF assms(3)] ev(2) by simp
  also have "\<dots> = (\<Sum>x\<in>set voters. ?g (Name x))"
    using inj(1) by (simp add: sum.reindex)
  also have "\<dots> = (\<Sum>x\<in>set voters. if getVote sub (Name x) = Inr vo then unat (Votes x) else 0)"
  proof (rule sum.cong [OF refl])
    fix x assume "x \<in> set voters"
    from ev(3) [OF this] show "?g (Name x) =
        (if getVote sub (Name x) = Inr vo then unat (Votes x) else 0)"
      by (auto simp: getVote_def)
  qed
  finally show ?thesis using inj(2) by (simp add: sum_list_distinct_conv_sum_set)
qed

lemma cast_weight_of:
  assumes "distinct (map Name voters)" and "sub_evolves (newSubtransaction voters thr) sub"
    and "gowf (votersByNode sub)"
  shows "cast_weight v (votersByNode sub) = weight_of voters sub v"
  unfolding weight_of_def by (rule weight_of_voters [OF assms])

lemma open_weight_of:
  assumes "distinct (map Name voters)" and "sub_evolves (newSubtransaction voters thr) sub"
    and "gowf (votersByNode sub)"
  shows "open_weight (votersByNode sub)
    = (\<Sum>x\<leftarrow>voters. if getVote sub (Name x) = Inr None then unat (Votes x) else 0)"
  by (rule weight_of_voters [OF assms])

section \<open>Quorums\<close>

lemma quorum_weight:
  assumes "sub_inv t" and "sub_quorum t v"
  shows "unat (threshold t) \<le> cast_weight v (votersByNode t)"
  using assms by (auto simp: sub_inv_def sub_tally_def sub_quorum_def word_le_nat_alt intro: le_trans)

lemma quorum_unique:
  assumes inv: "sub_inv t" and "sub_quorum t v" and "sub_quorum t w"
  shows "v = w"
proof (rule ccontr)
  assume "v \<noteq> w"
  then have "cast_weight v (votersByNode t) + cast_weight w (votersByNode t)
      \<le> total_weight (votersByNode t)"
    by (intro weight_disj) simp
  with quorum_weight [OF inv assms(2)] quorum_weight [OF inv assms(3)] inv show False
    by (simp add: sub_inv_def sub_wf_def)
qed

lemma committed_quorum:
  assumes "sub_inv t" and "getResult t a = Inr VoteCommitted"
  shows "\<exists>v. getVote t a = Inr (Some v) \<and> sub_quorum t v"
  using assms by (auto simp: getResult_def getVote_def sub_inv_def sub_committed_ok_def
      split: option.splits dest: govals_map_of)

lemma failed_reason:
  assumes "sub_inv t" and "getResult t a = Inr VoteFailed"
  shows "\<exists>v. getVote t a = Inr (Some v) \<and> ((\<exists>w. w \<noteq> v \<and> sub_quorum t w) \<or>
        (\<forall>w. votes_for t w + open_weight (votersByNode t) < unat (threshold t)))"
  using assms by (auto simp: getResult_def getVote_def sub_inv_def sub_failed_ok_def
      split: option.splits dest: govals_map_of)

section \<open>A run with three voters\<close>

text \<open>
  The run the witnesses look at: three voters of one vote each and threshold two; \<open>a\<close> and \<open>b\<close> agree,
  \<open>c\<close> does not.
\<close>

definition wit_voters :: "Voter list" where
  "wit_voters = map (\<lambda>n. \<lparr>Name = n, Votes = 1, voter_vote = None, voter_result = VoteUndecided\<rparr>)
     [''a'', ''b'', ''c'']"

definition wit_tx :: transaction where
  "wit_tx = \<lparr>tx_id = 7, tx_threshold = 2, tx_voters = wit_voters, tx_state = transactionOpen,
     subtransactions = []\<rparr>"

definition wit_start :: "sched list" where
  "wit_start = [Enter ''a'' [1], Enter ''b'' [1], Enter ''c'' [2], Move 0 False, Move 0 False]"

definition wit_end :: "sched list" where
  "wit_end = [Move 1 False, Move 1 False, Move 2 False, Move 2 False,
     Move 0 False, Move 1 False, Move 2 False]"

definition wit_done :: tx_system where
  "wit_done = exec (wit_start @ wit_end) (start_system wit_tx)"

definition wit_sub :: subtransaction where
  "wit_sub = \<lparr>doneCh = True, threshold = 2,
     votersByNode =
       [(''a'', \<lparr>Name = ''a'', Votes = 1, voter_vote = Some [1], voter_result = VoteCommitted\<rparr>),
        (''b'', \<lparr>Name = ''b'', Votes = 1, voter_vote = Some [1], voter_result = VoteCommitted\<rparr>),
        (''c'', \<lparr>Name = ''c'', Votes = 1, voter_vote = Some [2], voter_result = VoteFailed\<rparr>)],
     voteCounts = [([1], 2), ([2], 1)]\<rparr>"

lemma wit_new: "newTransaction 7 wit_voters 2 = Inr wit_tx"
  by (simp add: newTransaction_def wit_voters_def wit_tx_def)

lemma wit_ok: "voters_ok wit_voters"
  by (simp add: voters_ok_def wit_voters_def)

lemma wit_reach: "tx_reachable wit_tx wit_done"
  unfolding wit_done_def by (rule exec_reachable)

lemma wit_done_subs: "subtransactions (sys_tx wit_done) = [wit_sub]"
  by code_simp

text \<open>
  C1. Agreement: whatever the interleaving of votes, cancellations and stops, two nodes that are
  told to commit a session of a transaction have cast the same vote on it.
\<close>

theorem committed_agree:
  assumes "newTransaction tid voters thr = Inr t0" and "voters_ok voters" and "tx_reachable t0 s"
    and "sub \<in> set (subtransactions (sys_tx s))"
    and "getResult sub a = Inr VoteCommitted" and "getResult sub b = Inr VoteCommitted"
  shows "\<exists>v. getVote sub a = Inr (Some v) \<and> getVote sub b = Inr (Some v)"
proof -
  note inv = reachable_sub_inv(1) [OF assms(1-4)]
  from committed_quorum [OF inv assms(5)] committed_quorum [OF inv assms(6)] show ?thesis
    by (auto dest: quorum_unique [OF inv])
qed

theorem committed_agree_witness:
  "\<exists>v. getVote wit_sub ''a'' = Inr (Some v) \<and> getVote wit_sub ''b'' = Inr (Some v)"
  by (rule committed_agree [OF wit_new wit_ok wit_reach])
    (simp_all add: wit_done_subs, simp_all add: wit_sub_def getResult_def)

text \<open>
  C2. Quorum: behind every committed node stand registered voters of at least the threshold's
  weight who have all cast that node's vote.
\<close>

theorem committed_has_quorum:
  assumes "newTransaction tid voters thr = Inr t0" and "voters_ok voters" and "tx_reachable t0 s"
    and "sub \<in> set (subtransactions (sys_tx s))" and "getResult sub a = Inr VoteCommitted"
  shows "\<exists>v. getVote sub a = Inr (Some v) \<and> unat thr \<le> weight_of voters sub v"
proof -
  note inv = reachable_sub_inv [OF assms(1-4)] and d = newTransaction_Inr(3) [OF assms(1)]
  from committed_quorum [OF inv(1) assms(5)] obtain v where v: "getVote sub a = Inr (Some v)" "sub_quorum sub v"
    by blast
  have "cast_weight v (votersByNode sub) = weight_of voters sub v"
    using inv(1) by (intro cast_weight_of [OF d inv(2)]) (simp add: sub_inv_def sub_wf_def)
  with quorum_weight [OF inv(1) v(2)] evolves_voters(1) [OF d inv(2)] v(1) show ?thesis by simp
qed

theorem committed_has_quorum_witness:
  "\<exists>v. getVote wit_sub ''b'' = Inr (Some v) \<and> unat (2::uint) \<le> weight_of wit_voters wit_sub v"
  by (rule committed_has_quorum [OF wit_new wit_ok wit_reach])
    (simp_all add: wit_done_subs, simp_all add: wit_sub_def getResult_def)

text \<open>
  C3. No split: a node that failed a session some other node committed has cast a different vote.
\<close>

theorem failed_voted_otherwise:
  assumes "newTransaction tid voters thr = Inr t0" and "voters_ok voters" and "tx_reachable t0 s"
    and "sub \<in> set (subtransactions (sys_tx s))"
    and "getResult sub a = Inr VoteCommitted" and "getResult sub b = Inr VoteFailed"
  shows "\<exists>v w. getVote sub a = Inr (Some v) \<and> getVote sub b = Inr (Some w) \<and> v \<noteq> w"
proof -
  note inv = reachable_sub_inv(1) [OF assms(1-4)]
  from committed_quorum [OF inv assms(5)] obtain v where v: "getVote sub a = Inr (Some v)" "sub_quorum sub v"
    by blast
  then have "unat (threshold sub) \<le> votes_for sub v" by (simp add: sub_quorum_def word_le_nat_alt)
  then have "\<not> votes_for sub v + open_weight (votersByNode sub) < unat (threshold sub)" by simp
  with failed_reason [OF inv assms(6)] v show ?thesis by (auto dest: quorum_unique [OF inv])
qed

theorem failed_voted_otherwise_witness:
  "\<exists>v w. getVote wit_sub ''a'' = Inr (Some v) \<and> getVote wit_sub ''c'' = Inr (Some w) \<and> v \<noteq> w"
  by (rule failed_voted_otherwise [OF wit_new wit_ok wit_reach])
    (simp_all add: wit_done_subs, simp_all add: wit_sub_def getResult_def)

section \<open>Progress\<close>

text \<open>
  C4. Progress: once every registered voter has cast its vote on a session, the waiting voters are
  signalled and nobody is left undecided.
\<close>

theorem all_voted_decided:
  assumes "newTransaction tid voters thr = Inr t0" and "voters_ok voters" and "tx_reachable t0 s"
    and "sub \<in> set (subtransactions (sys_tx s))" and all: "list_all (\<lambda>x. voted sub (Name x)) voters"
  shows "isDone sub \<and> list_all (\<lambda>x. getResult sub (Name x) \<noteq> Inr VoteUndecided) voters"
proof -
  note inv = reachable_sub_inv [OF assms(1-4)]
  note ev = evolves_voters [OF newTransaction_Inr(3) [OF assms(1)] inv(2)]
  have vote: "voter_vote y \<noteq> None" if "map_of (votersByNode sub) n = Some y" for n y
  proof -
    from that ev(2) obtain x where "x \<in> set voters" "n = Name x" by blast
    with all that show ?thesis by (auto simp: voted_def getVote_def list_all_iff)
  qed
  have "gowf (votersByNode sub)" using inv(1) by (simp add: sub_inv_def sub_wf_def)
  then have "\<forall>y\<in>govals (votersByNode sub). voter_vote y \<noteq> None"
    using vote by (blast intro: gowf_lookup)
  with inv(1) have "doneCh sub" by (simp add: sub_inv_def sub_signal_ok_def)
  moreover have "getResult sub n \<noteq> Inr VoteUndecided" for n
    using voted_done_decided [OF inv(1) \<open>doneCh sub\<close>] vote
    by (auto simp: getResult_def split: option.splits)
  ultimately show ?thesis by (simp add: isDone_def list_all_iff)
qed

theorem all_voted_decided_witness:
  "isDone wit_sub \<and> list_all (\<lambda>x. getResult wit_sub (Name x) \<noteq> Inr VoteUndecided) wit_voters"
  by (rule all_voted_decided [OF wit_new wit_ok wit_reach])
    (simp_all add: wit_done_subs, simp add: wit_sub_def wit_voters_def voted_def getVote_def)

text \<open>
  A waiting call returns once its session is signalled: with no error exactly when its node
  committed, and otherwise with an error other than a panic or an undecided voter.
\<close>

theorem woken_call_returns:
  assumes "newTransaction tid voters thr = Inr t0" and "voters_ok voters" and "tx_reachable t0 s"
    and call: "AtCollect node i \<in> set (sys_calls s)"
    and "isDone (subtransactions (sys_tx s) ! i)"
  shows "\<exists>res. vote_call_step False (sys_tx s) (AtCollect node i) = Some (sys_tx s, Returned node res) \<and>
    clean_result res \<and>
    (res = None \<longleftrightarrow> getResult (subtransactions (sys_tx s) ! i) node = Inr VoteCommitted)"
proof -
  let ?s = "subtransactions (sys_tx s) ! i"
  note inv = reachable_inv [OF assms(1-3)]
  from inv call have i: "i < length (subtransactions (sys_tx s))" "voted ?s node"
    by (auto simp: tx_inv_def list_all_iff)
  have ready: "collectVotes_ready ?s False" using assms(5) by (simp add: isDone_def collectVotes_ready_def)
  have "fst (collectVotes ?s node False) = ?s"
    and "snd (collectVotes ?s node False) = None \<longleftrightarrow> getResult ?s node = Inr VoteCommitted"
    by (auto simp: collectVotes_def getResult_def split: option.splits VoteResult.splits)
  with collectVotes_clean [OF tx_inv_sub_inv [OF inv i(1)] i(2) ready] ready i(1) show ?thesis
    by (auto simp: case_prod_unfold)
qed

definition wit_signalled :: tx_system where
  "wit_signalled = exec (wit_start @ take 4 wit_end) (start_system wit_tx)"

theorem woken_call_returns_witness:
  "\<exists>res. vote_call_step False (sys_tx wit_signalled) (AtCollect ''a'' 0)
       = Some (sys_tx wit_signalled, Returned ''a'' res) \<and> clean_result res \<and>
     (res = None \<longleftrightarrow> getResult (subtransactions (sys_tx wit_signalled) ! 0) ''a'' = Inr VoteCommitted)"
proof (rule woken_call_returns [OF wit_new wit_ok])
  show "tx_reachable wit_tx wit_signalled" unfolding wit_signalled_def by (rule exec_reachable)
  show "AtCollect ''a'' 0 \<in> set (sys_calls wit_signalled)" by code_simp
  show "isDone (subtransactions (sys_tx wit_signalled) ! 0)" by code_simp
qed

section \<open>Order and finality\<close>

text \<open>
  C5. Order: a node has voted on a session only if it has committed every earlier session of the
  transaction.
\<close>

theorem sessions_in_order:
  assumes "newTransaction tid voters thr = Inr t0" and "voters_ok voters" and "tx_reachable t0 s"
    and "k < length (subtransactions (sys_tx s))" and "j < k"
    and "getVote (subtransactions (sys_tx s) ! k) node = Inr (Some v)"
  shows "getResult (subtransactions (sys_tx s) ! j) node = Inr VoteCommitted"
  using reachable_inv [OF assms(1-3)] assms(4-6)
  by (auto simp: tx_inv_def subs_ok_def voted_def committed_upto_def)

definition wit_twice :: tx_system where
  "wit_twice = exec (wit_start @ wit_end @ [Enter ''a'' [3], Move 3 False, Move 3 False])
     (start_system wit_tx)"

theorem sessions_in_order_witness:
  "getResult (subtransactions (sys_tx wit_twice) ! 0) ''a'' = Inr VoteCommitted"
proof (rule sessions_in_order [OF wit_new wit_ok])
  show "tx_reachable wit_tx wit_twice" unfolding wit_twice_def by (rule exec_reachable)
  show "1 < length (subtransactions (sys_tx wit_twice))" by code_simp
  show "(0::nat) < 1" by simp
  show "getVote (subtransactions (sys_tx wit_twice) ! 1) ''a'' = Inr (Some [3])" by code_simp
qed

definition sys_evolves :: "tx_system \<Rightarrow> tx_system \<Rightarrow> bool" where
  "sys_evolves s s' \<longleftrightarrow>
     (\<forall>i<length (subtransactions (sys_tx s)). i < length (subtransactions (sys_tx s')) \<and>
        sub_evolves (subtransactions (sys_tx s) ! i) (subtransactions (sys_tx s') ! i))"

lemma sys_evolves_refl [simp]: "sys_evolves s s"
  by (simp add: sys_evolves_def)

lemma sys_evolves_trans: "sys_evolves s s' \<Longrightarrow> sys_evolves s' s'' \<Longrightarrow> sys_evolves s s''"
  by (meson sys_evolves_def sub_evolves_trans)

lemma sys_evolves_sub:
  assumes "sub_evolves (subtransactions t ! i) sub"
  shows "sys_evolves (s\<lparr>sys_tx := t\<rparr>) (s'\<lparr>sys_tx := set_sub i sub t\<rparr>)"
proof -
  have "sub_evolves (subtransactions t ! k) ((subtransactions t)[i := sub] ! k)"
    if "k < length (subtransactions t)" for k
    using assms that by (cases "k = i") simp_all
  then show ?thesis by (simp add: sys_evolves_def set_sub_def)
qed

lemma call_step_evolves:
  assumes "vote_call_step ctxErr t c = Some (t', c')"
  shows "sys_evolves (s\<lparr>sys_tx := t\<rparr>) (s'\<lparr>sys_tx := t'\<rparr>)"
proof (cases c)
  case (AtJoin node v)
  with assms have "fst (getOrCreateSubtransaction t node) = t'"
    by (auto split: prod.splits sum.splits)
  then show ?thesis
    by (auto simp: sys_evolves_def getOrCreateSubtransaction_def nth_append
        split: transactionState.splits sum.splits if_splits)
next
  case (AtVote node v i)
  with assms vote_evolves [of "subtransactions t ! i" node v] show ?thesis
    by (auto intro!: sys_evolves_sub split: prod.splits option.splits)
next
  case (AtCollect node i)
  with assms collectVotes_evolves [of "subtransactions t ! i" node ctxErr] show ?thesis
    by (auto intro!: sys_evolves_sub split: prod.splits if_splits)
qed (use assms in simp)

lemma tx_step_evolves: "tx_step s s' \<Longrightarrow> tx_inv t0 s \<Longrightarrow> sys_evolves s s'"
proof (induction rule: tx_step.induct)
  case (tx_call k s ctxErr t' c)
  from call_step_evolves [OF tx_call.hyps(2), of s s] show ?case by (simp add: sys_evolves_def)
next
  case (tx_sub i s old new)
  have "gowf (votersByNode old)"
    using tx_inv_sub_inv [OF tx_sub.prems tx_sub.hyps(1)] tx_sub.hyps(2)
    by (simp add: sub_inv_def sub_wf_def)
  with tx_sub.hyps(3) have "sub_evolves old new"
    by (auto intro: cancel_evolves stop_evolves reorder_evolves)
  with tx_sub.hyps(2) show ?case using sys_evolves_sub [of "sys_tx s" i new s s] by simp
qed (simp_all add: sys_evolves_def)

interpretation tx_evolution: stable_fact tx_step "tx_inv t0" sys_evolves for t0
  by unfold_locales (blast intro: sys_evolves_trans tx_step_evolves)

text \<open>
  C6. Finality: a decided result and a cast vote never change, whatever happens afterwards.
\<close>

theorem outcome_final:
  assumes "newTransaction tid voters thr = Inr t0" and "voters_ok voters" and "tx_reachable t0 s"
    and "tx_step\<^sup>*\<^sup>* s s'" and "i < length (subtransactions (sys_tx s))"
  shows "i < length (subtransactions (sys_tx s')) \<and>
    (getResult (subtransactions (sys_tx s) ! i) node = Inr VoteUndecided \<or>
     getResult (subtransactions (sys_tx s') ! i) node = getResult (subtransactions (sys_tx s) ! i) node) \<and>
    (getVote (subtransactions (sys_tx s) ! i) node = Inr None \<or>
     getVote (subtransactions (sys_tx s') ! i) node = getVote (subtransactions (sys_tx s) ! i) node)"
proof -
  have "sys_evolves s s'"
    using tx_evolution.run_fact [OF assms(4) reachable_inv [OF assms(1-3)], of s] by simp
  with assms(5) show ?thesis
    by (auto simp: sys_evolves_def dest: evolves_getResult_eq evolves_getVote_eq)
qed

theorem outcome_final_witness:
  "0 < length (subtransactions (sys_tx wit_twice)) \<and>
    (getResult (subtransactions (sys_tx wit_done) ! 0) ''a'' = Inr VoteUndecided \<or>
     getResult (subtransactions (sys_tx wit_twice) ! 0) ''a''
       = getResult (subtransactions (sys_tx wit_done) ! 0) ''a'') \<and>
    (getVote (subtransactions (sys_tx wit_done) ! 0) ''a'' = Inr None \<or>
     getVote (subtransactions (sys_tx wit_twice) ! 0) ''a''
       = getVote (subtransactions (sys_tx wit_done) ! 0) ''a'')"
proof (rule outcome_final [OF wit_new wit_ok wit_reach])
  show "tx_step\<^sup>*\<^sup>* wit_done wit_twice"
    unfolding wit_done_def wit_twice_def append_assoc [symmetric]
    unfolding exec_append [of "wit_start @ wit_end"] by (rule exec_reachable)
  show "0 < length (subtransactions (sys_tx wit_done))" by code_simp
qed

text \<open>
  C7. No call of \<open>vote\<close> ends in a nil dereference, and none is told that its voter is still
  undecided after it was woken up.
\<close>

theorem no_call_panics:
  assumes "newTransaction tid voters thr = Inr t0" and "voters_ok voters" and "tx_reachable t0 s"
    and "Returned node (Some e) \<in> set (sys_calls s)"
  shows "\<not> errors_Is e PanicNilDereference \<and> \<not> errors_Is e (ErrVoterUndecided n)"
  using reachable_inv [OF assms(1-3)] assms(4)
  by (auto simp: tx_inv_def list_all_iff clean_result_def)

theorem no_call_panics_witness:
  "\<not> errors_Is (Wrap ''got too few votes'' ErrTransactionFailed) PanicNilDereference \<and>
   \<not> errors_Is (Wrap ''got too few votes'' ErrTransactionFailed) (ErrVoterUndecided ''c'')"
proof (rule no_call_panics [OF wit_new wit_ok wit_reach])
  show "Returned ''c'' (Some (Wrap ''got too few votes'' ErrTransactionFailed)) \<in> set (sys_calls wit_done)"
    by code_simp
qed

section \<open>Why a vote fails\<close>

text \<open>
  C8. A node fails a session only when its vote can no longer win: another vote has the threshold
  already, or no vote can reach it even if all voters that have not voted yet voted for it.
\<close>

theorem failure_is_justified:
  assumes "newTransaction tid voters thr = Inr t0" and "voters_ok voters" and "tx_reachable t0 s"
    and "sub \<in> set (subtransactions (sys_tx s))" and "getResult sub a = Inr VoteFailed"
  shows "\<exists>v. getVote sub a = Inr (Some v) \<and>
    ((\<exists>w. w \<noteq> v \<and> unat thr \<le> weight_of voters sub w) \<or>
     (\<forall>w. unat (getz (voteCounts sub) w) +
        (\<Sum>x\<leftarrow>voters. if getVote sub (Name x) = Inr None then unat (Votes x) else 0) < unat thr))"
proof -
  note inv = reachable_sub_inv [OF assms(1-4)] and d = newTransaction_Inr(3) [OF assms(1)]
  have wf: "gowf (votersByNode sub)" using inv(1) by (simp add: sub_inv_def sub_wf_def)
  from failed_reason [OF inv(1) assms(5)] show ?thesis
    using quorum_weight [OF inv(1)] cast_weight_of [OF d inv(2) wf] open_weight_of [OF d inv(2) wf]
      evolves_voters(1) [OF d inv(2)] by auto
qed

theorem failure_is_justified_witness:
  "\<exists>v. getVote wit_sub ''c'' = Inr (Some v) \<and>
    ((\<exists>w. w \<noteq> v \<and> unat (2::uint) \<le> weight_of wit_voters wit_sub w) \<or>
     (\<forall>w. unat (getz (voteCounts wit_sub) w) +
        (\<Sum>x\<leftarrow>wit_voters. if getVote wit_sub (Name x) = Inr None then unat (Votes x) else 0)
          < unat (2::uint)))"
  by (rule failure_is_justified [OF wit_new wit_ok wit_reach])
    (simp_all add: wit_done_subs, simp_all add: wit_sub_def getResult_def)

section \<open>Accepted thresholds\<close>

text \<open>
  \<open>newTransaction\<close> accepts exactly non-empty lists of distinct voters with a threshold above
  half of all votes, at most all of them, and below half the range of a 64-bit integer: its
  wrapping arithmetic lets no other threshold pass.
\<close>

theorem newTransaction_accepts:
  assumes "voters_ok voters"
  shows "(\<exists>t. newTransaction tid voters thr = Inr t) \<longleftrightarrow>
     voters \<noteq> [] \<and> distinct (map Name voters) \<and>
     unat thr \<le> (\<Sum>x\<leftarrow>voters. unat (Votes x)) \<and> (\<Sum>x\<leftarrow>voters. unat (Votes x)) < 2 * unat thr \<and>
     unat thr < 2 ^ 63"
proof -
  let ?sum = "sum_list (map Votes voters)" 
  have "(\<exists>t. newTransaction tid voters thr = Inr t) \<longleftrightarrow>
      voters \<noteq> [] \<and> distinct (map Name voters) \<and> thr \<le> ?sum \<and> ?sum < thr * 2"
    by (auto simp: newTransaction_def sum_voters_eq not_less not_le)
  moreover have "thr \<le> ?sum \<and> ?sum < thr * 2 \<longleftrightarrow>
      unat thr \<le> unat ?sum \<and> unat ?sum < 2 * unat thr \<and> unat thr < 2 ^ 63"
    by (rule double_threshold)
  ultimately show ?thesis unfolding unat_Votes_sum [OF assms] by simp
qed

theorem newTransaction_accepts_witness:
  "(\<exists>t. newTransaction 7 wit_voters 2 = Inr t) \<longleftrightarrow>
     wit_voters \<noteq> [] \<and> distinct (map Name wit_voters) \<and>
     unat (2::uint) \<le> (\<Sum>x\<leftarrow>wit_voters. unat (Votes x)) \<and>
     (\<Sum>x\<leftarrow>wit_voters. unat (Votes x)) < 2 * unat (2::uint) \<and> unat (2::uint) < 2 ^ 63"
  by (rule newTransaction_accepts [OF wit_ok])

end
