(* ===== verification/Transaction_Manager.thy ===== *)
theory Transaction_Manager
  imports Transaction_Props
begin

text \<open>
  The transaction manager and its RPC front end:
  \<open>internal/praefect/transactions/manager.go\<close> and \<open>internal/praefect/service/transaction/server.go\<close>.

  A \<open>*transaction\<close> is the index of its object in \<open>heap\<close>; an object stays there when the manager
  forgets about it, as the closures and the calls that hold the pointer keep it alive. Next to the
  transaction, an object of the heap holds the calls of \<open>vote\<close> that are in progress on it. Logging
  and metrics change nothing the code reads back; the label that \<open>VoteTransaction\<close> counts under is
  kept as \<open>vote_label\<close>.
\<close>

section \<open>The manager\<close>

record Manager =
  idSequence :: uint
  transactions :: "(uint, nat) gomap"
  heap :: "tx_system list"

definition NewManager :: Manager where
  "NewManager = \<lparr>idSequence = 0, transactions = [], heap = []\<rparr>"

definition RegisterTransaction :: "Manager \<Rightarrow> Voter list \<Rightarrow> uint \<Rightarrow> Manager \<times> (tx_error + nat)" where
  "RegisterTransaction mgr voters thr =
     (let transactionID = idSequence mgr + 1; mgr = mgr\<lparr>idSequence := transactionID\<rparr> in
      case newTransaction transactionID voters thr of
        Inl err \<Rightarrow> (mgr, Inl err)
      | Inr t \<Rightarrow>
          (if map_of (transactions mgr) transactionID \<noteq> None then (mgr, Inl ErrTransactionExists)
           else (mgr\<lparr>transactions := AList.update transactionID (length (heap mgr)) (transactions mgr),
                     heap := heap mgr @ [start_system t]\<rparr>, Inr (length (heap mgr)))))"

definition set_tx :: "nat \<Rightarrow> transaction \<Rightarrow> Manager \<Rightarrow> Manager" where
  "set_tx a t mgr = mgr\<lparr>heap := (heap mgr)[a := (heap mgr ! a)\<lparr>sys_tx := t\<rparr>]\<rparr>"

text \<open>\<open>cancelTransaction\<close> with the number of committed voters and of voters it logs.\<close>

definition cancelTransaction :: "Manager \<Rightarrow> nat \<Rightarrow> Manager \<times> nat \<times> nat" where
  "cancelTransaction mgr a =
     (let t = sys_tx (heap mgr ! a);
          mgr = mgr\<lparr>transactions := AList.delete (tx_id t) (transactions mgr)\<rparr>;
          t = tx_cancel t;
          state = State t
      in (set_tx a t mgr, length (filter (\<lambda>(node, result). result = VoteCommitted) state),
          length state))"

text \<open>\<open>voteTransaction\<close> up to the call of \<open>transaction.vote\<close>, which then moves on by itself.\<close>

definition voteTransaction :: "Manager \<Rightarrow> uint \<Rightarrow> string \<Rightarrow> Vote \<Rightarrow> Manager \<times> tx_error option" where
  "voteTransaction mgr transactionID node v =
     (case map_of (transactions mgr) transactionID of
        None \<Rightarrow> (mgr, Some (Wrap ''%w: %d'' ErrNotFound))
      | Some a \<Rightarrow>
          (mgr\<lparr>heap := (heap mgr)[a := (heap mgr ! a)\<lparr>sys_calls :=
             sys_calls (heap mgr ! a) @ [AtJoin node v]\<rparr>]\<rparr>, None))"

text \<open>The label \<open>VoteTransaction\<close> counts the outcome of a call under.\<close>

datatype vote_label = Stopped | Failed | Canceled | Invalid | Committed

definition VoteTransaction_label :: "tx_error option \<Rightarrow> vote_label" where
  "VoteTransaction_label res =
     (case res of
        None \<Rightarrow> Committed
      | Some err \<Rightarrow>
          (if errors_Is err ErrTransactionStopped then Stopped
           else if errors_Is err ErrTransactionFailed then Failed
           else if errors_Is err ErrTransactionCanceled then Canceled
           else Invalid))"

definition StopTransaction :: "Manager \<Rightarrow> uint \<Rightarrow> Manager \<times> tx_error option" where
  "StopTransaction mgr transactionID =
     (case map_of (transactions mgr) transactionID of
        None \<Rightarrow> (mgr, Some (Wrap ''%w: %d'' ErrNotFound))
      | Some a \<Rightarrow>
          (let (t, err) = tx_stop (sys_tx (heap mgr ! a)) in (set_tx a t mgr, err)))"

section \<open>The RPC server\<close>

datatype rpc_error = InvalidArgument | NotFound | RpcCanceled | Internal

datatype vote_state = COMMIT | ABORT | STOP

text \<open>
  The handler of \<open>VoteTransaction\<close>; \<open>mgrVote\<close> is what the manager's \<open>VoteTransaction\<close> returns for
  the parsed vote.
\<close>

definition server_VoteTransaction ::
  "byte list \<Rightarrow> (Vote \<Rightarrow> tx_error option) \<Rightarrow> rpc_error + vote_state" where
  "server_VoteTransaction hash mgrVote =
     (case VoteFromHash hash of
        Inl _ \<Rightarrow> Inl InvalidArgument
      | Inr v \<Rightarrow>
          (case mgrVote v of
             Some err \<Rightarrow>
               (if errors_Is err ErrNotFound then Inl NotFound
                else if errors_Is err ErrTransactionCanceled then Inl RpcCanceled
                else if errors_Is err ErrTransactionStopped then Inr STOP
                else if errors_Is err ErrTransactionFailed then Inr ABORT
                else Inl Internal)
           | None \<Rightarrow> Inr COMMIT))"

definition server_StopTransaction :: "Manager \<Rightarrow> uint \<Rightarrow> Manager \<times> (rpc_error + unit)" where
  "server_StopTransaction mgr transactionID =
     (let (mgr, res) = StopTransaction mgr transactionID in
      (mgr, case res of
        Some err \<Rightarrow>
          (if errors_Is err ErrNotFound then Inl NotFound
           else if errors_Is err ErrTransactionCanceled then Inl RpcCanceled
           else if errors_Is err ErrTransactionStopped then Inr ()
           else Inl Internal)
      | None \<Rightarrow> Inr ()))"

section \<open>Runs of the manager\<close>

text \<open>
  \<open>cancelTransaction\<close> is split into forgetting the transaction and the steps of cancelling it, so
  that votes in progress may come in between.
\<close>

inductive mgr_step :: "Manager \<Rightarrow> Manager \<Rightarrow> bool" where
  mgr_register: "voters_ok voters \<Longrightarrow> mgr_step mgr (fst (RegisterTransaction mgr voters thr))"
| mgr_vote: "mgr_step mgr (fst (voteTransaction mgr tid node v))"
| mgr_forget: "mgr_step mgr (mgr\<lparr>transactions := AList.delete tid (transactions mgr)\<rparr>)"
| mgr_tx: "a < length (heap mgr) \<Longrightarrow> tx_step (heap mgr ! a) s \<Longrightarrow>
     mgr_step mgr (mgr\<lparr>heap := (heap mgr)[a := s]\<rparr>)"

inductive_cases mgr_stepE: "mgr_step mgr mgr'"

abbreviation mgr_reachable :: "Manager \<Rightarrow> bool" where
  "mgr_reachable mgr \<equiv> mgr_step\<^sup>*\<^sup>* NewManager mgr"

section \<open>Cancelling and stopping are runs\<close>

lemma tx_sub_steps:
  assumes "list_all2 (\<lambda>old new. new = cancel old \<or> new = fst (stop old) \<or> new = old)
    (drop i (subtransactions (sys_tx s))) news"
  shows "tx_step\<^sup>*\<^sup>* s (s\<lparr>sys_tx := (sys_tx s)\<lparr>subtransactions :=
    take i (subtransactions (sys_tx s)) @ news\<rparr>\<rparr>)"
  using assms
proof (induction news arbitrary: i s rule: list.induct)
  case (Nil i s)
  then have "take i (subtransactions (sys_tx s)) = subtransactions (sys_tx s)" by simp
  then show ?case by simp
next
  case (Cons new news)
  let ?subs = "subtransactions (sys_tx s)"
  from Cons.prems have i: "i < length ?subs" by (auto dest: list_all2_lengthD)
  then have drop: "drop i ?subs = ?subs ! i # drop (Suc i) ?subs" by (simp add: Cons_nth_drop_Suc)
  let ?s = "s\<lparr>sys_tx := set_sub i new (sys_tx s)\<rparr>"
  from Cons.prems drop have new: "new = cancel (?subs ! i) \<or> new = fst (stop (?subs ! i)) \<or> new = ?subs ! i"
    and rest: "list_all2 (\<lambda>old new. new = cancel old \<or> new = fst (stop old) \<or> new = old)
      (drop (Suc i) ?subs) news" by auto
  have "tx_step\<^sup>*\<^sup>* s ?s"
  proof (cases "new = ?subs ! i")
    case False
    with new show ?thesis by (intro r_into_rtranclp tx_sub [OF i refl]) blast
  qed (simp add: i)
  also have "tx_step\<^sup>*\<^sup>* ?s (?s\<lparr>sys_tx := (sys_tx ?s)\<lparr>subtransactions :=
      take (Suc i) (subtransactions (sys_tx ?s)) @ news\<rparr>\<rparr>)"
    using rest by (intro Cons.IH) (simp add: set_sub_def)
  finally show ?case using i by (simp add: set_sub_def take_Suc_conv_app_nth)
qed

lemma stop_subtransactions_all2:
  "list_all2 (\<lambda>old new. new = cancel old \<or> new = fst (stop old) \<or> new = old) subs
     (fst (stop_subtransactions subs))"
  by (induction subs) (auto split: prod.splits option.splits intro: list_all2_refl)

lemma tx_cancel_run: "tx_step\<^sup>*\<^sup>* s (s\<lparr>sys_tx := tx_cancel (sys_tx s)\<rparr>)"
proof -
  let ?s = "s\<lparr>sys_tx := (sys_tx s)\<lparr>subtransactions := map cancel (subtransactions (sys_tx s))\<rparr>\<rparr>"
  have "tx_step\<^sup>*\<^sup>* s ?s"
    using tx_sub_steps [of 0 s "map cancel (subtransactions (sys_tx s))"]
    by (simp add: list_all2_conv_all_nth)
  moreover have "tx_step ?s (?s\<lparr>sys_tx := (sys_tx ?s)\<lparr>tx_state := transactionCanceled\<rparr>\<rparr>)"
    by (rule tx_end) simp
  ultimately show ?thesis by (simp add: tx_cancel_def)
qed

lemma tx_stop_run: "tx_step\<^sup>*\<^sup>* s (s\<lparr>sys_tx := fst (tx_stop (sys_tx s))\<rparr>)"
proof -
  let ?subs = "fst (stop_subtransactions (subtransactions (sys_tx s)))"
  let ?s = "s\<lparr>sys_tx := (sys_tx s)\<lparr>subtransactions := ?subs\<rparr>\<rparr>"
  have run: "tx_step\<^sup>*\<^sup>* s ?s"
    using tx_sub_steps [of 0 s ?subs] stop_subtransactions_all2 by simp
  moreover have "tx_step ?s (?s\<lparr>sys_tx := (sys_tx ?s)\<lparr>tx_state := transactionStopped\<rparr>\<rparr>)"
    by (rule tx_end) simp
  ultimately have "tx_step\<^sup>*\<^sup>* s (?s\<lparr>sys_tx := (sys_tx ?s)\<lparr>tx_state := transactionStopped\<rparr>\<rparr>)"
    by (rule rtranclp.rtrancl_into_rtrancl)
  with run show ?thesis by (simp add: tx_stop_def case_prod_unfold split: option.split)
qed

end
