(* ===== verification/Transaction_Manager_Props.thy ===== *)
theory Transaction_Manager_Props
  imports Transaction_Manager
begin

text \<open>
  What the manager and the RPC server guarantee: every registered transaction is a run of the
  voting protocol, identifiers are not shared, cancelled transactions are gone and decided,
  stopping is repeatable, and the reply of the RPC is the outcome of the vote.
\<close>

section \<open>The invariant of the manager\<close>

lemma tx_step_id: "tx_step s s' \<Longrightarrow> tx_id (sys_tx s') = tx_id (sys_tx s)"
proof (induction rule: tx_step.induct)
  case (tx_call k s ctxErr t' c)
  have "getOrCreateSubtransaction t node = (t', r) \<Longrightarrow> tx_id t' = tx_id t" for t node r
    by (auto simp: getOrCreateSubtransaction_def split: transactionState.splits sum.splits if_splits)
  then have "vote_call_step ctxErr t c0 = Some (t', c) \<Longrightarrow> tx_id t' = tx_id t" for t c0
    by (cases c0) (auto simp: set_sub_def split: prod.splits sum.splits option.splits if_splits)
  with tx_call show ?case by simp
qed (simp_all add: set_sub_def)

interpretation id_run: step_invariant tx_step "\<lambda>s. tx_id (sys_tx s) = n" for n
  by unfold_locales (simp add: tx_step_id)

definition legit :: "tx_system \<Rightarrow> bool" where
  "legit s \<longleftrightarrow> (\<exists>voters thr t0. newTransaction (tx_id (sys_tx s)) voters thr = Inr t0 \<and>
     voters_ok voters \<and> tx_reachable t0 s)"

lemma legit_step:
  assumes "legit s" and "tx_step s s'"
  shows "legit s'"
  using assms tx_step_id [OF assms(2)] unfolding legit_def
  by (metis rtranclp.rtrancl_into_rtrancl)

definition mgr_inv :: "Manager \<Rightarrow> bool" where
  "mgr_inv mgr \<longleftrightarrow> gowf (transactions mgr) \<and>
     (\<forall>tid a. map_of (transactions mgr) tid = Some a \<longrightarrow>
        a < length (heap mgr) \<and> tx_id (sys_tx (heap mgr ! a)) = tid) \<and>
     (\<forall>a<length (heap mgr). legit (heap mgr ! a))"

lemma start_legit:
  assumes "newTransaction tid voters thr = Inr t" and "voters_ok voters"
  shows "legit (start_system t)"
proof -
  have "tx_id (sys_tx (start_system t)) = tid"
    using newTransaction_Inr(1) [OF assms(1)] by (simp add: start_system_def)
  with assms show ?thesis unfolding legit_def by (metis rtranclp.rtrancl_refl)
qed

lemma register_inv:
  assumes "mgr_inv mgr" and ok: "voters_ok voters"
  shows "mgr_inv (fst (RegisterTransaction mgr voters thr))"
proof (cases "newTransaction (idSequence mgr + 1) voters thr")
  case (Inr t)
  have "tx_id t = idSequence mgr + 1" using newTransaction_Inr(1) [OF Inr] by simp
  with assms start_legit [OF Inr ok] Inr show ?thesis
    by (auto simp: RegisterTransaction_def Let_def mgr_inv_def gowf_update map_of_update nth_append
        start_system_def less_Suc_eq split: if_splits)
qed (use assms in \<open>simp add: RegisterTransaction_def Let_def mgr_inv_def\<close>)

lemma heap_step_inv:
  assumes "mgr_inv mgr" and "a < length (heap mgr)" and "tx_step (heap mgr ! a) s"
  shows "mgr_inv (mgr\<lparr>heap := (heap mgr)[a := s]\<rparr>)"
  using assms legit_step [OF _ assms(3)] tx_step_id [OF assms(3)]
  by (auto simp: mgr_inv_def nth_list_update)

lemma voteTransaction_inv:
  assumes "mgr_inv mgr"
  shows "mgr_inv (fst (voteTransaction mgr tid node v))"
proof (cases "map_of (transactions mgr) tid")
  case (Some a)
  with assms have "a < length (heap mgr)" by (simp add: mgr_inv_def)
  from heap_step_inv [OF assms this tx_enter] Some show ?thesis by (simp add: voteTransaction_def)
qed (use assms in \<open>simp add: voteTransaction_def\<close>)

lemma mgr_step_inv: "mgr_step mgr mgr' \<Longrightarrow> mgr_inv mgr \<Longrightarrow> mgr_inv mgr'"
proof (induction rule: mgr_step.induct)
  case (mgr_forget mgr tid)
  then show ?case by (auto simp: mgr_inv_def gowf_def distinct_delete delete_conv split: if_splits)
qed (auto intro: register_inv voteTransaction_inv heap_step_inv)

interpretation mgr_run: step_invariant mgr_step mgr_inv
  by unfold_locales (rule mgr_step_inv)

lemma NewManager_inv: "mgr_inv NewManager"
  by (simp add: mgr_inv_def NewManager_def gowf_def)

lemmas mgr_reachable_inv = mgr_run.run_inv [OF _ NewManager_inv]

text \<open>A manager with one registered transaction, for the witnesses.\<close>

definition wit_mgr :: Manager where
  "wit_mgr = fst (RegisterTransaction NewManager wit_voters 2)"

lemma wit_mgr_reachable: "mgr_reachable wit_mgr"
  unfolding wit_mgr_def by (rule r_into_rtranclp, rule mgr_register, rule wit_ok)

text \<open>
  In every reachable state of the manager, a registered identifier leads to the transaction of
  that identifier, and that transaction is in a state that a run of the voting protocol leads to
  from what \<open>newTransaction\<close> accepted.
\<close>

theorem registered_is_run:
  assumes "mgr_reachable mgr" and "map_of (transactions mgr) tid = Some a"
  shows "a < length (heap mgr) \<and> tx_id (sys_tx (heap mgr ! a)) = tid \<and>
    (\<exists>voters thr t0. newTransaction tid voters thr = Inr t0 \<and> voters_ok voters \<and>
       tx_reachable t0 (heap mgr ! a))"
proof -
  from mgr_reachable_inv [OF assms(1)] assms(2)
  have "a < length (heap mgr)" "tx_id (sys_tx (heap mgr ! a)) = tid" "legit (heap mgr ! a)"
    by (simp_all add: mgr_inv_def)
  then show ?thesis by (simp add: legit_def)
qed

theorem registered_is_run_witness:
  "0 < length (heap wit_mgr) \<and> tx_id (sys_tx (heap wit_mgr ! 0)) = 1 \<and>
    (\<exists>voters thr t0. newTransaction 1 voters thr = Inr t0 \<and> voters_ok voters \<and>
       tx_reachable t0 (heap wit_mgr ! 0))"
proof (rule registered_is_run [OF wit_mgr_reachable])
  show "map_of (transactions wit_mgr) 1 = Some 0" by code_simp
qed

text \<open>
  A successful registration uses an identifier that no registered transaction has, makes it
  lead to a new object, and changes neither the other identifiers nor the existing objects.
\<close>

theorem register_is_fresh:
  assumes "RegisterTransaction mgr voters thr = (mgr', Inr a)"
  shows "map_of (transactions mgr) (idSequence mgr') = None \<and>
    map_of (transactions mgr') = (map_of (transactions mgr))(idSequence mgr' \<mapsto> a) \<and>
    a = length (heap mgr) \<and> heap mgr' = heap mgr @ [heap mgr' ! a] \<and>
    newTransaction (idSequence mgr') voters thr = Inr (sys_tx (heap mgr' ! a)) \<and>
    sys_calls (heap mgr' ! a) = []"
  using assms by (auto simp: RegisterTransaction_def Let_def update_conv' start_system_def
      split: sum.splits if_splits)

theorem register_is_fresh_witness:
  "map_of (transactions NewManager) (idSequence wit_mgr) = None \<and>
    map_of (transactions wit_mgr) = (map_of (transactions NewManager))(idSequence wit_mgr \<mapsto> 0) \<and>
    0 = length (heap NewManager) \<and> heap wit_mgr = heap NewManager @ [heap wit_mgr ! 0] \<and>
    newTransaction (idSequence wit_mgr) wit_voters 2 = Inr (sys_tx (heap wit_mgr ! 0)) \<and>
    sys_calls (heap wit_mgr ! 0) = []"
proof (rule register_is_fresh)
  have "snd (RegisterTransaction NewManager wit_voters 2) = Inr 0" by code_simp
  then show "RegisterTransaction NewManager wit_voters 2 = (wit_mgr, Inr 0)"
    unfolding wit_mgr_def by (metis prod.collapse)
qed

section \<open>Cancelling\<close>

lemma fold_update_values:
  assumes "\<forall>x\<in>govals m. P x" and "\<forall>p\<in>set ps. P (g p)"
  shows "\<forall>x\<in>govals (fold (\<lambda>p m. AList.update (f p) (g p) m) ps m). P x"
  using assms
proof (induction ps arbitrary: m)
  case (Cons p ps)
  have "\<forall>x\<in>govals (AList.update (f p) (g p) m). P x"
    using Cons.prems by (induction m) auto
  with Cons show ?case by simp
qed simp

lemma State_cancel: "\<forall>r\<in>govals (State (tx_cancel t)). r \<noteq> VoteUndecided"
proof (cases "subtransactions t = []")
  case True
  then show ?thesis
    unfolding State_def by (simp add: tx_cancel_def) (intro fold_update_values; simp)
next
  case False
  then have "\<forall>p\<in>set (sub_state (last (subtransactions (tx_cancel t)))). snd p \<noteq> VoteUndecided"
    by (auto simp: tx_cancel_def last_map sub_state_def cancel_def split: if_splits)
  then have "\<forall>r\<in>govals (fold (\<lambda>p results. AList.update (fst p) (snd p) results)
      (sub_state (last (subtransactions (tx_cancel t)))) []). r \<noteq> VoteUndecided"
    by (intro fold_update_values) simp_all
  moreover have "subtransactions (tx_cancel t) \<noteq> []" using False by (simp add: tx_cancel_def)
  ultimately show ?thesis by (simp add: State_def case_prod_unfold)
qed

lemma cancelTransaction_run:
  assumes "a < length (heap mgr)"
  shows "mgr_step\<^sup>*\<^sup>* mgr (fst (cancelTransaction mgr a))"
proof -
  let ?m = "mgr\<lparr>transactions := AList.delete (tx_id (sys_tx (heap mgr ! a))) (transactions mgr)\<rparr>"
  have "mgr_step\<^sup>*\<^sup>* ?m (?m\<lparr>heap := (heap ?m)[a := s]\<rparr>)" if "tx_step\<^sup>*\<^sup>* (heap ?m ! a) s" for s
    using that
  proof (induction rule: rtranclp_induct)
    case (step s s')
    have "mgr_step (?m\<lparr>heap := (heap ?m)[a := s]\<rparr>) (?m\<lparr>heap := (heap ?m)[a := s']\<rparr>)"
      using mgr_tx [of a "?m\<lparr>heap := (heap ?m)[a := s]\<rparr>" s'] step.hyps(2) assms by simp
    with step.IH show ?case by (rule rtranclp.rtrancl_into_rtrancl)
  qed simp
  from this [OF tx_cancel_run] have "mgr_step\<^sup>*\<^sup>* ?m (fst (cancelTransaction mgr a))"
    by (simp add: cancelTransaction_def Let_def set_tx_def)
  moreover have "mgr_step mgr ?m" by (rule mgr_forget)
  ultimately show ?thesis by (simp add: converse_rtranclp_into_rtranclp)
qed

text \<open>
  Cancelling a transaction is a run of the manager after which its identifier is unknown to
  votes and stops, other identifiers lead where they led, every one of its sessions is signalled,
  no voter is left undecided, and a call that tries to join a session is told it was cancelled.
\<close>

theorem cancelled_is_gone:
  assumes "mgr_reachable mgr" and "map_of (transactions mgr) tid = Some a"
    and "mgr' = fst (cancelTransaction mgr a)"
  shows "mgr_reachable mgr' \<and>
    snd (voteTransaction mgr' tid node v) = Some (Wrap ''%w: %d'' ErrNotFound) \<and>
    snd (StopTransaction mgr' tid) = Some (Wrap ''%w: %d'' ErrNotFound) \<and>
    map_of (transactions mgr') = (map_of (transactions mgr))(tid := None) \<and>
    list_all isDone (subtransactions (sys_tx (heap mgr' ! a))) \<and>
    VoteUndecided \<notin> govals (State (sys_tx (heap mgr' ! a))) \<and>
    snd (getOrCreateSubtransaction (sys_tx (heap mgr' ! a)) node) = Inl ErrTransactionCanceled"
proof -
  from mgr_reachable_inv [OF assms(1)] assms(2)
  have a: "a < length (heap mgr)" "tx_id (sys_tx (heap mgr ! a)) = tid" by (simp_all add: mgr_inv_def)
  have tx: "sys_tx (heap mgr' ! a) = tx_cancel (sys_tx (heap mgr ! a))"
    and map: "transactions mgr' = AList.delete tid (transactions mgr)"
    using a assms(3) by (simp_all add: cancelTransaction_def set_tx_def Let_def)
  have "mgr_reachable mgr'"
    unfolding assms(3) by (rule rtranclp_trans [OF assms(1) cancelTransaction_run [OF a(1)]])
  moreover have "VoteUndecided \<notin> govals (State (sys_tx (heap mgr' ! a)))"
    using State_cancel tx by auto
  ultimately show ?thesis
    by (simp add: tx map voteTransaction_def StopTransaction_def delete_conv' tx_cancel_def
        list_all_iff isDone_def cancel_def getOrCreateSubtransaction_def)
qed

theorem cancelled_is_gone_witness:
  "mgr_reachable (fst (cancelTransaction wit_mgr 0)) \<and>
    snd (voteTransaction (fst (cancelTransaction wit_mgr 0)) 1 ''a'' []) = Some (Wrap ''%w: %d'' ErrNotFound) \<and>
    snd (StopTransaction (fst (cancelTransaction wit_mgr 0)) 1) = Some (Wrap ''%w: %d'' ErrNotFound) \<and>
    map_of (transactions (fst (cancelTransaction wit_mgr 0))) = (map_of (transactions wit_mgr))(1 := None) \<and>
    list_all isDone (subtransactions (sys_tx (heap (fst (cancelTransaction wit_mgr 0)) ! 0))) \<and>
    VoteUndecided \<notin> govals (State (sys_tx (heap (fst (cancelTransaction wit_mgr 0)) ! 0))) \<and>
    snd (getOrCreateSubtransaction (sys_tx (heap (fst (cancelTransaction wit_mgr 0)) ! 0)) ''a'')
      = Inl ErrTransactionCanceled"
proof (rule cancelled_is_gone [OF wit_mgr_reachable _ refl])
  show "map_of (transactions wit_mgr) 1 = Some 0" by code_simp
qed

section \<open>Stopping\<close>

definition settled :: "VoteResult \<Rightarrow> bool" where
  "settled r \<longleftrightarrow> r \<in> {VoteCommitted, VoteFailed, VoteStopped}"

lemma stop_voters_settles:
  "snd (stop_voters m) = None \<Longrightarrow> \<forall>x\<in>govals (fst (stop_voters m)). settled (voter_result x)"
  by (induction m rule: stop_voters.induct)
    (auto simp: settled_def split: VoteResult.splits prod.splits)

lemma stop_voters_settled:
  "\<forall>x\<in>govals m. settled (voter_result x) \<Longrightarrow> snd (stop_voters m) \<in> {None, Some ErrTransactionStopped}"
  by (induction m rule: stop_voters.induct)
    (auto simp: settled_def split: VoteResult.splits prod.splits)

lemma stop_subtransactions_again:
  assumes "stop_subtransactions subs = (subs', None)"
  shows "snd (stop_subtransactions subs') \<in> {None, Some ErrTransactionStopped}"
  using assms
proof (induction subs arbitrary: subs')
  case (Cons s subs)
  from Cons.prems obtain s' rest where s: "stop s = (s', None)" and subs': "subs' = s' # rest"
    and rest: "stop_subtransactions subs = (rest, None)"
    by (auto split: prod.splits option.splits)
  have "snd (stop_voters (votersByNode s)) = None" "votersByNode s' = fst (stop_voters (votersByNode s))"
    using s by (auto simp: stop_def Let_def case_prod_unfold split: option.splits)
  then have "\<forall>x\<in>govals (votersByNode s'). settled (voter_result x)"
    using stop_voters_settles [of "votersByNode s"] by simp
  from stop_voters_settled [OF this] Cons.IH [OF rest] show ?case
    by (auto simp: subs' stop_def Let_def case_prod_unfold split: option.splits)
qed auto

text \<open>
  Stopping is repeatable: after a stop that succeeded, the RPC that stops the same transaction
  succeeds again.
\<close>

theorem stop_is_repeatable:
  assumes "mgr_reachable mgr" and "StopTransaction mgr tid = (mgr', None)"
  shows "snd (server_StopTransaction mgr' tid) = Inr ()"
proof -
  from assms(2) obtain a where tid: "map_of (transactions mgr) tid = Some a"
    by (auto simp: StopTransaction_def split: option.splits)
  let ?t = "sys_tx (heap mgr ! a)"
  have a: "a < length (heap mgr)" using mgr_reachable_inv [OF assms(1)] tid by (simp add: mgr_inv_def)
  from assms(2) tid obtain t' where t': "tx_stop ?t = (t', None)" and mgr': "mgr' = set_tx a t' mgr"
    by (auto simp: StopTransaction_def split: prod.splits)
  then have "stop_subtransactions (subtransactions ?t) = (subtransactions t', None)"
    by (auto simp: tx_stop_def split: prod.splits option.splits)
  from stop_subtransactions_again [OF this] have "snd (tx_stop t') \<in> {None, Some ErrTransactionStopped}"
    by (auto simp: tx_stop_def split: prod.splits option.splits)
  with tid a mgr' show ?thesis
    by (auto simp: server_StopTransaction_def StopTransaction_def set_tx_def case_prod_unfold Let_def)
qed

theorem stop_is_repeatable_witness:
  "snd (server_StopTransaction (fst (StopTransaction wit_mgr 1)) 1) = Inr ()"
proof (rule stop_is_repeatable [OF wit_mgr_reachable])
  have "snd (StopTransaction wit_mgr 1) = None" by code_simp
  then show "StopTransaction wit_mgr 1 = (fst (StopTransaction wit_mgr 1), None)"
    by (metis prod.collapse)
qed

text \<open>
  The reply of the \<open>VoteTransaction\<close> RPC to a voter that was woken up is the outcome of its
  vote: commit, abort or stop for a voter that committed, failed or was stopped, and a cancelled
  call for a voter that was cancelled.
\<close>

theorem reply_is_outcome:
  assumes "newTransaction tid voters thr = Inr t0" and "voters_ok voters" and "tx_reachable t0 s"
    and "AtCollect node i \<in> set (sys_calls s)" and "length hash = voteSize"
    and "vote_call_step False (sys_tx s) (AtCollect node i) = Some (t', Returned node res)"
  shows "server_VoteTransaction hash (\<lambda>_. res) =
    (case getResult (subtransactions (sys_tx s) ! i) node of
       Inr VoteCommitted \<Rightarrow> Inr COMMIT
     | Inr VoteFailed \<Rightarrow> Inr ABORT
     | Inr VoteStopped \<Rightarrow> Inr STOP
     | _ \<Rightarrow> Inl RpcCanceled)"
proof -
  let ?s = "subtransactions (sys_tx s) ! i"
  note inv = reachable_inv [OF assms(1-3)]
  from inv assms(4) have i: "i < length (subtransactions (sys_tx s))" "voted ?s node"
    by (auto simp: tx_inv_def list_all_iff)
  then obtain x where x: "map_of (votersByNode ?s) node = Some x" "voter_vote x \<noteq> None"
    by (auto simp: voted_def getVote_def split: option.splits)
  from assms(6) have "doneCh ?s" and res: "res = snd (collectVotes ?s node False)"
    by (auto simp: collectVotes_ready_def case_prod_unfold split: if_splits)
  with voted_done_decided [OF tx_inv_sub_inv [OF inv i(1)] _ x] have "voter_result x \<noteq> VoteUndecided"
    by simp
  with x res assms(5) show ?thesis
    by (cases "voter_result x")
      (auto simp: server_VoteTransaction_def VoteFromHash_def collectVotes_def getResult_def)
qed

theorem reply_is_outcome_witness:
  "server_VoteTransaction (replicate 20 0) (\<lambda>_. None) =
    (case getResult (subtransactions (sys_tx wit_signalled) ! 0) ''a'' of
       Inr VoteCommitted \<Rightarrow> Inr COMMIT
     | Inr VoteFailed \<Rightarrow> Inr ABORT
     | Inr VoteStopped \<Rightarrow> Inr STOP
     | _ \<Rightarrow> Inl RpcCanceled)"
proof (rule reply_is_outcome [OF wit_new wit_ok])
  show "tx_reachable wit_tx wit_signalled" unfolding wit_signalled_def by (rule exec_reachable)
  show "AtCollect ''a'' 0 \<in> set (sys_calls wit_signalled)" by code_simp
  show "length (replicate 20 (0::byte)) = voteSize" by (simp add: voteSize_def)
  show "vote_call_step False (sys_tx wit_signalled) (AtCollect ''a'' 0)
      = Some (sys_tx wit_signalled, Returned ''a'' None)" by code_simp
qed

text \<open>
  A stop that meets a cancelled voter gives up in the middle: voters it has visited are marked
  as stopped, but the session is not signalled, so a voter that waits for it stays blocked although
  its own result is already decided.
\<close>

definition wit_withdrawn :: tx_system where
  "wit_withdrawn = exec [Enter ''a'' [1], Enter ''b'' [2], Move 0 False, Move 0 False,
     Move 1 False, Move 1 False, Move 1 True] (start_system wit_tx)"

theorem stop_can_leave_waiter_blocked:
  "\<exists>s. tx_reachable wit_tx s \<and> AtCollect ''a'' 0 \<in> set (sys_calls s) \<and>
     snd (tx_stop (sys_tx s)) = Some ErrTransactionCanceled \<and>
     getResult (subtransactions (fst (tx_stop (sys_tx s))) ! 0) ''a'' = Inr VoteStopped \<and>
     vote_call_step False (fst (tx_stop (sys_tx s))) (AtCollect ''a'' 0) = None"
proof (intro exI conjI)
  show "tx_reachable wit_tx wit_withdrawn" unfolding wit_withdrawn_def by (rule exec_reachable)
  show "AtCollect ''a'' 0 \<in> set (sys_calls wit_withdrawn)" by code_simp
  show "snd (tx_stop (sys_tx wit_withdrawn)) = Some ErrTransactionCanceled" by code_simp
  show "getResult (subtransactions (fst (tx_stop (sys_tx wit_withdrawn))) ! 0) ''a'' = Inr VoteStopped"
    by code_simp
  show "vote_call_step False (fst (tx_stop (sys_tx wit_withdrawn))) (AtCollect ''a'' 0) = None"
    by code_simp
qed

end
