(* ===== verification/Praefect_Config.thy ===== *)
theory Praefect_Config
  imports Praefect_Prelude
begin

text \<open>
  Praefect's configuration, \<open>internal/praefect/config/config.go\<close> and \<open>node.go\<close>: its validation,
  its defaults, the maps the other components read from it and the database connection string.
  The fields for logging, Sentry, Prometheus, authentication and TLS, which none of these functions
  reads, are left out of \<open>Config\<close>. A \<open>Duration\<close> is its number of nanoseconds. Reading the TOML
  file is not modelled.
\<close>

section \<open>The configuration\<close>

type_synonym Duration = int

definition Second :: Duration where
  "Second = 1000000000"

definition Minute :: Duration where
  "Minute = 60 * Second"

type_synonym ElectionStrategy = string

definition ElectionStrategyLocal :: ElectionStrategy where
  "ElectionStrategyLocal = ''local''"

definition ElectionStrategySQL :: ElectionStrategy where
  "ElectionStrategySQL = ''sql''"

definition ElectionStrategyPerRepository :: ElectionStrategy where
  "ElectionStrategyPerRepository = ''per_repository''"

record Failover =
  Enabled :: bool
  fo_ElectionStrategy :: ElectionStrategy
  ErrorThresholdWindow :: Duration
  WriteErrorThresholdCount :: "32 word"
  ReadErrorThresholdCount :: "32 word"
  BootstrapInterval :: Duration
  MonitorInterval :: Duration

record Node =
  node_Storage :: string
  Address :: string
  Token :: string

record VirtualStorage =
  vs_Name :: string
  Nodes :: "Node list"
  DefaultReplicationFactor :: int

record DBConnection =
  Host :: string
  Port :: int
  User :: string
  Password :: string
  DBName :: string
  SSLMode :: string
  SSLCert :: string
  SSLKey :: string
  SSLRootCert :: string

record DB = DBConnection +
  SessionPooled :: DBConnection
  HostNoProxy :: string
  PortNoProxy :: int

record Config =
  BatchSize :: uint
  ListenAddr :: string
  TLSListenAddr :: string
  SocketPath :: string
  VirtualStorages :: "VirtualStorage list"
  cfg_DB :: DB
  cfg_Failover :: Failover
  FailoverEnabled :: bool
  MemoryQueueEnabled :: bool
  GracefulStopTimeout :: Duration

datatype config_error =
    InvalidElectionStrategy string
  | ThresholdWindowNotSet
  | WriteErrorThresholdNotSet
  | ReadErrorThresholdNotSet
  | errNoListener
  | errNoVirtualStorages
  | BatchSizeTooSmall uint
  | errVirtualStorageUnnamed
  | errNoGitalyServers string
  | errVirtualStoragesNotUnique string
  | errGitalyWithoutStorage string
  | errGitalyWithoutAddr string
  | errDuplicateStorage string
  | errStorageAddressDuplicate string string
  | ReplicationFactorTooHigh string int nat

definition validate_strategy :: "ElectionStrategy \<Rightarrow> config_error option" where
  "validate_strategy es =
     (if es = ElectionStrategyLocal \<or> es = ElectionStrategySQL \<or> es = ElectionStrategyPerRepository
      then None else Some (InvalidElectionStrategy es))"

definition ErrorThresholdsConfigured :: "Failover \<Rightarrow> config_error + bool" where
  "ErrorThresholdsConfigured f =
     (if ErrorThresholdWindow f = 0 \<and> WriteErrorThresholdCount f = 0 \<and> ReadErrorThresholdCount f = 0
      then Inr False
      else if ErrorThresholdWindow f = 0 then Inl ThresholdWindowNotSet
      else if WriteErrorThresholdCount f = 0 then Inl WriteErrorThresholdNotSet
      else if ReadErrorThresholdCount f = 0 then Inl ReadErrorThresholdNotSet
      else Inr True)"

section \<open>Validation\<close>

text \<open>The inner loop: storages of this virtual storage and addresses of all seen so far.\<close>

fun validate_nodes ::
  "string \<Rightarrow> Node list \<Rightarrow> string list \<Rightarrow> string list \<Rightarrow> config_error + string list" where
  "validate_nodes vs [] storages allAddresses = Inr allAddresses"
| "validate_nodes vs (node # rest) storages allAddresses =
     (if node_Storage node = '''' then Inl (errGitalyWithoutStorage vs)
      else if Address node = '''' then Inl (errGitalyWithoutAddr vs)
      else if node_Storage node \<in> set storages then Inl (errDuplicateStorage vs)
      else if Address node \<in> set allAddresses then Inl (errStorageAddressDuplicate vs (Address node))
      else validate_nodes vs rest (node_Storage node # storages) (Address node # allAddresses))"

fun validate_storages ::
  "VirtualStorage list \<Rightarrow> string list \<Rightarrow> string list \<Rightarrow> config_error option" where
  "validate_storages [] virtualStorages allAddresses = None"
| "validate_storages (vs # rest) virtualStorages allAddresses =
     (if vs_Name vs = '''' then Some errVirtualStorageUnnamed
      else if Nodes vs = [] then Some (errNoGitalyServers (vs_Name vs))
      else if vs_Name vs \<in> set virtualStorages then Some (errVirtualStoragesNotUnique (vs_Name vs))
      else case validate_nodes (vs_Name vs) (Nodes vs) [] allAddresses of
        Inl err \<Rightarrow> Some err
      | Inr allAddresses' \<Rightarrow>
          (if int (length (Nodes vs)) < DefaultReplicationFactor vs
           then Some (ReplicationFactorTooHigh (vs_Name vs) (DefaultReplicationFactor vs)
                        (length (Nodes vs)))
           else validate_storages rest (vs_Name vs # virtualStorages) allAddresses'))"

definition Validate :: "Config \<Rightarrow> config_error option" where
  "Validate c =
     (case validate_strategy (fo_ElectionStrategy (cfg_Failover c)) of
        Some err \<Rightarrow> Some err
      | None \<Rightarrow>
          (if ListenAddr c = '''' \<and> SocketPath c = '''' \<and> TLSListenAddr c = ''''
           then Some errNoListener
           else if VirtualStorages c = [] then Some errNoVirtualStorages
           else if BatchSize c < 1 then Some (BatchSizeTooSmall (BatchSize c))
           else validate_storages (VirtualStorages c) [] []))"

section \<open>Defaults and derived maps\<close>

definition DefaultReplicationConfig :: uint where
  "DefaultReplicationConfig = 10"

definition DefaultReconciliationConfig :: Duration where
  "DefaultReconciliationConfig = 5 * Minute"

definition NeedsSQL :: "Config \<Rightarrow> bool" where
  "NeedsSQL c \<longleftrightarrow> \<not> MemoryQueueEnabled c \<or>
     (Enabled (cfg_Failover c) \<and> fo_ElectionStrategy (cfg_Failover c) \<noteq> ElectionStrategyLocal)"

definition setDefaults :: "Config \<Rightarrow> Config" where
  "setDefaults c =
     (let c = (if GracefulStopTimeout c = 0 then c\<lparr>GracefulStopTimeout := Minute\<rparr> else c);
          f = cfg_Failover c
      in if Enabled f then
           (let f = (if BootstrapInterval f = 0 then f\<lparr>BootstrapInterval := Second\<rparr> else f);
                f = (if MonitorInterval f = 0 then f\<lparr>MonitorInterval := 3 * Second\<rparr> else f)
            in c\<lparr>cfg_Failover := f\<rparr>)
         else c)"

definition VirtualStorageNames :: "Config \<Rightarrow> string list" where
  "VirtualStorageNames c = map vs_Name (VirtualStorages c)"

definition StorageNames :: "Config \<Rightarrow> (string, string list) gomap" where
  "StorageNames c =
     fold (\<lambda>vs m. AList.update (vs_Name vs) (map node_Storage (Nodes vs)) m) (VirtualStorages c) []"

definition DefaultReplicationFactors :: "Config \<Rightarrow> (string, int) gomap" where
  "DefaultReplicationFactors c =
     fold (\<lambda>vs m. AList.update (vs_Name vs) (DefaultReplicationFactor vs) m) (VirtualStorages c) []"

section \<open>The database connection string\<close>

fun coalesceStr :: "string list \<Rightarrow> string" where
  "coalesceStr [] = ''''"
| "coalesceStr (cur # values) = (if cur \<noteq> '''' then cur else coalesceStr values)"

fun coalesceInt :: "int list \<Rightarrow> int" where
  "coalesceInt [] = 0"
| "coalesceInt (cur # values) = (if cur \<noteq> 0 then cur else coalesceInt values)"

text \<open>\<open>strings.ReplaceAll\<close> of a one-character string.\<close>

definition replaceAll :: "char \<Rightarrow> string \<Rightarrow> string \<Rightarrow> string" where
  "replaceAll c r s = concat (map (\<lambda>x. if x = c then r else [x]) s)"

text \<open>\<open>fmt.Sprintf("%d", n)\<close> of a positive number.\<close>

fun decimal :: "nat \<Rightarrow> string" where
  "decimal n = (if n < 10 then [char_of (48 + n)] else decimal (n div 10) @ [char_of (48 + n mod 10)])"

declare decimal.simps [simp del]

definition join_fields :: "string list \<Rightarrow> string" where
  "join_fields fs = concat (case fs of [] \<Rightarrow> [] | f # gs \<Rightarrow> f # map (Cons (CHR 0x20)) gs)"

definition pq_values :: "DB \<Rightarrow> bool \<Rightarrow> int \<times> (string \<times> string) list" where
  "pq_values db direct =
     (let s = SessionPooled db in
      if direct then
        (coalesceInt [Port s, PortNoProxy db, Port db],
         [(''host'', coalesceStr [Host s, HostNoProxy db, Host db]),
          (''user'', coalesceStr [User s, User db]),
          (''password'', coalesceStr [Password s, Password db]),
          (''dbname'', coalesceStr [DBName s, DBName db]),
          (''sslmode'', coalesceStr [SSLMode s, SSLMode db]),
          (''sslcert'', coalesceStr [SSLCert s, SSLCert db]),
          (''sslkey'', coalesceStr [SSLKey s, SSLKey db]),
          (''sslrootcert'', coalesceStr [SSLRootCert s, SSLRootCert db]),
          (''binary_parameters'', ''yes'')])
      else
        (Port db,
         [(''host'', Host db), (''user'', User db), (''password'', Password db),
          (''dbname'', DBName db), (''sslmode'', SSLMode db), (''sslcert'', SSLCert db),
          (''sslkey'', SSLKey db), (''sslrootcert'', SSLRootCert db),
          (''binary_parameters'', ''yes'')]))"

text \<open>Character 0x27 is the single quote, 0x5C the backslash and 0x20 the space.\<close>

definition escape_value :: "string \<Rightarrow> string" where
  "escape_value v =
     replaceAll (CHR 0x20) [CHR 0x5C, CHR 0x20] (replaceAll (CHR 0x27) [CHR 0x5C, CHR 0x27] v)"

definition ToPQString :: "DB \<Rightarrow> bool \<Rightarrow> string" where
  "ToPQString db direct =
     (let (port, kvs) = pq_values db direct
      in join_fields
           ((if 0 < port then [''port='' @ decimal (nat port)] else []) @
            map (\<lambda>(k, v). k @ ''='' @ escape_value v) (filter (\<lambda>(k, v). v \<noteq> '''') kvs)))"

end
