(* ===== verification/Router.thy ===== *)
theory Router
  imports Praefect_Prelude
begin

text \<open>
  Request routing: \<open>internal/praefect/router.go\<close>, \<open>router_per_repository.go\<close> and
  \<open>router_node_manager.go\<close>.

  A gRPC connection is an opaque pointer (\<open>None\<close> is nil). The interfaces the routers call are
  functions in their records: what the health checker reports, the primary, the assignments, the
  consistent storages and the repository identifiers, each of which may fail. The source of
  randomness is a function too; what the standard library promises about it is part of \<open>router_ok\<close>.
\<close>

section \<open>Routes\<close>

type_synonym conn = "nat option"

record RouterNode =
  Storage :: string
  Connection :: conn

definition zeroNode :: RouterNode where
  "zeroNode = \<lparr>Storage = '''', Connection = None\<rparr>"

record StorageMutatorRoute =
  sm_Primary :: RouterNode
  sm_Secondaries :: "RouterNode list"

record RepositoryMutatorRoute =
  RepositoryID :: int
  Primary :: RouterNode
  Secondaries :: "RouterNode list"
  ReplicationTargets :: "string list"

datatype route_error =
    ErrVirtualStorageNotExist
  | NoConnection string string
  | ErrNoHealthyNodes
  | ErrNoSuitableNode
  | ErrPrimaryNotHealthy
  | ErrRepositoryReadOnly
  | errPrimaryUnassigned
  | RepositoryNotFound
  | RepositoryAlreadyExists
  | NotImplemented
  | SliceBounds
  | DatastoreError string
  | RWrap string route_error

section \<open>The router with a primary per repository\<close>

definition StaticStorageAssignments ::
  "(string, string list) gomap \<Rightarrow> string \<Rightarrow> string \<Rightarrow> route_error + string list" where
  "StaticStorageAssignments st virtualStorage relativePath =
     (case map_of st virtualStorage of
        None \<Rightarrow> Inl ErrVirtualStorageNotExist
      | Some storages \<Rightarrow> Inr storages)"

record PerRepositoryRouter =
  conns :: "(string, (string, conn) gomap) gomap"
  ag_GetHostAssignments :: "string \<Rightarrow> string \<Rightarrow> route_error + string list"
  pg_GetPrimary :: "string \<Rightarrow> string \<Rightarrow> route_error + string"
  rand_Intn :: "nat \<Rightarrow> nat"
  rand_Shuffle :: "RouterNode list \<Rightarrow> RouterNode list"
  hc_HealthyNodes :: "(string, string list) gomap"
  csg_GetConsistentStorages :: "string \<Rightarrow> string \<Rightarrow> route_error + string list"
  rs_GetRepositoryID :: "string \<Rightarrow> string \<Rightarrow> route_error + int"
  rs_ReserveRepositoryID :: "string \<Rightarrow> string \<Rightarrow> route_error + int"
  defaultReplicationFactors :: "(string, int) gomap"

fun connect_nodes :: "string \<Rightarrow> (string, conn) gomap \<Rightarrow> string list \<Rightarrow> route_error + RouterNode list" where
  "connect_nodes virtualStorage cs [] = Inr []"
| "connect_nodes virtualStorage cs (storage # rest) =
     (case map_of cs storage of
        None \<Rightarrow> Inl (NoConnection virtualStorage storage)
      | Some c \<Rightarrow>
          (case connect_nodes virtualStorage cs rest of
             Inl err \<Rightarrow> Inl err
           | Inr ns \<Rightarrow> Inr (\<lparr>Storage = storage, Connection = c\<rparr> # ns)))"

definition healthyNodes :: "PerRepositoryRouter \<Rightarrow> string \<Rightarrow> route_error + RouterNode list" where
  "healthyNodes r virtualStorage =
     (case map_of (conns r) virtualStorage of
        None \<Rightarrow> Inl ErrVirtualStorageNotExist
      | Some cs \<Rightarrow>
          (case connect_nodes virtualStorage cs
                  (case map_of (hc_HealthyNodes r) virtualStorage of None \<Rightarrow> [] | Some hs \<Rightarrow> hs) of
             Inl err \<Rightarrow> Inl err
           | Inr [] \<Rightarrow> Inl ErrNoHealthyNodes
           | Inr ns \<Rightarrow> Inr ns))"

definition pickRandom :: "PerRepositoryRouter \<Rightarrow> RouterNode list \<Rightarrow> route_error + RouterNode" where
  "pickRandom r ns =
     (if ns = [] then Inl ErrNoSuitableNode else Inr (ns ! rand_Intn r (length ns)))"

definition RouteStorageAccessor :: "PerRepositoryRouter \<Rightarrow> string \<Rightarrow> route_error + RouterNode" where
  "RouteStorageAccessor r virtualStorage =
     (case healthyNodes r virtualStorage of
        Inl err \<Rightarrow> Inl err
      | Inr ns \<Rightarrow> pickRandom r ns)"

definition RouteStorageMutator :: "PerRepositoryRouter \<Rightarrow> string \<Rightarrow> route_error + StorageMutatorRoute" where
  "RouteStorageMutator r virtualStorage = Inl NotImplemented"

definition RouteRepositoryAccessor ::
  "PerRepositoryRouter \<Rightarrow> string \<Rightarrow> string \<Rightarrow> bool \<Rightarrow> route_error + RouterNode" where
  "RouteRepositoryAccessor r virtualStorage relativePath forcePrimary =
     (case healthyNodes r virtualStorage of
        Inl err \<Rightarrow> Inl err
      | Inr ns \<Rightarrow>
          (if forcePrimary then
             (case pg_GetPrimary r virtualStorage relativePath of
                Inl err \<Rightarrow> Inl (RWrap ''get primary'' err)
              | Inr primary \<Rightarrow>
                  (case find (\<lambda>node. Storage node = primary) ns of
                     Some node \<Rightarrow> Inr node
                   | None \<Rightarrow> Inl ErrPrimaryNotHealthy))
           else
             (case csg_GetConsistentStorages r virtualStorage relativePath of
                Inl err \<Rightarrow> Inl (RWrap ''consistent storages'' err)
              | Inr consistentStorages \<Rightarrow>
                  pickRandom r (filter (\<lambda>node. Storage node \<in> set consistentStorages) ns))))"

text \<open>The loop over the assigned storages of \<open>RouteRepositoryMutator\<close>.\<close>

definition route_assigned ::
  "string \<Rightarrow> (string, RouterNode) gomap \<Rightarrow> string list \<Rightarrow> string \<Rightarrow>
   RepositoryMutatorRoute \<Rightarrow> RepositoryMutatorRoute" where
  "route_assigned primary healthySet consistentStorages assigned route =
     (let healthy = map_of healthySet assigned \<noteq> None;
          node = (case map_of healthySet assigned of None \<Rightarrow> zeroNode | Some n \<Rightarrow> n)
      in if assigned = primary then route\<lparr>Primary := node\<rparr>
         else if Storage node \<notin> set consistentStorages \<or> \<not> healthy
         then route\<lparr>ReplicationTargets := ReplicationTargets route @ [assigned]\<rparr>
         else route\<lparr>Secondaries := Secondaries route @ [node]\<rparr>)"

definition RouteRepositoryMutator ::
  "PerRepositoryRouter \<Rightarrow> string \<Rightarrow> string \<Rightarrow> route_error + RepositoryMutatorRoute" where
  "RouteRepositoryMutator r virtualStorage relativePath =
     (case healthyNodes r virtualStorage of
        Inl err \<Rightarrow> Inl err
      | Inr ns \<Rightarrow>
     (case pg_GetPrimary r virtualStorage relativePath of
        Inl err \<Rightarrow> Inl (RWrap ''get primary'' err)
      | Inr primary \<Rightarrow>
     (let healthySet = fold (\<lambda>node m. AList.update (Storage node) node m) ns [] in
      if map_of healthySet primary = None then Inl ErrPrimaryNotHealthy
      else
     (case csg_GetConsistentStorages r virtualStorage relativePath of
        Inl err \<Rightarrow> Inl (RWrap ''consistent storages'' err)
      | Inr consistentStorages \<Rightarrow>
      if primary \<notin> set consistentStorages then Inl ErrRepositoryReadOnly
      else
     (case ag_GetHostAssignments r virtualStorage relativePath of
        Inl err \<Rightarrow> Inl (RWrap ''get host assignments'' err)
      | Inr assignedStorages \<Rightarrow>
     (case rs_GetRepositoryID r virtualStorage relativePath of
        Inl err \<Rightarrow> Inl (RWrap ''get repository id'' err)
      | Inr repositoryID \<Rightarrow>
     (let route = fold (route_assigned primary healthySet consistentStorages) assignedStorages
            \<lparr>RepositoryID = repositoryID, Primary = zeroNode, Secondaries = [],
             ReplicationTargets = []\<rparr>
      in if Primary route = zeroNode then Inl errPrimaryUnassigned else Inr route)))))))"

text \<open>
  A slice beyond the length of \<open>secondaryNodes\<close> is the error \<open>SliceBounds\<close>; a validated
  configuration has no such replication factor.
\<close>

definition RouteRepositoryCreation ::
  "PerRepositoryRouter \<Rightarrow> string \<Rightarrow> string \<Rightarrow> route_error + RepositoryMutatorRoute" where
  "RouteRepositoryCreation r virtualStorage relativePath =
     (case healthyNodes r virtualStorage of
        Inl err \<Rightarrow> Inl err
      | Inr ns \<Rightarrow>
     (case pickRandom r ns of
        Inl err \<Rightarrow> Inl err
      | Inr primary \<Rightarrow>
     (case rs_ReserveRepositoryID r virtualStorage relativePath of
        Inl err \<Rightarrow> Inl (RWrap ''reserve repository id'' err)
      | Inr rid \<Rightarrow>
     (let replicationFactor = getz (defaultReplicationFactors r) virtualStorage in
      if replicationFactor = 1 then
        Inr \<lparr>RepositoryID = rid, Primary = primary, Secondaries = [], ReplicationTargets = []\<rparr>
      else
        let all = map (\<lambda>(storage, c). \<lparr>Storage = storage, Connection = c\<rparr>)
              (filter (\<lambda>(storage, c). storage \<noteq> Storage primary)
                (case map_of (conns r) virtualStorage of None \<Rightarrow> [] | Some cs \<Rightarrow> cs));
            n = nat (replicationFactor - 1)
        in if 0 < replicationFactor \<and> length all < n then Inl SliceBounds
           else
             let secondaryNodes = (if 0 < replicationFactor then take n (rand_Shuffle r all) else all)
             in Inr \<lparr>RepositoryID = rid, Primary = primary,
                     Secondaries = filter (\<lambda>node. node \<in> set ns) secondaryNodes,
                     ReplicationTargets =
                       map Storage (filter (\<lambda>node. node \<notin> set ns) secondaryNodes)\<rparr>))))"

end
