(* ===== verification/Nodes.thy ===== *)
theory Nodes
  imports Praefect_Config Router
begin

text \<open>
  Node health and primary election for a virtual storage:
  \<open>internal/praefect/nodes/manager.go\<close>, \<open>local_elector.go\<close> and \<open>disabled_elector.go\<close>.

  A \<open>Node\<close> is a pointer to a \<open>nodeStatus\<close>; in an elector it is its index in the slice \<open>nodes\<close>, so
  that comparing pointers is comparing indices. The answer of a health check RPC is an argument. A
  \<open>Shard\<close> holds the statuses its nodes have when it is read.
\<close>

section \<open>Health of one node\<close>

definition healthcheckThreshold :: nat where
  "healthcheckThreshold = 3"

record nodeStatus =
  ns_node :: Node
  clientConn :: conn
  statuses :: "bool list"

definition newConnectionStatus :: "Node \<Rightarrow> conn \<Rightarrow> nodeStatus" where
  "newConnectionStatus n cc = \<lparr>ns_node = n, clientConn = cc, statuses = []\<rparr>"

abbreviation GetStorage :: "nodeStatus \<Rightarrow> string" where
  "GetStorage n \<equiv> node_Storage (ns_node n)"

definition IsHealthy :: "nodeStatus \<Rightarrow> bool" where
  "IsHealthy n \<longleftrightarrow>
     (if length (statuses n) < healthcheckThreshold then False
      else list_all id (drop (length (statuses n) - healthcheckThreshold) (statuses n)))"

definition updateStatus :: "bool \<Rightarrow> nodeStatus \<Rightarrow> nodeStatus" where
  "updateStatus status n =
     (let n = n\<lparr>statuses := statuses n @ [status]\<rparr>
      in if healthcheckThreshold < length (statuses n) then n\<lparr>statuses := tl (statuses n)\<rparr> else n)"

text \<open>\<open>serving\<close>: the health check answered, with status \<open>SERVING\<close>.\<close>

definition CheckHealth :: "bool \<Rightarrow> nodeStatus \<Rightarrow> nodeStatus \<times> bool" where
  "CheckHealth serving n = (updateStatus serving n, serving)"

section \<open>Shards\<close>

record Shard =
  sh_Primary :: nodeStatus
  sh_Secondaries :: "nodeStatus list"

definition GetNode :: "Shard \<Rightarrow> string \<Rightarrow> nodeStatus option" where
  "GetNode s storage =
     (if storage = GetStorage (sh_Primary s) then Some (sh_Primary s)
      else find (\<lambda>node. storage = GetStorage node) (sh_Secondaries s))"

definition GetHealthySecondaries :: "Shard \<Rightarrow> nodeStatus list" where
  "GetHealthySecondaries s = filter IsHealthy (sh_Secondaries s)"

section \<open>The local elector\<close>

record localElector =
  le_nodes :: "nodeStatus list"
  primaryNode :: nat

text \<open>\<open>None\<close>: the index panic on an empty list of nodes.\<close>

definition newLocalElector :: "nodeStatus list \<Rightarrow> localElector option" where
  "newLocalElector ns = (if ns = [] then None else Some \<lparr>le_nodes = ns, primaryNode = 0\<rparr>)"

text \<open>\<open>serving ! i\<close> is the answer of node \<open>i\<close> to this round of health checks.\<close>

definition checkNodes :: "bool list \<Rightarrow> localElector \<Rightarrow> localElector \<times> route_error option" where
  "checkNodes serving s =
     (let s = s\<lparr>le_nodes := map2 (\<lambda>ok n. fst (CheckHealth ok n)) serving (le_nodes s)\<rparr> in
      if IsHealthy (le_nodes s ! primaryNode s) then (s, None)
      else case find (\<lambda>i. i \<noteq> primaryNode s \<and> IsHealthy (le_nodes s ! i)) [0..<length (le_nodes s)] of
             None \<Rightarrow> (s, Some ErrPrimaryNotHealthy)
           | Some newPrimary \<Rightarrow> (s\<lparr>primaryNode := newPrimary\<rparr>, None))"

fun bootstrap :: "bool list list \<Rightarrow> localElector \<Rightarrow> localElector" where
  "bootstrap [] s = s"
| "bootstrap (serving # rounds) s = bootstrap rounds (fst (checkNodes serving s))"

definition le_secondaries :: "localElector \<Rightarrow> nodeStatus list" where
  "le_secondaries s =
     map (nth (le_nodes s)) (filter (\<lambda>i. i \<noteq> primaryNode s) [0..<length (le_nodes s)])"

definition le_GetShard :: "localElector \<Rightarrow> route_error + Shard" where
  "le_GetShard s =
     (if \<not> IsHealthy (le_nodes s ! primaryNode s) then Inl ErrPrimaryNotHealthy
      else Inr \<lparr>sh_Primary = le_nodes s ! primaryNode s, sh_Secondaries = le_secondaries s\<rparr>)"

section \<open>The disabled elector\<close>

record disabledElector =
  de_shard :: Shard

definition newDisabledElector :: "nodeStatus list \<Rightarrow> disabledElector option" where
  "newDisabledElector ns =
     (case ns of
        [] \<Rightarrow> None
      | n # rest \<Rightarrow> Some \<lparr>de_shard = \<lparr>sh_Primary = n, sh_Secondaries = rest\<rparr>\<rparr>)"

text \<open>The answers are those of the secondaries, then that of the primary.\<close>

definition de_checkNodes :: "bool list \<Rightarrow> bool \<Rightarrow> disabledElector \<Rightarrow> disabledElector" where
  "de_checkNodes serving primaryServing de =
     de\<lparr>de_shard :=
       \<lparr>sh_Primary = fst (CheckHealth primaryServing (sh_Primary (de_shard de))),
        sh_Secondaries = map2 (\<lambda>ok n. fst (CheckHealth ok n)) serving (sh_Secondaries (de_shard de))\<rparr>\<rparr>"

definition de_GetShard :: "disabledElector \<Rightarrow> route_error + Shard" where
  "de_GetShard de =
     (if \<not> IsHealthy (sh_Primary (de_shard de)) then Inl ErrPrimaryNotHealthy else Inr (de_shard de))"

section \<open>The node manager\<close>

text \<open>
  The SQL elector decides in the database; here it is what its \<open>GetShard\<close> returns.
\<close>

datatype leaderElectionStrategy =
    LocalElector localElector
  | DisabledElector disabledElector
  | SqlElector "route_error + Shard"

fun strategy_GetShard :: "leaderElectionStrategy \<Rightarrow> route_error + Shard" where
  "strategy_GetShard (LocalElector s) = le_GetShard s"
| "strategy_GetShard (DisabledElector de) = de_GetShard de"
| "strategy_GetShard (SqlElector res) = res"

record Mgr =
  strategies :: "(string, leaderElectionStrategy) gomap"
  mgr_nodes :: "(string, nodeStatus list) gomap"
  mgr_csg :: "string \<Rightarrow> string \<Rightarrow> route_error + string list"

text \<open>
  \<open>NewManager\<close>: \<open>dial\<close> connects to a node, \<open>sqlElector\<close> is what the SQL elector of a virtual storage
  answers.
\<close>

fun dial_nodes :: "(Node \<Rightarrow> route_error + conn) \<Rightarrow> Node list \<Rightarrow> route_error + nodeStatus list" where
  "dial_nodes dial [] = Inr []"
| "dial_nodes dial (node # rest) =
     (case dial node of
        Inl err \<Rightarrow> Inl err
      | Inr c \<Rightarrow>
          (case dial_nodes dial rest of
             Inl err \<Rightarrow> Inl err
           | Inr ns \<Rightarrow> Inr (newConnectionStatus node c # ns)))"

definition new_strategy ::
  "(string \<Rightarrow> nodeStatus list \<Rightarrow> route_error + Shard) \<Rightarrow> Failover \<Rightarrow> string \<Rightarrow> nodeStatus list \<Rightarrow>
   leaderElectionStrategy option" where
  "new_strategy sqlElector f vs ns =
     (if Enabled f then
        (if fo_ElectionStrategy f = ElectionStrategySQL then Some (SqlElector (sqlElector vs ns))
         else map_option LocalElector (newLocalElector ns))
      else map_option DisabledElector (newDisabledElector ns))"

fun add_storages ::
  "(Node \<Rightarrow> route_error + conn) \<Rightarrow> (string \<Rightarrow> nodeStatus list \<Rightarrow> route_error + Shard) \<Rightarrow> Failover \<Rightarrow>
   VirtualStorage list \<Rightarrow> Mgr \<Rightarrow> route_error + Mgr" where
  "add_storages dial sqlElector f [] n = Inr n"
| "add_storages dial sqlElector f (vs # rest) n =
     (case dial_nodes dial (Nodes vs) of
        Inl err \<Rightarrow> Inl err
      | Inr ns \<Rightarrow>
          (case new_strategy sqlElector f (vs_Name vs) ns of
             None \<Rightarrow> Inl SliceBounds
           | Some strategy \<Rightarrow>
               (let old = (case map_of (mgr_nodes n) (vs_Name vs) of None \<Rightarrow> [] | Some old \<Rightarrow> old)
                in add_storages dial sqlElector f rest
                     (n\<lparr>mgr_nodes := (if ns = [] then mgr_nodes n
                                       else AList.update (vs_Name vs) (old @ ns) (mgr_nodes n)),
                        strategies := AList.update (vs_Name vs) strategy (strategies n)\<rparr>))))"

definition nodes_NewManager ::
  "(Node \<Rightarrow> route_error + conn) \<Rightarrow> (string \<Rightarrow> nodeStatus list \<Rightarrow> route_error + Shard) \<Rightarrow> Config \<Rightarrow>
   (string \<Rightarrow> string \<Rightarrow> route_error + string list) \<Rightarrow> route_error + Mgr" where
  "nodes_NewManager dial sqlElector c csg =
     add_storages dial sqlElector (cfg_Failover c) (VirtualStorages c)
       \<lparr>strategies = [], mgr_nodes = [], mgr_csg = csg\<rparr>"

definition GetShard :: "Mgr \<Rightarrow> string \<Rightarrow> route_error + Shard" where
  "GetShard n virtualStorageName =
     (case map_of (strategies n) virtualStorageName of
        None \<Rightarrow> Inl (RWrap virtualStorageName ErrVirtualStorageNotExist)
      | Some strategy \<Rightarrow> strategy_GetShard strategy)"

definition mgr_GetPrimary :: "Mgr \<Rightarrow> string \<Rightarrow> string \<Rightarrow> route_error + string" where
  "mgr_GetPrimary n virtualStorage relativePath =
     (case GetShard n virtualStorage of
        Inl err \<Rightarrow> Inl err
      | Inr shard \<Rightarrow> Inr (GetStorage (sh_Primary shard)))"

text \<open>\<open>errors.As(err, new(commonerr.RepositoryNotFoundError))\<close>.\<close>

fun is_RepositoryNotFound :: "route_error \<Rightarrow> bool" where
  "is_RepositoryNotFound (RWrap msg e) = is_RepositoryNotFound e"
| "is_RepositoryNotFound e = (e = RepositoryNotFound)"

text \<open>An error leaves the map that is returned with it nil.\<close>

definition consistent_or_none :: "route_error + string list \<Rightarrow> route_error + string list" where
  "consistent_or_none res =
     (case res of
        Inl err \<Rightarrow> (if is_RepositoryNotFound err then Inr [] else Inl err)
      | Inr storages \<Rightarrow> Inr storages)"

definition GetSyncedNode :: "(nat \<Rightarrow> nat) \<Rightarrow> Mgr \<Rightarrow> string \<Rightarrow> string \<Rightarrow> route_error + nodeStatus" where
  "GetSyncedNode intn n virtualStorageName repoPath =
     (case consistent_or_none (mgr_csg n virtualStorageName repoPath) of
        Inl err \<Rightarrow> Inl err
      | Inr upToDate \<Rightarrow>
          (case (if upToDate = [] then
                   (case GetShard n virtualStorageName of
                      Inl err \<Rightarrow> Inl (RWrap ''get shard'' err)
                    | Inr shard \<Rightarrow> Inr [GetStorage (sh_Primary shard)])
                 else Inr upToDate) of
             Inl err \<Rightarrow> Inl err
           | Inr upToDateStorages \<Rightarrow>
               (let healthyStorages = filter (\<lambda>node. IsHealthy node \<and> GetStorage node \<in> set upToDateStorages)
                      (case map_of (mgr_nodes n) virtualStorageName of None \<Rightarrow> [] | Some ns \<Rightarrow> ns)
                in if healthyStorages = [] then Inl (RWrap ''no healthy nodes'' ErrPrimaryNotHealthy)
                   else Inr (healthyStorages ! intn (length healthyStorages)))))"

definition HealthyNodes :: "Mgr \<Rightarrow> (string, string list) gomap" where
  "HealthyNodes n = map (\<lambda>(vs, ns). (vs, map GetStorage (filter IsHealthy ns))) (mgr_nodes n)"

section \<open>The router on top of the node manager\<close>

record nodeManagerRouter =
  nm_mgr :: Mgr
  nm_intn :: "nat \<Rightarrow> nat"
  nm_GetConsistentStorages :: "string \<Rightarrow> string \<Rightarrow> route_error + string list"

definition toRouterNode :: "nodeStatus \<Rightarrow> RouterNode" where
  "toRouterNode node = \<lparr>Storage = GetStorage node, Connection = clientConn node\<rparr>"

definition toRouterNodes :: "nodeStatus list \<Rightarrow> RouterNode list" where
  "toRouterNodes ns = map toRouterNode ns"

definition nm_RouteRepositoryAccessor ::
  "nodeManagerRouter \<Rightarrow> string \<Rightarrow> string \<Rightarrow> bool \<Rightarrow> route_error + RouterNode" where
  "nm_RouteRepositoryAccessor r virtualStorage relativePath forcePrimary =
     (if forcePrimary then
        (case GetShard (nm_mgr r) virtualStorage of
           Inl err \<Rightarrow> Inl (RWrap ''get shard'' err)
         | Inr shard \<Rightarrow> Inr (toRouterNode (sh_Primary shard)))
      else
        (case GetSyncedNode (nm_intn r) (nm_mgr r) virtualStorage relativePath of
           Inl err \<Rightarrow> Inl (RWrap ''get synced node'' err)
         | Inr node \<Rightarrow> Inr (toRouterNode node)))"

definition nm_RouteStorageAccessor :: "nodeManagerRouter \<Rightarrow> string \<Rightarrow> route_error + RouterNode" where
  "nm_RouteStorageAccessor r virtualStorage =
     (case GetShard (nm_mgr r) virtualStorage of
        Inl err \<Rightarrow> Inl err
      | Inr shard \<Rightarrow> Inr (toRouterNode (sh_Primary shard)))"

definition nm_RouteStorageMutator ::
  "nodeManagerRouter \<Rightarrow> string \<Rightarrow> route_error + StorageMutatorRoute" where
  "nm_RouteStorageMutator r virtualStorage =
     (case GetShard (nm_mgr r) virtualStorage of
        Inl err \<Rightarrow> Inl err
      | Inr shard \<Rightarrow>
          Inr \<lparr>sm_Primary = toRouterNode (sh_Primary shard),
               sm_Secondaries = toRouterNodes (GetHealthySecondaries shard)\<rparr>)"

definition nm_RouteRepositoryMutator ::
  "nodeManagerRouter \<Rightarrow> string \<Rightarrow> string \<Rightarrow> route_error + RepositoryMutatorRoute" where
  "nm_RouteRepositoryMutator r virtualStorage relativePath =
     (case GetShard (nm_mgr r) virtualStorage of
        Inl err \<Rightarrow> Inl (RWrap ''get shard'' err)
      | Inr shard \<Rightarrow>
     (case consistent_or_none (nm_GetConsistentStorages r virtualStorage relativePath) of
        Inl err \<Rightarrow> Inl (RWrap ''consistent storages'' err)
      | Inr storages \<Rightarrow>
     (let consistentStorages = (if storages = [] then [GetStorage (sh_Primary shard)] else storages);
          participates = (\<lambda>secondary. GetStorage secondary \<in> set consistentStorages \<and> IsHealthy secondary)
      in if GetStorage (sh_Primary shard) \<notin> set consistentStorages then Inl ErrRepositoryReadOnly
         else Inr \<lparr>RepositoryID = 0, Primary = toRouterNode (sh_Primary shard),
                   Secondaries = toRouterNodes (filter participates (sh_Secondaries shard)),
                   ReplicationTargets =
                     map GetStorage (filter (\<lambda>s. \<not> participates s) (sh_Secondaries shard))\<rparr>)))"

definition nm_RouteRepositoryCreation ::
  "nodeManagerRouter \<Rightarrow> string \<Rightarrow> string \<Rightarrow> route_error + RepositoryMutatorRoute" where
  "nm_RouteRepositoryCreation r virtualStorage relativePath =
     (case GetShard (nm_mgr r) virtualStorage of
        Inl err \<Rightarrow> Inl (RWrap ''get shard'' err)
      | Inr shard \<Rightarrow>
          Inr \<lparr>RepositoryID = 0, Primary = toRouterNode (sh_Primary shard),
               Secondaries = map toRouterNode (filter IsHealthy (sh_Secondaries shard)),
               ReplicationTargets =
                 map GetStorage (filter (\<lambda>s. \<not> IsHealthy s) (sh_Secondaries shard))\<rparr>)"

end
