(* ===== verification/Praefect_Config_Props.thy ===== *)
theory Praefect_Config_Props
  imports Praefect_Config
begin

text \<open>
  What a configuration that passes \<open>Validate\<close> satisfies, what the maps derived from it hold, and
  that the database connection string can be read back.
\<close>

section \<open>Validation\<close>

definition nodes_ok :: "Node list \<Rightarrow> bool" where
  "nodes_ok ns \<longleftrightarrow> distinct (map node_Storage ns) \<and> '''' \<notin> node_Storage ` set ns \<and> '''' \<notin> Address ` set ns"

definition storage_ok :: "VirtualStorage \<Rightarrow> bool" where
  "storage_ok vs \<longleftrightarrow> vs_Name vs \<noteq> '''' \<and> Nodes vs \<noteq> [] \<and> nodes_ok (Nodes vs) \<and>
     DefaultReplicationFactor vs \<le> int (length (Nodes vs))"

definition all_addresses :: "VirtualStorage list \<Rightarrow> string list" where
  "all_addresses vss = concat (map (\<lambda>vs. map Address (Nodes vs)) vss)"

lemma all_addresses_simps [simp]:
  "all_addresses [] = []"
  "all_addresses (vs # vss) = map Address (Nodes vs) @ all_addresses vss"
  by (simp_all add: all_addresses_def)

lemma validate_nodes_Inr:
  "validate_nodes vs ns storages addrs = Inr addrs' \<longleftrightarrow>
     nodes_ok ns \<and> set (map node_Storage ns) \<inter> set storages = {} \<and> distinct (map Address ns) \<and>
     set (map Address ns) \<inter> set addrs = {} \<and> addrs' = rev (map Address ns) @ addrs"
  by (induction vs ns storages addrs rule: validate_nodes.induct) (auto simp: nodes_ok_def)

lemma validate_storages_None:
  "validate_storages vss seen addrs = None \<longleftrightarrow>
     list_all storage_ok vss \<and> distinct (map vs_Name vss) \<and> set (map vs_Name vss) \<inter> set seen = {} \<and>
     distinct (all_addresses vss) \<and> set (all_addresses vss) \<inter> set addrs = {}"
proof (induction vss arbitrary: seen addrs)
  case (Cons vs vss)
  show ?case
  proof (cases "validate_nodes (vs_Name vs) (Nodes vs) [] addrs")
    case (Inl e)
    then have "\<not> (nodes_ok (Nodes vs) \<and> distinct (map Address (Nodes vs)) \<and>
        set (map Address (Nodes vs)) \<inter> set addrs = {})"
      using validate_nodes_Inr [of "vs_Name vs" "Nodes vs" "[]" addrs] by auto
    with Inl show ?thesis by (auto simp: storage_ok_def)
  next
    case (Inr a)
    with validate_nodes_Inr [of "vs_Name vs" "Nodes vs" "[]" addrs a]
    have ok: "nodes_ok (Nodes vs)" "distinct (map Address (Nodes vs))"
      "set (map Address (Nodes vs)) \<inter> set addrs = {}" "set a = set (map Address (Nodes vs)) \<union> set addrs"
      by simp_all
    then have "distinct (all_addresses (vs # vss)) \<and> set (all_addresses (vs # vss)) \<inter> set addrs = {} \<longleftrightarrow>
        distinct (all_addresses vss) \<and> set (all_addresses vss) \<inter> set a = {}"
      by simp blast
    with Inr ok(1) show ?thesis by (auto simp: Cons.IH storage_ok_def)
  qed
qed simp

lemma Validate_accept_storages:
  assumes "Validate c = None"
  shows "list_all storage_ok (VirtualStorages c) \<and> distinct (map vs_Name (VirtualStorages c))"
  using assms by (auto simp: Validate_def validate_storages_None split: option.splits if_splits)

text \<open>
  C14. \<open>Validate\<close> accepts exactly the configurations with a known election strategy, some listener,
  a positive batch size and at least one virtual storage, in which virtual storages have unique
  non-empty names and at least one node, storages are named and unique per virtual storage,
  addresses are set and unique across all of them, and no replication factor exceeds the number of
  nodes.
\<close>

theorem Validate_accepts:
  "Validate c = None \<longleftrightarrow>
     fo_ElectionStrategy (cfg_Failover c) \<in> {''local'', ''sql'', ''per_repository''} \<and>
     list_ex (\<lambda>a. a \<noteq> '''') [ListenAddr c, SocketPath c, TLSListenAddr c] \<and>
     0 < BatchSize c \<and> VirtualStorages c \<noteq> [] \<and>
     list_all storage_ok (VirtualStorages c) \<and> distinct (map vs_Name (VirtualStorages c)) \<and>
     distinct (all_addresses (VirtualStorages c))"
proof -
  have "BatchSize c < 1 \<longleftrightarrow> \<not> 0 < BatchSize c" by (simp add: word_greater_zero_iff)
  then show ?thesis
    by (auto simp: Validate_def validate_strategy_def validate_storages_None
        ElectionStrategyLocal_def ElectionStrategySQL_def ElectionStrategyPerRepository_def
        split: option.split)
qed

section \<open>Derived maps\<close>

lemma map_of_fold_update:
  assumes "distinct (map f xs)" and "x \<in> set xs"
  shows "map_of (fold (\<lambda>x m. AList.update (f x) (g x) m) xs m) (f x) = Some (g x)"
  using assms
proof (induction xs arbitrary: m)
  case (Cons y ys)
  have other: "k \<notin> f ` set zs \<Longrightarrow> map_of (fold (\<lambda>x m. AList.update (f x) (g x) m) zs m) k = map_of m k"
    for zs m k by (induction zs arbitrary: m) (auto simp: update_conv)
  from Cons show ?case by (auto simp: other update_conv)
qed simp

lemma DefaultReplicationFactors_lookup:
  assumes "distinct (map vs_Name (VirtualStorages c))" and "vs \<in> set (VirtualStorages c)"
  shows "map_of (DefaultReplicationFactors c) (vs_Name vs) = Some (DefaultReplicationFactor vs)"
  unfolding DefaultReplicationFactors_def using assms by (rule map_of_fold_update)

lemma StorageNames_lookup:
  assumes "distinct (map vs_Name (VirtualStorages c))" and "vs \<in> set (VirtualStorages c)"
  shows "map_of (StorageNames c) (vs_Name vs) = Some (map node_Storage (Nodes vs))"
  unfolding StorageNames_def using assms by (rule map_of_fold_update)

section \<open>Reading the connection string back\<close>

text \<open>
  The key/value syntax of connection strings: fields end at a space, and a backslash takes the
  character after it literally.
\<close>

fun read_fields :: "string \<Rightarrow> string \<Rightarrow> string list" where
  "read_fields cur [] = [cur]"
| "read_fields cur (c # s) =
     (if c = CHR 0x5C then (case s of [] \<Rightarrow> [cur] | d # s' \<Rightarrow> read_fields (cur @ [d]) s')
      else if c = CHR 0x20 then cur # read_fields '''' s
      else read_fields (cur @ [c]) s)"

definition plain :: "string \<Rightarrow> bool" where
  "plain s \<longleftrightarrow> CHR 0x5C \<notin> set s \<and> CHR 0x20 \<notin> set s"

lemma plain_append: "plain (s @ t) \<longleftrightarrow> plain s \<and> plain t"
  by (auto simp: plain_def)

lemma read_plain: "plain k \<Longrightarrow> read_fields cur (k @ s) = read_fields (cur @ k) s"
  by (induction k arbitrary: cur) (auto simp: plain_def)

lemma escape_value_alt:
  "escape_value v = concat (map (\<lambda>x. if x = CHR 0x27 \<or> x = CHR 0x20 then [CHR 0x5C, x] else [x]) v)"
  by (induction v) (auto simp: escape_value_def replaceAll_def)

lemma read_escaped:
  "CHR 0x5C \<notin> set v \<Longrightarrow> read_fields cur (escape_value v @ s) = read_fields (cur @ v) s"
  unfolding escape_value_alt by (induction v arbitrary: cur) auto

lemma plain_decimal: "plain (decimal n)"
proof (induction n rule: decimal.induct)
  case (1 n)
  have "list_all (\<lambda>d. plain [char_of (48 + d)]) [0..<10]" by code_simp
  then have digit: "plain [char_of (48 + d)]" if "d < 10" for d :: nat
    using that by (simp add: list_all_iff)
  have "plain (decimal (n div 10) @ [char_of (48 + n mod 10)])" if "\<not> n < 10"
    using 1 that digit [of "n mod 10"] by (simp add: plain_append)
  with digit [of n] show ?case by (subst decimal.simps) simp
qed

text \<open>A field whose text reads as \<open>f\<close>.\<close>

definition reads_as :: "string \<Rightarrow> string \<Rightarrow> bool" where
  "reads_as t f \<longleftrightarrow> (\<forall>cur s. read_fields cur (t @ s) = read_fields (cur @ f) s)"

lemma reads_plain: "plain k \<Longrightarrow> reads_as k k"
  by (simp add: reads_as_def read_plain)

lemma reads_escaped: "CHR 0x5C \<notin> set v \<Longrightarrow> reads_as (escape_value v) v"
  by (simp add: reads_as_def read_escaped)

lemma reads_append: "reads_as t f \<Longrightarrow> reads_as u g \<Longrightarrow> reads_as (t @ u) (f @ g)"
  by (simp add: reads_as_def)

lemma read_join:
  assumes "list_all2 reads_as ts fs" and "ts \<noteq> []"
  shows "read_fields '''' (join_fields ts) = fs"
proof -
  have rest: "read_fields cur (concat (map (Cons (CHR 0x20)) ts)) = cur # fs"
    if "list_all2 reads_as ts fs" for cur ts fs
    using that
  proof (induction arbitrary: cur rule: list_all2_induct)
    case (Cons t ts f fs)
    then show ?case by (simp add: reads_as_def)
  qed simp
  from assms obtain t ts' f fs' where "ts = t # ts'" "fs = f # fs'" "reads_as t f" "list_all2 reads_as ts' fs'"
    by (cases ts; cases fs) auto
  with rest show ?thesis by (simp add: join_fields_def reads_as_def)
qed

definition pq_fields :: "DB \<Rightarrow> bool \<Rightarrow> string list" where
  "pq_fields db direct =
     (let (port, kvs) = pq_values db direct
      in (if 0 < port then [''port='' @ decimal (nat port)] else []) @
         map (\<lambda>(k, v). k @ ''='' @ v) (filter (\<lambda>(k, v). v \<noteq> '''') kvs))"

lemma pq_keys: "list_all plain (map fst (snd (pq_values db direct)))"
proof -
  have "map fst (snd (pq_values db direct)) = [''host'', ''user'', ''password'', ''dbname'', ''sslmode'',
      ''sslcert'', ''sslkey'', ''sslrootcert'', ''binary_parameters'']"
    by (simp add: pq_values_def Let_def)
  moreover have "list_all plain [''host'', ''user'', ''password'', ''dbname'', ''sslmode'',
      ''sslcert'', ''sslkey'', ''sslrootcert'', ''binary_parameters'']"
    by code_simp
  ultimately show ?thesis by simp
qed

lemma pq_last: "(''binary_parameters'', ''yes'') \<in> set (snd (pq_values db direct))"
  by (simp add: pq_values_def Let_def)

text \<open>
  The connection string reads back as its fields: splitting it at unescaped spaces and removing
  the escapes gives the port and every non-empty setting with its value, whatever spaces and quotes
  the values contain, as long as no value contains a backslash.
\<close>

theorem ToPQString_reads_back:
  assumes "list_all (\<lambda>(k, v). CHR 0x5C \<notin> set v) (snd (pq_values db direct))"
  shows "read_fields '''' (ToPQString db direct) = pq_fields db direct"
proof -
  obtain port kvs where pv: "pq_values db direct = (port, kvs)" by (cases "pq_values db direct")
  have keys: "list_all plain (map fst kvs)" and last: "(''binary_parameters'', ''yes'') \<in> set kvs"
    using pq_keys [of db direct] pq_last [of db direct] by (simp_all add: pv)
  have "list_all2 reads_as (map (\<lambda>(k, v). k @ ''='' @ escape_value v) kvs')
      (map (\<lambda>(k, v). k @ ''='' @ v) kvs')"
    if "set kvs' \<subseteq> set kvs" for kvs'
  proof -
    have "reads_as (k @ ''='' @ escape_value v) (k @ ''='' @ v)" if "(k, v) \<in> set kvs'" for k v
      using that \<open>set kvs' \<subseteq> set kvs\<close> keys assms pv
      by (intro reads_append reads_plain reads_escaped) (force simp: list_all_iff plain_def)+
    then show ?thesis by (auto simp: list_all2_conv_all_nth case_prod_unfold dest!: nth_mem)
  qed
  moreover have "reads_as (''port='' @ decimal n) (''port='' @ decimal n)" for n
    using plain_decimal [of n] by (intro reads_plain) (simp add: plain_def)
  ultimately have "list_all2 reads_as
      ((if 0 < port then [''port='' @ decimal (nat port)] else []) @
        map (\<lambda>(k, v). k @ ''='' @ escape_value v) (filter (\<lambda>(k, v). v \<noteq> '''') kvs))
      (pq_fields db direct)"
    unfolding pq_fields_def pv by (simp add: list_all2_appendI)
  moreover have "filter (\<lambda>(k, v). v \<noteq> '''') kvs \<noteq> []" using last by (auto simp: filter_empty_conv)
  ultimately show ?thesis unfolding ToPQString_def pv by (simp add: read_join)
qed

definition wit_db :: DB where
  "wit_db = \<lparr>Host = ''db'', Port = 5432, User = '''', Password = ''a b'', DBName = ''p'', SSLMode = '''',
     SSLCert = '''', SSLKey = '''', SSLRootCert = '''',
     SessionPooled = \<lparr>Host = ''pool'', Port = 0, User = '''', Password = '''', DBName = '''', SSLMode = '''',
       SSLCert = '''', SSLKey = '''', SSLRootCert = ''''\<rparr>, HostNoProxy = '''', PortNoProxy = 0\<rparr>"

theorem ToPQString_reads_back_witness:
  "read_fields '''' (ToPQString wit_db True)
     = [''port=5432'', ''host=pool'', ''password=a b'', ''dbname=p'', ''binary_parameters=yes'']"
proof -
  have "list_all (\<lambda>(k, v). CHR 0x5C \<notin> set v) (snd (pq_values wit_db True))" by code_simp
  from ToPQString_reads_back [OF this] have "read_fields '''' (ToPQString wit_db True) = pq_fields wit_db True" .
  also have "\<dots> = [''port=5432'', ''host=pool'', ''password=a b'', ''dbname=p'', ''binary_parameters=yes'']"
    unfolding pq_fields_def
    by (simp add: pq_values_def wit_db_def Let_def decimal.simps [of "5432"] decimal.simps [of "543"]
        decimal.simps [of "54"] decimal.simps [of "5"] char_of_def bit_0)
  finally show ?thesis .
qed

text \<open>A backslash in a value is not escaped, so a value that has one is not read back.\<close>

lemma ToPQString_loses_backslash:
  "\<exists>db. read_fields '''' (ToPQString db False) \<noteq> pq_fields db False"
proof
  let ?db = "wit_db\<lparr>Port := 0, Password := [CHR 0x5C, CHR ''a'']\<rparr>"
  show "read_fields '''' (ToPQString ?db False) \<noteq> pq_fields ?db False" by code_simp
qed

end
