(* ===== verification/Router_Props.thy ===== *)
theory Router_Props
  imports Router Praefect_Config_Props
begin

text \<open>
  What the per-repository router guarantees, and the contract of routes that the coordinator
  relies on.
\<close>

section \<open>The contract of a mutator route\<close>

text \<open>No storage plays two roles in a route.\<close>

definition route_wf :: "RepositoryMutatorRoute \<Rightarrow> bool" where
  "route_wf x \<longleftrightarrow>
     distinct (Storage (Primary x) # map Storage (Secondaries x) @ ReplicationTargets x)"

locale mutator_router =
  fixes router_wf :: "'r \<Rightarrow> bool"
    and route :: "'r \<Rightarrow> string \<Rightarrow> string \<Rightarrow> route_error + RepositoryMutatorRoute"
  assumes route_ok: "router_wf r \<Longrightarrow> route r virtualStorage relativePath = Inr x \<Longrightarrow> route_wf x"
begin

lemma participants_distinct:
  assumes "router_wf r" and "route r virtualStorage relativePath = Inr x"
  shows "distinct (map Storage (Primary x # Secondaries x))"
  using route_ok [OF assms] by (simp add: route_wf_def)

lemma target_does_not_participate:
  assumes "router_wf r" and "route r virtualStorage relativePath = Inr x"
    and "t \<in> set (ReplicationTargets x)"
  shows "t \<notin> Storage ` set (Primary x # Secondaries x)"
  using route_ok [OF assms(1,2)] assms(3) by (auto simp: route_wf_def)

end

section \<open>Healthy nodes\<close>

definition router_ok :: "PerRepositoryRouter \<Rightarrow> bool" where
  "router_ok r \<longleftrightarrow>
     (\<forall>vs cs. map_of (conns r) vs = Some cs \<longrightarrow> gowf cs) \<and>
     (\<forall>vs path assigned. ag_GetHostAssignments r vs path = Inr assigned \<longrightarrow> distinct assigned) \<and>
     (\<forall>ns. mset (rand_Shuffle r ns) = mset ns) \<and> (\<forall>n>0. rand_Intn r n < n)"

lemma connect_nodes_Inr:
  "connect_nodes vs cs hs = Inr ns \<Longrightarrow>
     map Storage ns = hs \<and> (\<forall>n\<in>set ns. map_of cs (Storage n) = Some (Connection n))"
  by (induction vs cs hs arbitrary: ns rule: connect_nodes.induct)
    (auto split: option.splits sum.splits)

lemma healthyNodes_Inr:
  assumes "healthyNodes r vs = Inr ns"
  shows "ns \<noteq> []" and "\<exists>cs. map_of (conns r) vs = Some cs \<and> (\<forall>n\<in>set ns. map_of cs (Storage n) = Some (Connection n))"
    and "map_of (hc_HealthyNodes r) vs = Some (map Storage ns)"
proof -
  from assms obtain cs where cs: "map_of (conns r) vs = Some cs" and ns: "ns \<noteq> []"
    and "connect_nodes vs cs (case map_of (hc_HealthyNodes r) vs of None \<Rightarrow> [] | Some hs \<Rightarrow> hs) = Inr ns"
    by (auto simp: healthyNodes_def split: option.splits sum.splits list.splits)
  from connect_nodes_Inr [OF this(3)] ns cs show "ns \<noteq> []"
    and "\<exists>cs. map_of (conns r) vs = Some cs \<and> (\<forall>n\<in>set ns. map_of cs (Storage n) = Some (Connection n))"
    and "map_of (hc_HealthyNodes r) vs = Some (map Storage ns)"
    by (auto split: option.splits)
qed

lemma pickRandom_Inr:
  assumes "router_ok r" and "pickRandom r ns = Inr n"
  shows "n \<in> set ns"
  using assms by (auto simp: pickRandom_def router_ok_def split: if_splits)

lemma pickRandom_ok: "(\<exists>n. pickRandom r ns = Inr n) \<longleftrightarrow> ns \<noteq> []"
  by (simp add: pickRandom_def)

definition wit_router :: PerRepositoryRouter where
  "wit_router = \<lparr>conns = [(''v'', [(''a'', Some 1), (''b'', Some 2), (''c'', Some 3)])],
     ag_GetHostAssignments = (\<lambda>_ _. Inr [''a'', ''b'', ''c'']),
     pg_GetPrimary = (\<lambda>_ _. Inr ''a''), rand_Intn = (\<lambda>n. 0), rand_Shuffle = rev,
     hc_HealthyNodes = [(''v'', [''a'', ''b''])],
     csg_GetConsistentStorages = (\<lambda>_ _. Inr [''b'', ''a'', ''c'']),
     rs_GetRepositoryID = (\<lambda>_ _. Inr 7), rs_ReserveRepositoryID = (\<lambda>_ _. Inr 8),
     defaultReplicationFactors = [(''v'', 3)]\<rparr>"

lemma wit_router_ok: "router_ok wit_router"
  by (auto simp: router_ok_def wit_router_def gowf_def)

section \<open>Accessors\<close>

text \<open>
  A repository accessor is routed to a healthy node of the virtual storage: to the primary when
  that is asked for, to a consistent replica otherwise; and it is routed whenever there is such a
  node.
\<close>

theorem accessor_route:
  assumes "router_ok r" and "healthyNodes r vs = Inr ns" and "pg_GetPrimary r vs path = Inr primary"
    and "csg_GetConsistentStorages r vs path = Inr consistent"
  shows "(case RouteRepositoryAccessor r vs path forcePrimary of
      Inr node \<Rightarrow> node \<in> set ns \<and>
        (if forcePrimary then Storage node = primary else Storage node \<in> set consistent)
    | Inl err \<Rightarrow> list_all (\<lambda>node. if forcePrimary then Storage node \<noteq> primary
          else Storage node \<notin> set consistent) ns)"
proof (cases forcePrimary)
  case True
  with assms show ?thesis
    by (auto simp: RouteRepositoryAccessor_def list_all_iff find_None_iff split: option.splits
        dest!: find_Some_iff [THEN iffD1])
next
  case False
  let ?ns = "filter (\<lambda>node. Storage node \<in> set consistent) ns"
  show ?thesis
  proof (cases "pickRandom r ?ns")
    case (Inr node)
    with pickRandom_Inr [OF assms(1) Inr] False assms(2,4) show ?thesis
      by (simp add: RouteRepositoryAccessor_def)
  next
    case (Inl err)
    then have "?ns = []" by (simp add: pickRandom_def split: if_splits)
    with Inl False assms(2,4) show ?thesis
      by (auto simp: RouteRepositoryAccessor_def filter_empty_conv list_all_iff)
  qed
qed

theorem accessor_route_witness:
  "(case RouteRepositoryAccessor wit_router ''v'' ''p'' False of
      Inr node \<Rightarrow> node \<in> set [\<lparr>Storage = ''a'', Connection = Some 1\<rparr>, \<lparr>Storage = ''b'', Connection = Some 2\<rparr>] \<and>
        (if False then Storage node = ''a'' else Storage node \<in> set [''b'', ''a'', ''c''])
    | Inl err \<Rightarrow> list_all (\<lambda>node. if False then Storage node \<noteq> ''a''
          else Storage node \<notin> set [''b'', ''a'', ''c''])
        [\<lparr>Storage = ''a'', Connection = Some 1\<rparr>, \<lparr>Storage = ''b'', Connection = Some 2\<rparr>])"
  by (rule accessor_route [OF wit_router_ok]) (simp_all add: wit_router_def healthyNodes_def)

section \<open>Mutators\<close>

lemma healthySet_lookup:
  fixes ns :: "RouterNode list"
  defines "hs \<equiv> fold (\<lambda>node m. AList.update (Storage node) node m) ns []"
  shows "map_of hs a = Some n \<Longrightarrow> n \<in> set ns \<and> Storage n = a"
    and "map_of hs a = None \<longleftrightarrow> a \<notin> Storage ` set ns"
proof -
  have some: "map_of (fold (\<lambda>node m. AList.update (Storage node) node m) ns m) a = Some n \<Longrightarrow>
      n \<in> set ns \<and> Storage n = a \<or> map_of m a = Some n" for m
  proof (induction ns arbitrary: m)
    case (Cons k ns)
    from Cons.IH [of "AList.update (Storage k) k m"] Cons.prems show ?case
      by (auto simp: update_conv split: if_splits)
  qed simp
  have none: "map_of (fold (\<lambda>node m. AList.update (Storage node) node m) ns m) a = None \<longleftrightarrow>
      a \<notin> Storage ` set ns \<and> map_of m a = None" for m
    by (induction ns arbitrary: m) (auto simp: update_conv)
  show "map_of hs a = Some n \<Longrightarrow> n \<in> set ns \<and> Storage n = a"
    and "map_of hs a = None \<longleftrightarrow> a \<notin> Storage ` set ns"
    unfolding hs_def using some [of "[]"] none [of "[]"] by auto
qed

definition participates :: "(string, RouterNode) gomap \<Rightarrow> string list \<Rightarrow> string \<Rightarrow> bool" where
  "participates hs consistent a \<longleftrightarrow> (\<exists>n. map_of hs a = Some n \<and> Storage n \<in> set consistent)"

lemma fold_route_assigned:
  "fold (route_assigned p hs consistent) assigned x =
     x\<lparr>Primary := (if p \<in> set assigned
         then (case map_of hs p of None \<Rightarrow> zeroNode | Some n \<Rightarrow> n) else Primary x),
       Secondaries := Secondaries x @ map (\<lambda>a. the (map_of hs a))
         (filter (\<lambda>a. a \<noteq> p \<and> participates hs consistent a) assigned),
       ReplicationTargets := ReplicationTargets x @
         filter (\<lambda>a. a \<noteq> p \<and> \<not> participates hs consistent a) assigned\<rparr>"
proof (induction assigned arbitrary: x)
  case (Cons a assigned)
  show ?case
    by (simp only: fold.simps comp_def Cons.IH)
      (auto simp: route_assigned_def Let_def participates_def split: option.splits)
qed simp

definition up_to_date :: "RouterNode list \<Rightarrow> string list \<Rightarrow> string \<Rightarrow> bool" where
  "up_to_date ns consistent a \<longleftrightarrow> a \<in> Storage ` set ns \<and> a \<in> set consistent"

lemma mutator_route_spec:
  assumes "healthyNodes r vs = Inr ns" and "pg_GetPrimary r vs path = Inr primary"
    and "csg_GetConsistentStorages r vs path = Inr consistent"
    and "ag_GetHostAssignments r vs path = Inr assigned"
    and "RouteRepositoryMutator r vs path = Inr x"
  shows "Storage (Primary x) = primary \<and> primary \<in> set assigned \<and> up_to_date ns consistent primary \<and>
    set (Primary x # Secondaries x) \<subseteq> set ns \<and>
    map Storage (Secondaries x) = filter (\<lambda>a. a \<noteq> primary \<and> up_to_date ns consistent a) assigned \<and>
    ReplicationTargets x = filter (\<lambda>a. a \<noteq> primary \<and> \<not> up_to_date ns consistent a) assigned"
proof -
  let ?hs = "fold (\<lambda>node m. AList.update (Storage node) node m) ns []"
  note hs = healthySet_lookup [of ns]
  from assms(1-5) obtain rid where prim: "map_of ?hs primary \<noteq> None" "primary \<in> set consistent"
    and x: "x = fold (route_assigned primary ?hs consistent) assigned
      \<lparr>RepositoryID = rid, Primary = zeroNode, Secondaries = [], ReplicationTargets = []\<rparr>"
    and nz: "Primary x \<noteq> zeroNode"
    by (auto simp: RouteRepositoryMutator_def Let_def split: sum.splits if_splits)
  have part: "participates ?hs consistent a = up_to_date ns consistent a" for a
    using hs(1) [of a] hs(2) [of a]
    by (cases "map_of ?hs a") (auto simp: participates_def up_to_date_def)
  have primary: "primary \<in> set assigned" "map_of ?hs primary = Some (Primary x)"
    using x nz prim(1) by (auto simp: fold_route_assigned split: if_splits)
  have node: "the (map_of ?hs a) \<in> set ns \<and> Storage (the (map_of ?hs a)) = a" if "up_to_date ns consistent a" for a
  proof (cases "map_of ?hs a")
    case None
    with that hs(2) [of a] show ?thesis by (simp add: up_to_date_def)
  next
    case (Some n)
    with hs(1) [OF Some] show ?thesis by simp
  qed
  have "map Storage (Secondaries x) = filter (\<lambda>a. a \<noteq> primary \<and> up_to_date ns consistent a) assigned"
    unfolding x fold_route_assigned part
    by (simp, rule map_idI) (auto simp: node)
  moreover have "set (Secondaries x) \<subseteq> set ns"
    unfolding x fold_route_assigned part by (auto simp: node)
  moreover have "ReplicationTargets x = filter (\<lambda>a. a \<noteq> primary \<and> \<not> up_to_date ns consistent a) assigned"
    unfolding x fold_route_assigned part by simp
  ultimately show ?thesis using primary hs(1) [OF primary(2)] prim by (auto simp: up_to_date_def)
qed

text \<open>
  C12. A mutator of an existing repository goes to the repository's primary, which is healthy,
  consistent and assigned; the secondaries that take part are exactly the other assigned storages
  that are healthy and consistent, and all remaining assigned storages get the change by
  replication.
\<close>

theorem mutator_route:
  assumes "healthyNodes r vs = Inr ns" and "pg_GetPrimary r vs path = Inr primary"
    and "csg_GetConsistentStorages r vs path = Inr consistent"
    and "ag_GetHostAssignments r vs path = Inr assigned"
    and "RouteRepositoryMutator r vs path = Inr x"
  shows "Storage (Primary x) = primary \<and> primary \<in> set assigned \<and> up_to_date ns consistent primary \<and>
    set (Primary x # Secondaries x) \<subseteq> set ns \<and>
    map Storage (Secondaries x) = filter (\<lambda>a. a \<noteq> primary \<and> up_to_date ns consistent a) assigned \<and>
    ReplicationTargets x = filter (\<lambda>a. a \<noteq> primary \<and> \<not> up_to_date ns consistent a) assigned"
  using assms by (rule mutator_route_spec)

definition wit_route :: RepositoryMutatorRoute where
  "wit_route = \<lparr>RepositoryID = 7, Primary = \<lparr>Storage = ''a'', Connection = Some 1\<rparr>,
     Secondaries = [\<lparr>Storage = ''b'', Connection = Some 2\<rparr>], ReplicationTargets = [''c'']\<rparr>"

definition wit_healthy :: "RouterNode list" where
  "wit_healthy = [\<lparr>Storage = ''a'', Connection = Some 1\<rparr>, \<lparr>Storage = ''b'', Connection = Some 2\<rparr>]"

lemma wit_healthyNodes: "healthyNodes wit_router ''v'' = Inr wit_healthy"
  by (simp add: healthyNodes_def wit_router_def wit_healthy_def)

theorem mutator_route_witness:
  "Storage (Primary wit_route) = ''a'' \<and> ''a'' \<in> set [''a'', ''b'', ''c''] \<and>
    up_to_date wit_healthy [''b'', ''a'', ''c''] ''a'' \<and>
    set (Primary wit_route # Secondaries wit_route) \<subseteq> set wit_healthy \<and>
    map Storage (Secondaries wit_route) = filter (\<lambda>a. a \<noteq> ''a'' \<and>
      up_to_date wit_healthy [''b'', ''a'', ''c''] a) [''a'', ''b'', ''c''] \<and>
    ReplicationTargets wit_route = filter (\<lambda>a. a \<noteq> ''a'' \<and>
      \<not> up_to_date wit_healthy [''b'', ''a'', ''c''] a) [''a'', ''b'', ''c'']"
proof (rule mutator_route [OF wit_healthyNodes])
  show "RouteRepositoryMutator wit_router ''v'' ''p'' = Inr wit_route" by code_simp
qed (simp_all add: wit_router_def)

lemma mutator_route_wf:
  assumes ok: "router_ok r" and route: "RouteRepositoryMutator r vs path = Inr x"
  shows "route_wf x"
proof -
  from route obtain ns primary consistent assigned where
    data: "healthyNodes r vs = Inr ns" "pg_GetPrimary r vs path = Inr primary"
      "csg_GetConsistentStorages r vs path = Inr consistent"
      "ag_GetHostAssignments r vs path = Inr assigned"
    by (auto simp: RouteRepositoryMutator_def Let_def split: sum.splits if_splits)
  have "distinct assigned" using ok data(4) by (simp add: router_ok_def)
  with mutator_route_spec [OF data route] show ?thesis by (auto simp: route_wf_def)
qed

section \<open>Creation\<close>

text \<open>The other nodes, and those of them that are chosen to host the repository.\<close>

definition other_nodes :: "PerRepositoryRouter \<Rightarrow> string \<Rightarrow> RouterNode \<Rightarrow> RouterNode list" where
  "other_nodes r vs primary =
     map (\<lambda>(storage, c). \<lparr>Storage = storage, Connection = c\<rparr>)
       (filter (\<lambda>(storage, c). storage \<noteq> Storage primary)
         (case map_of (conns r) vs of None \<Rightarrow> [] | Some cs \<Rightarrow> cs))"

definition creation_candidates :: "PerRepositoryRouter \<Rightarrow> string \<Rightarrow> RouterNode \<Rightarrow> RouterNode list" where
  "creation_candidates r vs primary =
     (let rf = getz (defaultReplicationFactors r) vs
      in if rf = 1 then []
         else if 0 < rf then take (nat (rf - 1)) (rand_Shuffle r (other_nodes r vs primary))
         else other_nodes r vs primary)"

lemma creation_Inr:
  assumes "RouteRepositoryCreation r vs path = Inr x" and "healthyNodes r vs = Inr ns"
  shows "pickRandom r ns = Inr (Primary x)"
    and "Secondaries x = filter (\<lambda>n. n \<in> set ns) (creation_candidates r vs (Primary x))"
    and "ReplicationTargets x = map Storage (filter (\<lambda>n. n \<notin> set ns) (creation_candidates r vs (Primary x)))"
  using assms
  by (auto simp: RouteRepositoryCreation_def creation_candidates_def other_nodes_def Let_def split: sum.splits if_splits)

lemma candidates_distinct:
  assumes "router_ok r"
  shows "distinct (map Storage (creation_candidates r vs primary))"
    and "Storage primary \<notin> Storage ` set (creation_candidates r vs primary)"
proof -
  let ?all = "other_nodes r vs primary"
  have "gowf (case map_of (conns r) vs of None \<Rightarrow> [] | Some cs \<Rightarrow> cs)"
    using assms by (auto simp: router_ok_def gowf_def split: option.split)
  then have d: "distinct (map Storage ?all)"
    by (simp add: other_nodes_def gowf_def comp_def case_prod_unfold distinct_map_filter)
  have m: "mset (rand_Shuffle r ?all) = mset ?all" using assms by (simp add: router_ok_def)
  then have ms: "mset (map Storage (rand_Shuffle r ?all)) = mset (map Storage ?all)"
    by (simp only: mset_map)
  have "distinct (map Storage (rand_Shuffle r ?all))" using d mset_eq_imp_distinct_iff [OF ms] by blast
  with d show "distinct (map Storage (creation_candidates r vs primary))"
    by (simp add: creation_candidates_def Let_def flip: take_map)
  have "set (creation_candidates r vs primary) \<subseteq> set ?all"
    using mset_eq_setD [OF m] set_take_subset [of _ "rand_Shuffle r ?all"]
    by (auto simp: creation_candidates_def Let_def)
  moreover have "Storage primary \<notin> Storage ` set ?all" by (auto simp: other_nodes_def)
  ultimately show "Storage primary \<notin> Storage ` set (creation_candidates r vs primary)" by blast
qed

lemma creation_route_wf:
  assumes ok: "router_ok r" and route: "RouteRepositoryCreation r vs path = Inr x"
  shows "route_wf x"
proof -
  from route obtain ns where ns: "healthyNodes r vs = Inr ns"
    by (auto simp: RouteRepositoryCreation_def split: sum.splits)
  let ?c = "creation_candidates r vs (Primary x)"
  note x = creation_Inr [OF route ns] and d = candidates_distinct [OF ok, where vs = vs and primary = "Primary x"]
  have inj: "inj_on Storage (set ?c)" "distinct ?c" using d(1) by (simp_all add: distinct_map)
  have "Storage ` set (Secondaries x) \<inter> set (ReplicationTargets x) = {}"
    using inj(1) unfolding x(2,3) by (auto simp: inj_on_def)
  moreover have "distinct (map Storage (Secondaries x))" "distinct (ReplicationTargets x)"
    unfolding x(2,3) using d(1) by (simp_all add: distinct_map_filter)
  moreover have "Storage (Primary x) \<notin> Storage ` set (Secondaries x) \<union> set (ReplicationTargets x)"
    using d(2) unfolding x(2,3) by auto
  ultimately show ?thesis by (auto simp: route_wf_def)
qed

interpretation per_repository_mutator: mutator_router router_ok RouteRepositoryMutator
  by unfold_locales (rule mutator_route_wf)

interpretation per_repository_creation: mutator_router router_ok RouteRepositoryCreation
  by unfold_locales (rule creation_route_wf)

lemma other_nodes_conns:
  assumes "map_of (conns r) vs = Some cs" and "gowf cs"
  shows "n \<in> set (other_nodes r vs primary) \<Longrightarrow> map_of cs (Storage n) = Some (Connection n)"
    and "Storage primary \<in> fst ` set cs \<Longrightarrow> length (other_nodes r vs primary) = length cs - 1"
proof -
  show "map_of cs (Storage n) = Some (Connection n)" if "n \<in> set (other_nodes r vs primary)"
    using that assms by (auto simp: other_nodes_def gowf_def)
  have "length (other_nodes r vs primary) = length (filter (\<lambda>k. k \<noteq> Storage primary) (map fst cs))"
    using assms(1) by (simp add: other_nodes_def filter_map comp_def case_prod_unfold)
  also have "filter (\<lambda>k. k \<noteq> Storage primary) (map fst cs) = remove1 (Storage primary) (map fst cs)"
    using assms(2) by (intro filter_neq_remove1) (simp add: gowf_def)
  finally show "length (other_nodes r vs primary) = length cs - 1" if "Storage primary \<in> fst ` set cs"
    using that by (simp add: length_remove1)
qed

lemma candidates_subset:
  assumes "router_ok r"
  shows "set (creation_candidates r vs primary) \<subseteq> set (other_nodes r vs primary)"
proof -
  have "set (rand_Shuffle r (other_nodes r vs primary)) = set (other_nodes r vs primary)"
    using assms by (intro mset_eq_setD) (simp add: router_ok_def)
  then show ?thesis
    using set_take_subset [of _ "rand_Shuffle r (other_nodes r vs primary)"]
    by (auto simp: creation_candidates_def Let_def)
qed

lemma creation_no_slice:
  assumes "RouteRepositoryCreation r vs path = Inr x" and "1 < getz (defaultReplicationFactors r) vs"
  shows "nat (getz (defaultReplicationFactors r) vs - 1) \<le> length (other_nodes r vs (Primary x))"
  using assms by (auto simp: RouteRepositoryCreation_def other_nodes_def Let_def split: sum.splits if_splits)

lemma candidates_length:
  assumes ok: "router_ok r" and cs: "map_of (conns r) vs = Some cs"
    and p: "Storage (Primary x) \<in> fst ` set cs" and route: "RouteRepositoryCreation r vs path = Inr x"
  shows "1 + length (creation_candidates r vs (Primary x)) =
      (if 0 < getz (defaultReplicationFactors r) vs
       then nat (getz (defaultReplicationFactors r) vs) else length cs)"
proof -
  let ?rf = "getz (defaultReplicationFactors r) vs" and ?all = "other_nodes r vs (Primary x)"
  have "gowf cs" using ok cs by (simp add: router_ok_def)
  then have "length ?all = length cs - 1" by (rule other_nodes_conns(2) [OF cs _ p])
  moreover have "length (rand_Shuffle r ?all) = length ?all"
    using ok by (intro mset_eq_length) (simp add: router_ok_def)
  moreover have "0 < length cs" using p by auto
  ultimately show ?thesis
    using creation_no_slice [OF route] by (auto simp: creation_candidates_def Let_def)
qed

text \<open>
  A repository is created on a healthy primary; the healthy ones of the other chosen storages
  take part, the unhealthy ones get it by replication, and the number of storages is the configured
  replication factor, or all of them when none is configured. No storage plays two roles.
\<close>

theorem creation_route:
  assumes "router_ok r" and "healthyNodes r vs = Inr ns" and "map_of (conns r) vs = Some cs"
    and "RouteRepositoryCreation r vs path = Inr x"
  shows "route_wf x \<and> Primary x \<in> set ns \<and> set (Secondaries x) \<subseteq> set ns \<and>
    set (ReplicationTargets x) \<inter> Storage ` set ns = {} \<and>
    set (ReplicationTargets x) \<union> Storage ` set (Secondaries x) \<subseteq> fst ` set cs \<and>
    1 + length (Secondaries x) + length (ReplicationTargets x) =
      (if 0 < getz (defaultReplicationFactors r) vs
       then nat (getz (defaultReplicationFactors r) vs) else length cs)"
proof -
  note x = creation_Inr [OF assms(4,2)] and ns = healthyNodes_Inr(2) [OF assms(2)]
  let ?c = "creation_candidates r vs (Primary x)"
  have gw: "gowf cs" using assms(1,3) by (simp add: router_ok_def)
  have P: "Primary x \<in> set ns" by (rule pickRandom_Inr [OF assms(1) x(1)])
  have conn: "map_of cs (Storage n) = Some (Connection n)" if "n \<in> set ns \<union> set ?c" for n
  proof (cases "n \<in> set ns")
    case True
    with ns assms(3) show ?thesis by auto
  next
    case False
    with that candidates_subset [OF assms(1), of vs "Primary x"]
    have "n \<in> set (other_nodes r vs (Primary x))" by blast
    then show ?thesis by (rule other_nodes_conns(1) [OF assms(3) gw])
  qed
  have keys: "Storage n \<in> fst ` set cs" if "n \<in> set ns \<union> set ?c" for n
    using map_of_SomeD [OF conn [OF that]] by force
  have same: "n = m" if "n \<in> set ?c" "m \<in> set ns" "Storage n = Storage m" for n m
    using conn [of n] conn [of m] that by simp
  have "length (Secondaries x) + length (ReplicationTargets x) = length ?c"
    unfolding x(2,3) length_map by (rule sum_length_filter_compl)
  moreover have "set (ReplicationTargets x) \<inter> Storage ` set ns = {}"
    unfolding x(3) using same by auto
  moreover have "set (ReplicationTargets x) \<union> Storage ` set (Secondaries x) \<subseteq> fst ` set cs"
    unfolding x(2,3) using keys by auto
  moreover have "set (Secondaries x) \<subseteq> set ns" unfolding x(2) by auto
  ultimately show ?thesis
    using P creation_route_wf [OF assms(1,4)] candidates_length [OF assms(1,3) _ assms(4)] keys [of "Primary x"]
    by simp
qed

definition wit_created :: RepositoryMutatorRoute where
  "wit_created = wit_route\<lparr>RepositoryID := 8\<rparr>"

theorem creation_route_witness:
  "route_wf wit_created \<and> Primary wit_created \<in> set wit_healthy \<and>
    set (Secondaries wit_created) \<subseteq> set wit_healthy \<and>
    set (ReplicationTargets wit_created) \<inter> Storage ` set wit_healthy = {} \<and>
    set (ReplicationTargets wit_created) \<union> Storage ` set (Secondaries wit_created)
      \<subseteq> fst ` set [(''a'', Some (1::nat)), (''b'', Some 2), (''c'', Some 3)] \<and>
    1 + length (Secondaries wit_created) + length (ReplicationTargets wit_created) =
      (if 0 < getz (defaultReplicationFactors wit_router) ''v''
       then nat (getz (defaultReplicationFactors wit_router) ''v'')
       else length [(''a'', Some (1::nat)), (''b'', Some 2), (''c'', Some 3)])"
proof (rule creation_route [OF wit_router_ok wit_healthyNodes])
  show "RouteRepositoryCreation wit_router ''v'' ''p'' = Inr wit_created" by code_simp
qed (simp add: wit_router_def)

lemma healthyNodes_not_slice: "healthyNodes r vs \<noteq> Inl SliceBounds"
proof -
  have "connect_nodes vs cs hs \<noteq> Inl SliceBounds" for cs hs
    by (induction vs cs hs rule: connect_nodes.induct) (auto split: option.splits sum.splits)
  then show ?thesis by (auto simp: healthyNodes_def split: option.splits sum.splits list.splits)
qed

lemma pickRandom_not_slice: "pickRandom r ns \<noteq> Inl SliceBounds"
  by (simp add: pickRandom_def)

text \<open>
  With a configuration that passes validation and connections to its storages, routing a
  creation never takes more secondaries than there are.
\<close>

theorem creation_within_config:
  assumes "Validate c = None" and "v \<in> set (VirtualStorages c)" and "router_ok r"
    and "defaultReplicationFactors r = DefaultReplicationFactors c"
    and cs: "map_of (conns r) (vs_Name v) = Some cs"
    and names: "map fst cs = map node_Storage (Nodes v)"
  shows "RouteRepositoryCreation r (vs_Name v) path \<noteq> Inl SliceBounds"
proof -
  from Validate_accept_storages [OF assms(1)]
  have d: "distinct (map vs_Name (VirtualStorages c))" and "storage_ok v"
    using assms(2) by (auto simp: list_all_iff)
  then have rf: "getz (defaultReplicationFactors r) (vs_Name v) = DefaultReplicationFactor v"
    "DefaultReplicationFactor v \<le> int (length cs)"
    using DefaultReplicationFactors_lookup [OF d assms(2)] names [THEN arg_cong, of length]
    by (simp_all add: assms(4) getz_def storage_ok_def)
  have gw: "gowf cs" using assms(3) cs by (simp add: router_ok_def)
  have room: "\<not> length (other_nodes r (vs_Name v) n) < nat (DefaultReplicationFactor v - 1)"
    if "healthyNodes r (vs_Name v) = Inr ns" "n \<in> set ns" for ns n
  proof -
    have "map_of cs (Storage n) = Some (Connection n)"
      using healthyNodes_Inr(2) [OF that(1)] cs that(2) by auto
    then have "Storage n \<in> fst ` set cs" by (force dest: map_of_SomeD)
    with other_nodes_conns(2) [OF cs gw] rf(2) show ?thesis by (simp add: nat_le_iff of_nat_diff)
  qed
  show ?thesis
  proof
    assume "RouteRepositoryCreation r (vs_Name v) path = Inl SliceBounds"
    then obtain ns n where "healthyNodes r (vs_Name v) = Inr ns" and n: "pickRandom r ns = Inr n"
      and "length (other_nodes r (vs_Name v) n) < nat (DefaultReplicationFactor v - 1)"
      unfolding RouteRepositoryCreation_def other_nodes_def [symmetric]
      by (auto simp: Let_def rf(1) healthyNodes_not_slice pickRandom_not_slice split: sum.splits if_splits)
    with room [of ns n] pickRandom_Inr [OF assms(3) n] show False by simp
  qed
qed

definition wit_config :: Config where
  "wit_config = \<lparr>BatchSize = 1, ListenAddr = ''l'', TLSListenAddr = '''', SocketPath = '''',
     VirtualStorages = [\<lparr>vs_Name = ''v'', Nodes = map (\<lambda>s. \<lparr>node_Storage = s, Address = s, Token = ''''\<rparr>)
       [''a'', ''b'', ''c''], DefaultReplicationFactor = 3\<rparr>], cfg_DB = wit_db,
     cfg_Failover = \<lparr>Enabled = True, fo_ElectionStrategy = ''per_repository'', ErrorThresholdWindow = 0,
       WriteErrorThresholdCount = 0, ReadErrorThresholdCount = 0, BootstrapInterval = 0, MonitorInterval = 0\<rparr>,
     FailoverEnabled = False, MemoryQueueEnabled = False, GracefulStopTimeout = 0\<rparr>"

theorem creation_within_config_witness:
  "RouteRepositoryCreation wit_router (vs_Name (hd (VirtualStorages wit_config))) ''p'' \<noteq> Inl SliceBounds"
proof (rule creation_within_config [OF _ _ wit_router_ok])
  show "Validate wit_config = None" by code_simp
  show "hd (VirtualStorages wit_config) \<in> set (VirtualStorages wit_config)" by (simp add: wit_config_def)
  show "defaultReplicationFactors wit_router = DefaultReplicationFactors wit_config"
    by (simp add: wit_router_def wit_config_def DefaultReplicationFactors_def)
  show "map_of (conns wit_router) (vs_Name (hd (VirtualStorages wit_config)))
      = Some [(''a'', Some 1), (''b'', Some 2), (''c'', Some 3)]"
    by (simp add: wit_router_def wit_config_def)
  show "map fst [(''a'', Some (1::nat)), (''b'', Some 2), (''c'', Some 3)]
      = map node_Storage (Nodes (hd (VirtualStorages wit_config)))"
    by (simp add: wit_config_def)
qed

end
