(* ===== verification/Nodes_Props.thy ===== *)
theory Nodes_Props
  imports Nodes Router_Props
begin

text \<open>
  When a node counts as healthy, what the local elector guarantees, and that the router on top of
  the node manager meets the contract of routes.
\<close>

section \<open>The health window\<close>

lemma statuses_updateStatus:
  "statuses (updateStatus b m) = (if healthcheckThreshold \<le> length (statuses m)
     then tl (statuses m @ [b]) else statuses m @ [b])"
  by (simp add: updateStatus_def Let_def healthcheckThreshold_def)

lemma statuses_fold:
  "statuses (fold updateStatus rs (newConnectionStatus n c)) = lastn healthcheckThreshold rs"
proof (induction rs rule: rev_induct)
  case Nil
  show ?case by (simp add: newConnectionStatus_def lastn_def)
next
  case (snoc x rs)
  then show ?case
    by (simp add: statuses_updateStatus lastn_snoc healthcheckThreshold_def)
qed

text \<open>
  C13. A node is healthy exactly when it has been checked at least three times and its last three
  checks were positive, although only a window of three is kept.
\<close>

theorem healthy_iff_last_three:
  "IsHealthy (fold updateStatus rs (newConnectionStatus n c)) \<longleftrightarrow>
     3 \<le> length rs \<and> list_all id (drop (length rs - 3) rs)"
proof -
  let ?n = "fold updateStatus rs (newConnectionStatus n c)"
  have "statuses ?n = drop (length rs - 3) rs"
    using statuses_fold [of rs n c] by (simp add: lastn_def healthcheckThreshold_def)
  then show ?thesis by (auto simp: IsHealthy_def healthcheckThreshold_def)
qed

section \<open>Election\<close>

definition elector_ok :: "localElector \<Rightarrow> bool" where
  "elector_ok s \<longleftrightarrow> primaryNode s < length (le_nodes s) \<and> distinct (map GetStorage (le_nodes s))"

lemma updateStatus_node [simp]: "ns_node (updateStatus b n) = ns_node n"
  by (simp add: updateStatus_def Let_def)

lemma checkNodes_nodes:
  assumes "length serving = length (le_nodes s)"
  shows "le_nodes (fst (checkNodes serving s)) = map2 updateStatus serving (le_nodes s)"
    and "map GetStorage (le_nodes (fst (checkNodes serving s))) = map GetStorage (le_nodes s)"
proof -
  show eq: "le_nodes (fst (checkNodes serving s)) = map2 updateStatus serving (le_nodes s)"
    by (simp add: checkNodes_def Let_def CheckHealth_def split: option.split)
  show "map GetStorage (le_nodes (fst (checkNodes serving s))) = map GetStorage (le_nodes s)"
    unfolding eq using assms by (induction rule: list_induct2) auto
qed

lemma mset_primary_others:
  assumes "p < length xs"
  shows "mset (xs ! p # map (nth xs) (filter (\<lambda>i. i \<noteq> p) [0..<length xs])) = mset xs"
proof -
  have "filter (\<lambda>i. i \<noteq> p) [0..<length xs] = remove1 p [0..<length xs]"
    by (rule filter_neq_remove1) simp
  then have "add_mset p (mset (filter (\<lambda>i. i \<noteq> p) [0..<length xs])) = mset [0..<length xs]"
    using assms by simp
  then have "mset (map (nth xs) (p # filter (\<lambda>i. i \<noteq> p) [0..<length xs])) = mset (map (nth xs) [0..<length xs])"
    by (simp only: mset_map mset.simps)
  then show ?thesis by (simp only: list.map map_nth)
qed

lemma le_GetShard_Inr:
  assumes "primaryNode s < length (le_nodes s)"
  shows "le_GetShard s = Inr shard \<Longrightarrow> IsHealthy (sh_Primary shard) \<and>
      mset (sh_Primary shard # sh_Secondaries shard) = mset (le_nodes s)"
    and "IsHealthy (le_nodes s ! primaryNode s) \<Longrightarrow> \<exists>shard. le_GetShard s = Inr shard"
  using mset_primary_others [OF assms]
  by (auto simp: le_GetShard_def le_secondaries_def split: if_splits)

lemma checkNodes_cases:
  assumes p: "primaryNode s < length (le_nodes s)" and len: "length serving = length (le_nodes s)"
    and check: "checkNodes serving s = (s', err)"
  obtains (kept) "primaryNode s' = primaryNode s" "IsHealthy (le_nodes s' ! primaryNode s)" "err = None"
  | (elected) "\<not> IsHealthy (le_nodes s' ! primaryNode s)" "IsHealthy (le_nodes s' ! primaryNode s')"
      "primaryNode s' < length (le_nodes s)" "err = None"
  | (failed) "primaryNode s' = primaryNode s" "err = Some ErrPrimaryNotHealthy"
      "\<not> list_ex IsHealthy (le_nodes s')"
proof -
  let ?ns = "map2 updateStatus serving (le_nodes s)"
  have ns: "le_nodes s' = ?ns" using checkNodes_nodes(1) [OF len] check by simp
  have l: "length ?ns = length (le_nodes s)" using len by simp
  let ?find = "find (\<lambda>i. i \<noteq> primaryNode s \<and> IsHealthy (?ns ! i)) [0..<length ?ns]"
  have eq: "checkNodes serving s = (let s = s\<lparr>le_nodes := ?ns\<rparr> in
      if IsHealthy (?ns ! primaryNode s) then (s, None)
      else case ?find of None \<Rightarrow> (s, Some ErrPrimaryNotHealthy) | Some i \<Rightarrow> (s\<lparr>primaryNode := i\<rparr>, None))"
    by (simp add: checkNodes_def CheckHealth_def Let_def)
  show thesis
  proof (cases "IsHealthy (?ns ! primaryNode s)")
    case True
    with check eq have "primaryNode s' = primaryNode s" "err = None" by (auto simp: Let_def)
    with True ns show thesis by (intro kept) auto
  next
    case unhealthy: False
    show thesis
    proof (cases ?find)
      case None
      then have none: "\<not> IsHealthy (?ns ! i)" if "i < length ?ns" for i
        using that unhealthy by (cases "i = primaryNode s") (auto simp: find_None_iff)
      have "primaryNode s' = primaryNode s" "err = Some ErrPrimaryNotHealthy"
        using None unhealthy check eq by (auto simp: Let_def)
      moreover have "\<not> list_ex IsHealthy (le_nodes s')"
        using none unfolding ns list_ex_length by blast
      ultimately show thesis by (rule failed)
    next
      case (Some i)
      then have "i < length ?ns" "IsHealthy (?ns ! i)" by (auto simp: find_Some_iff)
      moreover have "primaryNode s' = i" "err = None"
        using Some unhealthy check eq by (auto simp: Let_def)
      ultimately show thesis using unhealthy ns l by (intro elected) auto
    qed
  qed
qed

text \<open>
  A round of checks keeps the elector well formed. It keeps a healthy primary; it replaces an
  unhealthy one by a healthy node; and it fails exactly when no node is healthy, in which case the
  primary stays. A shard is handed out only with a healthy primary, and its secondaries are all
  other nodes.
\<close>

theorem election:
  assumes ok: "elector_ok s" and len: "length serving = length (le_nodes s)"
    and check: "checkNodes serving s = (s', err)"
  shows "elector_ok s' \<and>
    (if IsHealthy (le_nodes s' ! primaryNode s) then primaryNode s' = primaryNode s else True) \<and>
    (err = None \<longleftrightarrow> list_ex IsHealthy (le_nodes s')) \<and>
    (case le_GetShard s' of
       Inl e \<Rightarrow> e = ErrPrimaryNotHealthy \<and> err = Some ErrPrimaryNotHealthy \<and> primaryNode s' = primaryNode s
     | Inr shard \<Rightarrow> err = None \<and> IsHealthy (sh_Primary shard) \<and>
         mset (sh_Primary shard # sh_Secondaries shard) = mset (le_nodes s'))"
proof -
  have p: "primaryNode s < length (le_nodes s)" using ok by (simp add: elector_ok_def)
  have l: "length (le_nodes s') = length (le_nodes s)"
    using checkNodes_nodes(1) [OF len] check len by simp
  have names: "map GetStorage (le_nodes s') = map GetStorage (le_nodes s)"
    using checkNodes_nodes(2) [OF len] check by simp
  from p len check have p': "primaryNode s' < length (le_nodes s')"
    by (rule checkNodes_cases) (use p l in simp_all)
  then have ok': "elector_ok s'" using ok names by (simp add: elector_ok_def)
  have ex: "list_ex IsHealthy (le_nodes s')" if "IsHealthy (le_nodes s' ! primaryNode s')"
    using that p' by (auto simp: list_ex_length)
  from p len check show ?thesis
  proof (rule checkNodes_cases)
    assume "primaryNode s' = primaryNode s" "err = Some ErrPrimaryNotHealthy"
      "\<not> list_ex IsHealthy (le_nodes s')"
    with ok' ex show ?thesis by (auto simp: le_GetShard_def)
  qed (use ok' ex le_GetShard_Inr [OF p'] in \<open>auto split: sum.splits\<close>)
qed

definition wit_node :: "string \<Rightarrow> bool list \<Rightarrow> nodeStatus" where
  "wit_node s st = \<lparr>ns_node = \<lparr>node_Storage = s, Address = s, Token = ''''\<rparr>, clientConn = Some 0, statuses = st\<rparr>"

definition wit_elector :: localElector where
  "wit_elector = \<lparr>le_nodes = [wit_node ''a'' [True, True, True], wit_node ''b'' [True, True, True]],
     primaryNode = 0\<rparr>"

definition wit_elected :: localElector where
  "wit_elected = \<lparr>le_nodes = [wit_node ''a'' [True, True, False], wit_node ''b'' [True, True, True]],
     primaryNode = 1\<rparr>"

theorem election_witness:
  "elector_ok wit_elected \<and>
    (if IsHealthy (le_nodes wit_elected ! primaryNode wit_elector)
     then primaryNode wit_elected = primaryNode wit_elector else True) \<and>
    ((None :: route_error option) = None \<longleftrightarrow> list_ex IsHealthy (le_nodes wit_elected)) \<and>
    (case le_GetShard wit_elected of
       Inl e \<Rightarrow> e = ErrPrimaryNotHealthy \<and> None = Some ErrPrimaryNotHealthy \<and>
         primaryNode wit_elected = primaryNode wit_elector
     | Inr shard \<Rightarrow> (None :: route_error option) = None \<and> IsHealthy (sh_Primary shard) \<and>
         mset (sh_Primary shard # sh_Secondaries shard) = mset (le_nodes wit_elected))"
proof (rule election)
  show "elector_ok wit_elector" by (simp add: elector_ok_def wit_elector_def wit_node_def)
  show "length [False, True] = length (le_nodes wit_elector)" by (simp add: wit_elector_def)
  show "checkNodes [False, True] wit_elector = (wit_elected, None)" by code_simp
qed

section \<open>Routing through the node manager\<close>

definition shard_ok :: "Shard \<Rightarrow> bool" where
  "shard_ok shard \<longleftrightarrow> distinct (map GetStorage (sh_Primary shard # sh_Secondaries shard))"

fun strategy_ok :: "leaderElectionStrategy \<Rightarrow> bool" where
  "strategy_ok (LocalElector s) \<longleftrightarrow> elector_ok s"
| "strategy_ok (DisabledElector de) \<longleftrightarrow> shard_ok (de_shard de)"
| "strategy_ok (SqlElector res) \<longleftrightarrow> (case res of Inl e \<Rightarrow> True | Inr shard \<Rightarrow> shard_ok shard)"

lemma strategy_GetShard_ok:
  assumes "strategy_ok st" and "strategy_GetShard st = Inr shard"
  shows "shard_ok shard"
proof (cases st)
  case (LocalElector s)
  with assms have "elector_ok s" "le_GetShard s = Inr shard" by simp_all
  then have "mset (map GetStorage (sh_Primary shard # sh_Secondaries shard))
      = mset (map GetStorage (le_nodes s))"
    using le_GetShard_Inr(1) [of s shard] by (simp only: mset_map elector_ok_def)
  from mset_eq_imp_distinct_iff [OF this] \<open>elector_ok s\<close> show ?thesis
    by (simp only: shard_ok_def elector_ok_def)
qed (use assms in \<open>auto simp: de_GetShard_def split: if_splits\<close>)

definition nm_ok :: "nodeManagerRouter \<Rightarrow> bool" where
  "nm_ok r \<longleftrightarrow> list_all (\<lambda>(vs, st). strategy_ok st) (strategies (nm_mgr r))"

lemma GetShard_ok:
  assumes "nm_ok r" and "GetShard (nm_mgr r) vs = Inr shard"
  shows "shard_ok shard"
proof -
  from assms(2) obtain st where "map_of (strategies (nm_mgr r)) vs = Some st"
    and st: "strategy_GetShard st = Inr shard"
    by (auto simp: GetShard_def split: option.splits)
  with assms(1) have "strategy_ok st" by (auto simp: nm_ok_def list_all_iff dest: map_of_SomeD)
  from strategy_GetShard_ok [OF this st] show ?thesis .
qed

text \<open>Splitting the secondaries of a shard by any test gives a well-formed route.\<close>

lemma split_route_wf:
  assumes "shard_ok shard"
  shows "route_wf \<lparr>RepositoryID = rid, Primary = toRouterNode (sh_Primary shard),
      Secondaries = map toRouterNode (filter P (sh_Secondaries shard)),
      ReplicationTargets = map GetStorage (filter (\<lambda>s. \<not> P s) (sh_Secondaries shard))\<rparr>"
  using assms
  by (auto simp: route_wf_def shard_ok_def toRouterNode_def distinct_map inj_on_def)

lemma nm_mutator_Inr:
  assumes "nm_RouteRepositoryMutator r vs path = Inr x"
  obtains shard P where "GetShard (nm_mgr r) vs = Inr shard"
    and "x = \<lparr>RepositoryID = 0, Primary = toRouterNode (sh_Primary shard),
      Secondaries = map toRouterNode (filter P (sh_Secondaries shard)),
      ReplicationTargets = map GetStorage (filter (\<lambda>s. \<not> P s) (sh_Secondaries shard))\<rparr>"
proof -
  obtain shard storages where shard: "GetShard (nm_mgr r) vs = Inr shard"
    and "consistent_or_none (nm_GetConsistentStorages r vs path) = Inr storages"
    using assms by (auto simp: nm_RouteRepositoryMutator_def split: sum.splits)
  with assms show thesis
    by (intro that [OF shard, of "\<lambda>s. GetStorage s \<in> set (if storages = []
          then [GetStorage (sh_Primary shard)] else storages) \<and> IsHealthy s"])
      (auto simp: nm_RouteRepositoryMutator_def Let_def toRouterNodes_def split: if_splits)
qed

interpretation node_manager_mutator: mutator_router nm_ok nm_RouteRepositoryMutator
  by unfold_locales (auto elim!: nm_mutator_Inr simp del: de_Morgan_conj intro: split_route_wf GetShard_ok)

interpretation node_manager_creation: mutator_router nm_ok nm_RouteRepositoryCreation
  by unfold_locales
    (auto simp: nm_RouteRepositoryCreation_def split: sum.splits intro: split_route_wf GetShard_ok)

end
