(* ===== verification/Error_Tracker.thy ===== *)
theory Error_Tracker
  imports Praefect_Prelude
begin

text \<open>
  The error tracker that takes nodes with too many errors out of service,
  \<open>internal/praefect/nodes/tracker/errors.go\<close>. A time is an integer, the clock an argument. A map
  that was set to nil is \<open>None\<close>: reading it gives nothing, writing to it panics. \<open>IncrReadErr\<close> and
  \<open>IncrWriteErr\<close> look at the context before they take the lock, so each is two functions.
\<close>

section \<open>The tracker\<close>

type_synonym time = int

type_synonym err_map = "(string, time list) gomap option"

record errorTracker =
  errorWindow :: int
  writeThreshold :: nat
  readThreshold :: nat
  readErrors :: err_map
  writeErrors :: err_map

datatype tracker_error = WindowZero | ReadThresholdZero | WriteThresholdZero

definition newErrors :: "int \<Rightarrow> 32 word \<Rightarrow> 32 word \<Rightarrow> tracker_error + errorTracker" where
  "newErrors window readThr writeThr =
     (if window = 0 then Inl WindowZero
      else if readThr = 0 then Inl ReadThresholdZero
      else if writeThr = 0 then Inl WriteThresholdZero
      else Inr \<lparr>errorWindow = window, writeThreshold = unat writeThr, readThreshold = unat readThr,
                readErrors = Some [], writeErrors = Some []\<rparr>)"

definition errors_of :: "err_map \<Rightarrow> string \<Rightarrow> time list" where
  "errors_of m node =
     (case m of None \<Rightarrow> [] | Some errs \<Rightarrow> (case map_of errs node of None \<Rightarrow> [] | Some ts \<Rightarrow> ts))"

definition olderThan :: "errorTracker \<Rightarrow> time \<Rightarrow> time" where
  "olderThan e now = now - errorWindow e"

section \<open>Counting errors\<close>

text \<open>The body under the lock; \<open>None\<close> is the panic of an assignment to a nil map.\<close>

definition add_error :: "nat \<Rightarrow> string \<Rightarrow> time \<Rightarrow> err_map \<Rightarrow> err_map option" where
  "add_error thr node now m =
     (case m of
        None \<Rightarrow> None
      | Some errs \<Rightarrow>
          (let ts = errors_of m node @ [now]; ts = (if thr < length ts then tl ts else ts)
           in Some (Some (AList.update node ts errs))))"

definition IncrReadErr :: "string \<Rightarrow> time \<Rightarrow> errorTracker \<Rightarrow> errorTracker option" where
  "IncrReadErr node now e =
     map_option (\<lambda>m. e\<lparr>readErrors := m\<rparr>) (add_error (readThreshold e) node now (readErrors e))"

definition IncrWriteErr :: "string \<Rightarrow> time \<Rightarrow> errorTracker \<Rightarrow> errorTracker option" where
  "IncrWriteErr node now e =
     map_option (\<lambda>m. e\<lparr>writeErrors := m\<rparr>) (add_error (writeThreshold e) node now (writeErrors e))"

section \<open>Reading the thresholds\<close>

text \<open>The loop that looks for the first error after \<open>oldest\<close>, from index \<open>i\<close> of \<open>all\<close> on.\<close>

fun reached_from :: "nat \<Rightarrow> time \<Rightarrow> time list \<Rightarrow> nat \<Rightarrow> time list \<Rightarrow> bool" where
  "reached_from thr oldest all i [] = False"
| "reached_from thr oldest all i (errTime # rest) =
     (if oldest < errTime then
        (if i = 0 then thr \<le> length all else thr \<le> length (drop (i - 1) all))
      else reached_from thr oldest all (Suc i) rest)"

definition ReadThresholdReached :: "bool \<Rightarrow> time \<Rightarrow> errorTracker \<Rightarrow> string \<Rightarrow> bool" where
  "ReadThresholdReached ctxDone now e node =
     (if ctxDone then False
      else reached_from (readThreshold e) (olderThan e now) (errors_of (readErrors e) node) 0
             (errors_of (readErrors e) node))"

definition WriteThresholdReached :: "bool \<Rightarrow> time \<Rightarrow> errorTracker \<Rightarrow> string \<Rightarrow> bool" where
  "WriteThresholdReached ctxDone now e node =
     (if ctxDone then False
      else reached_from (writeThreshold e) (olderThan e now) (errors_of (writeErrors e) node) 0
             (errors_of (writeErrors e) node))"

section \<open>Clearing\<close>

fun clear_times :: "time \<Rightarrow> time list \<Rightarrow> time list" where
  "clear_times oldest [] = []"
| "clear_times oldest (errTime # rest) =
     (if oldest < errTime then errTime # rest else clear_times oldest rest)"

definition clearErrors :: "time \<Rightarrow> err_map \<Rightarrow> err_map" where
  "clearErrors oldest m = map_option (map (\<lambda>(node, errs). (node, clear_times oldest errs))) m"

definition clear :: "time \<Rightarrow> errorTracker \<Rightarrow> errorTracker" where
  "clear now e =
     e\<lparr>writeErrors := clearErrors (olderThan e now) (writeErrors e),
       readErrors := clearErrors (olderThan e now) (readErrors e)\<rparr>"

text \<open>What \<open>periodicallyClear\<close> does when the context is done.\<close>

definition shutdown :: "errorTracker \<Rightarrow> errorTracker" where
  "shutdown e = e\<lparr>readErrors := None, writeErrors := None\<rparr>"

section \<open>What the tracker reports\<close>

text \<open>The stored errors of a node after errors at the times \<open>ts\<close>.\<close>

fun incr_all :: "string \<Rightarrow> time list \<Rightarrow> errorTracker \<Rightarrow> errorTracker option" where
  "incr_all node [] e = Some e"
| "incr_all node (t # ts) e =
     (case IncrReadErr node t e of None \<Rightarrow> None | Some e' \<Rightarrow> incr_all node ts e')"

lemma IncrReadErr_some:
  assumes "readErrors e \<noteq> None" and "0 < readThreshold e"
  shows "\<exists>e'. IncrReadErr node t e = Some e' \<and> readErrors e' \<noteq> None \<and>
    readThreshold e' = readThreshold e \<and> errorWindow e' = errorWindow e \<and>
    errors_of (readErrors e') node =
      (let ts = errors_of (readErrors e) node @ [t] in if readThreshold e < length ts then tl ts else ts)"
  using assms by (auto simp: IncrReadErr_def add_error_def errors_of_def Let_def update_conv
      split: option.splits)

lemma incr_all_errors:
  assumes "readErrors e \<noteq> None" and "0 < readThreshold e"
    and "errors_of (readErrors e) node = lastn (readThreshold e) old"
  shows "\<exists>e'. incr_all node ts e = Some e' \<and> readThreshold e' = readThreshold e \<and>
    errorWindow e' = errorWindow e \<and>
    errors_of (readErrors e') node = lastn (readThreshold e) (old @ ts)"
  using assms
proof (induction ts arbitrary: e old)
  case (Cons t ts)
  from IncrReadErr_some [OF Cons.prems(1,2), of node t] obtain e' where e':
    "IncrReadErr node t e = Some e'" "readErrors e' \<noteq> None" "readThreshold e' = readThreshold e"
    "errorWindow e' = errorWindow e" "errors_of (readErrors e') node =
      (let ts = errors_of (readErrors e) node @ [t] in if readThreshold e < length ts then tl ts else ts)"
    by blast
  have "errors_of (readErrors e') node = lastn (readThreshold e) (old @ [t])"
    unfolding e'(5) Cons.prems(3) lastn_snoc [OF Cons.prems(2)] by (simp add: Let_def)
  with Cons.IH [of e' "old @ [t]"] e'(1-4) Cons.prems(2) show ?case by simp
qed simp

text \<open>In a sorted list the errors in the window are a suffix.\<close>

lemma reached_sorted:
  assumes "sorted l"
  shows "reached_from thr oldest all i l \<longleftrightarrow>
    (let k = i + length (filter (\<lambda>t. \<not> oldest < t) l); n = length (filter (\<lambda>t. oldest < t) l)
     in 0 < n \<and> thr \<le> length all - (k - 1))"
  using assms
proof (induction l arbitrary: i)
  case (Cons t l)
  show ?case
  proof (cases "oldest < t")
    case True
    with Cons.prems have "filter (\<lambda>t. \<not> oldest < t) l = []" by (auto simp: filter_empty_conv)
    with True show ?thesis by (simp add: Let_def)
  next
    case False
    with Cons show ?thesis by (simp add: Let_def)
  qed
qed simp

lemma filter_lastn_sorted:
  assumes "sorted ts"
  shows "length (filter (\<lambda>t. c < t) (lastn k ts)) = min k (length (filter (\<lambda>t. c < t) ts))"
proof -
  let ?xs = "take (length ts - k) ts" and ?ys = "lastn k ts"
  have ts: "ts = ?xs @ ?ys" by (simp add: lastn_def)
  have split: "filter (\<lambda>t. c < t) ts = filter (\<lambda>t. c < t) ?xs @ filter (\<lambda>t. c < t) ?ys"
    by (subst ts) (simp only: filter_append)
  show ?thesis
  proof (cases "filter (\<lambda>t. c < t) ?xs = []")
    case True
    have "length (filter (\<lambda>t. c < t) ?ys) \<le> k" by (rule le_trans [OF length_filter_le]) simp
    with True split show ?thesis by simp
  next
    case False
    then obtain x where x: "x \<in> set ?xs" "c < x" by (auto simp: filter_empty_conv)
    have "sorted (?xs @ ?ys)" using assms ts by simp
    with x have "\<forall>y\<in>set ?ys. c < y" by (fastforce simp: sorted_append)
    then have "filter (\<lambda>t. c < t) ?ys = ?ys" by simp
    moreover have "?xs \<noteq> []" using x by auto
    then have "length ?ys = k" by (simp add: min_def)
    ultimately show ?thesis using split by simp
  qed
qed

lemma sorted_lastn: "sorted ts \<Longrightarrow> sorted (lastn k ts)"
  by (simp add: lastn_def sorted_wrt_drop)

lemma window_arith:
  fixes n k thr len :: nat
  assumes "n + k = min thr len" and "0 < thr"
  shows "0 < n \<and> thr \<le> min thr len - (k - 1) \<longleftrightarrow> thr \<le> len \<and> max 1 (thr - 1) \<le> n"
  using assms by (auto simp: min_def max_def split: if_splits)

text \<open>
  After errors of a node at the times \<open>ts\<close>, in order, the read threshold is reported as reached
  exactly when there have been at least as many errors as the threshold and at least one fewer than
  the threshold, but one at least, are in the time window.
\<close>

theorem read_threshold_reached:
  assumes "newErrors window readThr writeThr = Inr e0" and "sorted ts"
    and "incr_all node ts e0 = Some e"
  shows "ReadThresholdReached False now e node \<longleftrightarrow>
    unat readThr \<le> length ts \<and>
    max 1 (unat readThr - 1) \<le> length (filter (\<lambda>t. now - window < t) ts)"
proof -
  let ?thr = "unat readThr" and ?c = "now - window"
  have e0: "readThreshold e0 = ?thr" "errorWindow e0 = window" "readErrors e0 = Some []" "0 < ?thr"
    using assms(1) by (auto simp: newErrors_def unat_gt_0 split: if_splits)
  have "errors_of (readErrors e0) node = lastn (readThreshold e0) []"
    using e0 by (simp add: errors_of_def lastn_def)
  with incr_all_errors [of e0 node "[]" ts] assms(3) e0 have e: "readThreshold e = ?thr"
    "errorWindow e = window" "errors_of (readErrors e) node = lastn ?thr ts"
    by auto
  let ?l = "lastn ?thr ts"
  let ?k = "length (filter (\<lambda>t. \<not> ?c < t) ?l)" and ?n = "length (filter (\<lambda>t. ?c < t) ?l)"
  have sum: "?n + ?k = min ?thr (length ts)"
    using sum_length_filter_compl [of "\<lambda>t. ?c < t" ?l] by simp
  have n: "?n = min ?thr (length (filter (\<lambda>t. ?c < t) ts))"
    by (rule filter_lastn_sorted [OF assms(2)])
  have "ReadThresholdReached False now e node \<longleftrightarrow> 0 < ?n \<and> ?thr \<le> min ?thr (length ts) - (?k - 1)"
    using reached_sorted [OF sorted_lastn [OF assms(2)], of ?thr ?c ?l 0 ?thr]
    by (simp add: ReadThresholdReached_def olderThan_def e Let_def)
  also have "\<dots> \<longleftrightarrow> ?thr \<le> length ts \<and> max 1 (?thr - 1) \<le> ?n"
    by (rule window_arith [OF sum e0(4)])
  also have "\<dots> \<longleftrightarrow> ?thr \<le> length ts \<and> max 1 (?thr - 1) \<le> length (filter (\<lambda>t. ?c < t) ts)"
    using n e0(4) by (auto simp: min_def split: if_splits)
  finally show ?thesis .
qed

definition wit_tracker :: errorTracker where
  "wit_tracker = \<lparr>errorWindow = 10, writeThreshold = 2, readThreshold = 2,
     readErrors = Some [(''a'', [1, 100])], writeErrors = Some []\<rparr>"

text \<open>At time 105 only one of the two errors is within the window of 10, but the threshold counts as reached.\<close>

theorem read_threshold_reached_witness:
  "ReadThresholdReached False 105 wit_tracker ''a'' \<longleftrightarrow>
    unat (2 :: 32 word) \<le> length [1, 100 :: int] \<and>
    max 1 (unat (2 :: 32 word) - 1) \<le> length (filter (\<lambda>t. 105 - 10 < t) [1, 100 :: int])"
proof (rule read_threshold_reached)
  show "newErrors 10 2 2 = Inr \<lparr>errorWindow = 10, writeThreshold = 2, readThreshold = 2,
     readErrors = Some [], writeErrors = Some []\<rparr>" by (simp add: newErrors_def)
  show "sorted [1, 100 :: int]" by simp
  show "incr_all ''a'' [1, 100] \<lparr>errorWindow = 10, writeThreshold = 2, readThreshold = 2,
     readErrors = Some [], writeErrors = Some []\<rparr> = Some wit_tracker"
    by (simp add: IncrReadErr_def add_error_def errors_of_def wit_tracker_def Let_def)
qed

lemma one_error_in_window_is_enough: "ReadThresholdReached False 105 wit_tracker ''a''"
  by (simp add: ReadThresholdReached_def wit_tracker_def errors_of_def olderThan_def)

lemma incr_after_shutdown_panics: "IncrReadErr node now (shutdown e) = None"
  by (simp add: IncrReadErr_def shutdown_def add_error_def)

end
