(* ===== verification/Repository_Store.thy ===== *)
theory Repository_Store
  imports Praefect_Prelude
begin

text \<open>
  The repository records in Postgres: \<open>internal/praefect/datastore/repository_store.go\<close> and
  \<open>assignment.go\<close>, on the tables of \<open>internal/praefect/datastore/migrations\<close>.

  Each method runs one SQL statement and is one function on the tables. A table is an association
  list keyed by its unique key; a nullable column is an option. Data-modifying \<open>WITH\<close> parts see the
  tables as they were before the statement. Deleting a repository sets the \<open>repository_id\<close> of its
  replicas to null and deletes its assignments; renaming it renames its assignments. Errors of the
  database connection are not modelled. Where a query asks for \<open>random()\<close>, the order is an argument.
\<close>

section \<open>Tables\<close>

type_synonym repo_key = "string \<times> string"

type_synonym replica_key = "string \<times> string \<times> string"

record repo_row =
  rr_id :: int
  rr_generation :: "int option"
  rr_primary :: "string option"
  rr_replica_path :: "string option"

record replica_row =
  sr_id :: "int option"
  sr_generation :: int

record repo_db =
  repositories :: "(repo_key, repo_row) gomap"
  storage_repositories :: "(replica_key, replica_row) gomap"
  repository_assignments :: "(replica_key, int option) gomap"
  repository_id_seq :: int

definition GenerationUnknown :: int where
  "GenerationUnknown = - 1"

datatype store_error =
    RepositoryNotFoundError string string
  | errWriteToOutdatedNodes
  | DowngradeAttemptedError string string string int int
  | RepositoryExistsError string string string
  | RepositoryNotExistsError string string string
  | ErrNoRowsAffected
  | ErrRepositoryAlreadyExists
  | RepositoryIDInUse int
  | ConstraintViolation string
  | VirtualStorageNotFound string
  | UnattainableReplicationFactor int nat
  | MinimumReplicationFactor int

section \<open>Reading\<close>

text \<open>The replicas of a repository, by storage.\<close>

definition replicas :: "repo_db \<Rightarrow> string \<Rightarrow> string \<Rightarrow> (string \<times> replica_row) list" where
  "replicas db vs path =
     map (\<lambda>((v, p, s), row). (s, row))
       (filter (\<lambda>((v, p, s), row). v = vs \<and> p = path) (storage_repositories db))"

definition GetGeneration :: "repo_db \<Rightarrow> string \<Rightarrow> string \<Rightarrow> string \<Rightarrow> int" where
  "GetGeneration db vs path storage =
     (case map_of (storage_repositories db) (vs, path, storage) of
        None \<Rightarrow> GenerationUnknown
      | Some row \<Rightarrow> sr_generation row)"

definition GetReplicatedGeneration ::
  "repo_db \<Rightarrow> string \<Rightarrow> string \<Rightarrow> string \<Rightarrow> string \<Rightarrow> store_error + int" where
  "GetReplicatedGeneration db vs path source target =
     (let sourceGeneration = GetGeneration db vs path source;
          targetGeneration = (if target = source then GenerationUnknown else GetGeneration db vs path target)
      in if targetGeneration \<noteq> GenerationUnknown \<and> sourceGeneration \<le> targetGeneration
         then Inl (DowngradeAttemptedError vs path target targetGeneration sourceGeneration)
         else Inr sourceGeneration)"

definition max_generation :: "(string \<times> replica_row) list \<Rightarrow> int" where
  "max_generation rs = Max (sr_generation ` snd ` set rs)"

definition GetConsistentStorages :: "repo_db \<Rightarrow> string \<Rightarrow> string \<Rightarrow> store_error + string list" where
  "GetConsistentStorages db vs path =
     (let rs = replicas db vs path;
          consistentStorages =
            (if map_of (repositories db) (vs, path) = None then []
             else map fst (filter (\<lambda>(s, row). sr_generation row = max_generation rs) rs))
      in if consistentStorages = [] then Inl (RepositoryNotFoundError vs path)
         else Inr consistentStorages)"

definition RepositoryExists :: "repo_db \<Rightarrow> string \<Rightarrow> string \<Rightarrow> bool" where
  "RepositoryExists db vs path \<longleftrightarrow> map_of (repositories db) (vs, path) \<noteq> None"

definition GetRepositoryID :: "repo_db \<Rightarrow> string \<Rightarrow> string \<Rightarrow> store_error + int" where
  "GetRepositoryID db vs path =
     (case map_of (repositories db) (vs, path) of
        None \<Rightarrow> Inl (RepositoryNotFoundError vs path)
      | Some row \<Rightarrow> Inr (rr_id row))"

section \<open>Generations\<close>

text \<open>The rows that the subquery \<open>to_update\<close> selects.\<close>

definition to_update :: "repo_db \<Rightarrow> string \<Rightarrow> string \<Rightarrow> string list \<Rightarrow> replica_key \<times> replica_row \<Rightarrow> bool" where
  "to_update db vs path storages = (\<lambda>((v, p, s), row).
     v = vs \<and> p = path \<and> s \<in> set storages \<and>
     (case map_of (repositories db) (vs, path) of
        None \<Rightarrow> False
      | Some repo \<Rightarrow> rr_generation repo = Some (sr_generation row)))"

definition IncrementGeneration ::
  "repo_db \<Rightarrow> string \<Rightarrow> string \<Rightarrow> string \<Rightarrow> string list \<Rightarrow> repo_db \<times> store_error option" where
  "IncrementGeneration db vs path primary secondaries =
     (let chosen = to_update db vs path (secondaries @ [primary]);
          updated = list_ex chosen (storage_repositories db);
          db' = db\<lparr>
            storage_repositories := map (\<lambda>r. if chosen r
              then (fst r, (snd r)\<lparr>sr_generation := sr_generation (snd r) + 1\<rparr>) else r) (storage_repositories db),
            repositories := (if updated then map (\<lambda>(k, repo). if k = (vs, path)
              then (k, repo\<lparr>rr_generation := map_option (\<lambda>g. g + 1) (rr_generation repo)\<rparr>) else (k, repo))
              (repositories db) else repositories db)\<rparr>
      in (db', if map_of (repositories db) (vs, path) = None then Some (RepositoryNotFoundError vs path)
               else if \<not> updated then Some errWriteToOutdatedNodes
               else None))"

definition upsert_replica :: "replica_key \<Rightarrow> int option \<Rightarrow> int \<Rightarrow> repo_db \<Rightarrow> repo_db" where
  "upsert_replica k rid generation db =
     db\<lparr>storage_repositories :=
       AList.update k \<lparr>sr_id = rid, sr_generation = generation\<rparr> (storage_repositories db)\<rparr>"

definition SetGeneration :: "repo_db \<Rightarrow> string \<Rightarrow> string \<Rightarrow> string \<Rightarrow> int \<Rightarrow> repo_db" where
  "SetGeneration db vs path storage generation =
     (let repo = map_of (repositories db) (vs, path);
          db' = upsert_replica (vs, path, storage) (map_option rr_id repo) generation db
      in case repo of
           None \<Rightarrow> db'
         | Some row \<Rightarrow>
             (if (case rr_generation row of None \<Rightarrow> - 1 | Some g \<Rightarrow> g) < generation
              then db'\<lparr>repositories := AList.update (vs, path) (row\<lparr>rr_generation := Some generation\<rparr>)
                         (repositories db)\<rparr>
              else db'))"

definition SetAuthoritativeReplica ::
  "repo_db \<Rightarrow> string \<Rightarrow> string \<Rightarrow> string \<Rightarrow> repo_db \<times> store_error option" where
  "SetAuthoritativeReplica db vs path storage =
     (case map_of (repositories db) (vs, path) of
        None \<Rightarrow> (db, Some (RepositoryNotFoundError vs path))
      | Some row \<Rightarrow>
          (case rr_generation row of
             None \<Rightarrow> (db, Some (ConstraintViolation ''storage_repositories.generation''))
           | Some g \<Rightarrow>
               (upsert_replica (vs, path, storage) (Some (rr_id row)) (g + 1)
                  (db\<lparr>repositories := AList.update (vs, path) (row\<lparr>rr_generation := Some (g + 1)\<rparr>)
                        (repositories db)\<rparr>), None)))"

section \<open>Creating, deleting and renaming\<close>

definition ReserveRepositoryID :: "repo_db \<Rightarrow> string \<Rightarrow> string \<Rightarrow> repo_db \<times> (store_error + int)" where
  "ReserveRepositoryID db vs path =
     (if map_of (repositories db) (vs, path) \<noteq> None then (db, Inl ErrRepositoryAlreadyExists)
      else (db\<lparr>repository_id_seq := repository_id_seq db + 1\<rparr>, Inr (repository_id_seq db + 1)))"

text \<open>When both unique keys of \<open>repositories\<close> are violated, the primary key is reported.\<close>

definition CreateRepository ::
  "repo_db \<Rightarrow> int \<Rightarrow> string \<Rightarrow> string \<Rightarrow> string \<Rightarrow> string list \<Rightarrow> string list \<Rightarrow> bool \<Rightarrow> bool \<Rightarrow>
   repo_db \<times> store_error option" where
  "CreateRepository db repositoryID vs path primary updatedSecondaries outdatedSecondaries
       storePrimary storeAssignments =
     (let updated = remdups (primary # updatedSecondaries);
          assigned = (if storeAssignments
            then remdups (primary # updatedSecondaries @ outdatedSecondaries) else [])
      in if list_ex (\<lambda>(k, row). rr_id row = repositoryID) (repositories db)
         then (db, Some (RepositoryIDInUse repositoryID))
         else if map_of (repositories db) (vs, path) \<noteq> None \<or>
                 list_ex (\<lambda>s. map_of (storage_repositories db) (vs, path, s) \<noteq> None) updated \<or>
                 list_ex (\<lambda>s. map_of (repository_assignments db) (vs, path, s) \<noteq> None) assigned
         then (db, Some (RepositoryExistsError vs path primary))
         else (db\<lparr>
           repositories := repositories db @ [((vs, path),
             \<lparr>rr_id = repositoryID, rr_generation = Some 0,
              rr_primary = (if storePrimary then Some primary else None),
              rr_replica_path = Some path\<rparr>)],
           storage_repositories := storage_repositories db @
             map (\<lambda>s. ((vs, path, s), \<lparr>sr_id = Some repositoryID, sr_generation = 0\<rparr>)) updated,
           repository_assignments := repository_assignments db @
             map (\<lambda>s. ((vs, path, s), Some repositoryID)) assigned\<rparr>, None))"

text \<open>Deleting the row of a repository, with the actions of the foreign keys.\<close>

definition drop_repository :: "string \<Rightarrow> string \<Rightarrow> repo_db \<Rightarrow> repo_db" where
  "drop_repository vs path db =
     (case map_of (repositories db) (vs, path) of
        None \<Rightarrow> db
      | Some row \<Rightarrow> db\<lparr>
          repositories := AList.delete (vs, path) (repositories db),
          storage_repositories := map (\<lambda>(k, r).
            (k, if sr_id r = Some (rr_id row) then r\<lparr>sr_id := None\<rparr> else r)) (storage_repositories db),
          repository_assignments := filter (\<lambda>((v, p, s), rid).
            \<not> (v = vs \<and> p = path) \<and> rid \<noteq> Some (rr_id row)) (repository_assignments db)\<rparr>)"

definition drop_replicas :: "string \<Rightarrow> string \<Rightarrow> string list \<Rightarrow> repo_db \<Rightarrow> repo_db" where
  "drop_replicas vs path storages db =
     db\<lparr>storage_repositories := filter (\<lambda>((v, p, s), r).
       \<not> (v = vs \<and> p = path \<and> s \<in> set storages)) (storage_repositories db)\<rparr>"

definition has_replica :: "repo_db \<Rightarrow> string \<Rightarrow> string \<Rightarrow> string list \<Rightarrow> bool" where
  "has_replica db vs path storages \<longleftrightarrow>
     list_ex (\<lambda>((v, p, s), r). v = vs \<and> p = path \<and> s \<in> set storages) (storage_repositories db)"

text \<open>\<open>RowsAffected\<close> counts the replicas, not the row of the repository.\<close>

definition DeleteRepository ::
  "repo_db \<Rightarrow> string \<Rightarrow> string \<Rightarrow> string list \<Rightarrow> repo_db \<times> store_error option" where
  "DeleteRepository db vs path storages =
     (drop_replicas vs path storages (drop_repository vs path db),
      if has_replica db vs path storages then None else Some ErrNoRowsAffected)"

definition DeleteReplica ::
  "repo_db \<Rightarrow> string \<Rightarrow> string \<Rightarrow> string \<Rightarrow> repo_db \<times> store_error option" where
  "DeleteReplica db vs path storage =
     (drop_replicas vs path [storage] db,
      if has_replica db vs path [storage] then None else Some ErrNoRowsAffected)"

definition DeleteInvalidRepository :: "repo_db \<Rightarrow> string \<Rightarrow> string \<Rightarrow> string \<Rightarrow> repo_db" where
  "DeleteInvalidRepository db vs path storage =
     (let db' = drop_replicas vs path [storage] db
      in if list_ex (\<lambda>((v, p, s), r). v = vs \<and> p = path \<and> s \<noteq> storage) (storage_repositories db)
         then db' else drop_repository vs path db')"

definition rename_key :: "string \<Rightarrow> string \<Rightarrow> string \<Rightarrow> replica_key \<Rightarrow> replica_key" where
  "rename_key vs path newPath = (\<lambda>(v, p, s). if v = vs \<and> p = path then (v, newPath, s) else (v, p, s))"

definition RenameRepository ::
  "repo_db \<Rightarrow> string \<Rightarrow> string \<Rightarrow> string \<Rightarrow> string \<Rightarrow> repo_db \<times> store_error option" where
  "RenameRepository db vs path storage newPath =
     (let repo = map_of (repositories db) (vs, path);
          replica = map_of (storage_repositories db) (vs, path, storage)
      in if path \<noteq> newPath \<and> (repo \<noteq> None \<and> map_of (repositories db) (vs, newPath) \<noteq> None \<or>
              replica \<noteq> None \<and> map_of (storage_repositories db) (vs, newPath, storage) \<noteq> None)
         then (db, Some (ConstraintViolation ''unique''))
         else (db\<lparr>
           repositories := map (\<lambda>(k, row). if k = (vs, path)
             then ((vs, newPath), row\<lparr>rr_replica_path := Some newPath\<rparr>) else (k, row)) (repositories db),
           storage_repositories := map (\<lambda>(k, row). if k = (vs, path, storage)
             then ((vs, newPath, storage), row) else (k, row)) (storage_repositories db),
           repository_assignments := (if repo = None then repository_assignments db
             else map (\<lambda>(k, rid). (rename_key vs path newPath k, rid)) (repository_assignments db))\<rparr>,
          if replica = None then Some (RepositoryNotExistsError vs path storage) else None))"

section \<open>Host assignments\<close>

type_synonym storage_config = "(string, string list) gomap"

definition assigned_storages :: "repo_db \<Rightarrow> string \<Rightarrow> string \<Rightarrow> string list \<Rightarrow> string list" where
  "assigned_storages db vs path configured =
     map (\<lambda>((v, p, s), rid). s)
       (filter (\<lambda>((v, p, s), rid). v = vs \<and> p = path \<and> s \<in> set configured) (repository_assignments db))"

definition GetHostAssignments ::
  "storage_config \<Rightarrow> repo_db \<Rightarrow> string \<Rightarrow> string \<Rightarrow> store_error + string list" where
  "GetHostAssignments conf db vs path =
     (case map_of conf vs of
        None \<Rightarrow> Inl (VirtualStorageNotFound vs)
      | Some configuredStorages \<Rightarrow>
          (let assignedStorages = assigned_storages db vs path configuredStorages
           in Inr (if assignedStorages = [] then configuredStorages else assignedStorages)))"

text \<open>
  \<open>random\<close> is the order that \<open>random()\<close> gives the rows. A null primary makes the condition
  \<open>storage != "primary"\<close> null, so that no row is removed.
\<close>

definition new_assignments ::
  "(string list \<Rightarrow> string list) \<Rightarrow> string option \<Rightarrow> string list \<Rightarrow> string list \<Rightarrow> nat \<Rightarrow> string list" where
  "new_assignments random primary candidates existing replicationFactor =
     (let free = random (filter (\<lambda>s. s \<notin> set existing) candidates)
      in take (max (length existing) replicationFactor - length existing)
           (filter (\<lambda>s. Some s = primary) free @ filter (\<lambda>s. Some s \<noteq> primary) free))"

definition removed_assignments ::
  "(string list \<Rightarrow> string list) \<Rightarrow> string option \<Rightarrow> string list \<Rightarrow> nat \<Rightarrow> string list" where
  "removed_assignments random primary existing replicationFactor =
     take (length existing - min (length existing) replicationFactor)
       (random (case primary of None \<Rightarrow> [] | Some p \<Rightarrow> filter (\<lambda>s. s \<noteq> p) existing))"

text \<open>The result is a set: the query orders it by name.\<close>

definition SetReplicationFactor ::
  "(string list \<Rightarrow> string list) \<Rightarrow> storage_config \<Rightarrow> repo_db \<Rightarrow> string \<Rightarrow> string \<Rightarrow> int \<Rightarrow>
   repo_db \<times> (store_error + string list)" where
  "SetReplicationFactor random conf db vs path replicationFactor =
     (case map_of conf vs of
        None \<Rightarrow> (db, Inl (VirtualStorageNotFound vs))
      | Some candidateStorages \<Rightarrow>
     (if replicationFactor < 1 then (db, Inl (MinimumReplicationFactor replicationFactor))
      else if int (length candidateStorages) < replicationFactor
      then (db, Inl (UnattainableReplicationFactor replicationFactor (length candidateStorages)))
      else case map_of (repositories db) (vs, path) of
        None \<Rightarrow> (db, Inl (RepositoryNotFoundError vs path))
      | Some repo \<Rightarrow>
     (let existing = assigned_storages db vs path candidateStorages;
          created = new_assignments random (rr_primary repo) candidateStorages existing (nat replicationFactor);
          removed = removed_assignments random (rr_primary repo) existing (nat replicationFactor);
          storages = filter (\<lambda>s. s \<notin> set removed) existing @ created
      in (db\<lparr>repository_assignments := filter (\<lambda>((v, p, s), rid).
               \<not> (v = vs \<and> p = path \<and> s \<in> set removed)) (repository_assignments db) @
               map (\<lambda>s. ((vs, path, s), Some (rr_id repo))) created\<rparr>,
          if storages = [] then Inl (RepositoryNotFoundError vs path) else Inr storages))))"

end
