(* ===== verification/Repository_Store_Invariant.thy ===== *)
theory Repository_Store_Invariant
  imports Repository_Store
begin

text \<open>
  The tables as functions of their keys, what each operation of the repository store does to them,
  and the invariant that every operation keeps: unique keys, assignments only for recorded
  repositories, and no replica ahead of its repository.
\<close>

section \<open>Views of the tables\<close>

definition db_wf :: "repo_db \<Rightarrow> bool" where
  "db_wf db \<longleftrightarrow> gowf (repositories db) \<and> gowf (storage_repositories db) \<and> gowf (repository_assignments db)"

definition repo_gen :: "repo_db \<Rightarrow> string \<Rightarrow> string \<Rightarrow> int option" where
  "repo_gen db vs path = Option.bind (map_of (repositories db) (vs, path)) rr_generation"

definition replica_gen :: "repo_db \<Rightarrow> string \<Rightarrow> string \<Rightarrow> string \<Rightarrow> int option" where
  "replica_gen db vs path s = map_option sr_generation (map_of (storage_repositories db) (vs, path, s))"

declare repo_gen_def [simp] replica_gen_def [simp]

lemma repo_gen_exists: "repo_gen db v p = Some g \<Longrightarrow> RepositoryExists db v p"
  by (cases "map_of (repositories db) (v, p)") (auto simp: RepositoryExists_def)

lemma replicas_iff:
  assumes "gowf (storage_repositories db)"
  shows "(s, row) \<in> set (replicas db vs path) \<longleftrightarrow> map_of (storage_repositories db) (vs, path, s) = Some row"
proof -
  have "(s, row) \<in> set (replicas db vs path) \<longleftrightarrow> ((vs, path, s), row) \<in> set (storage_repositories db)"
    by (force simp: replicas_def)
  then show ?thesis using assms by (simp add: gowf_def)
qed

lemma GetGeneration_alt:
  "GetGeneration db vs path s = (case replica_gen db vs path s of None \<Rightarrow> GenerationUnknown | Some g \<Rightarrow> g)"
  by (simp add: GetGeneration_def split: option.split)

text \<open>The consistent storages are those at a generation that none exceeds.\<close>

lemma consistent_storages:
  assumes wf: "gowf (storage_repositories db)" and repo: "RepositoryExists db vs path"
    and le: "\<And>s h. replica_gen db vs path s = Some h \<Longrightarrow> h \<le> g"
    and ex: "replica_gen db vs path s0 = Some g"
  shows "\<exists>cs. GetConsistentStorages db vs path = Inr cs \<and> set cs = {s. replica_gen db vs path s = Some g}"
proof -
  let ?rs = "replicas db vs path"
  note mem = replicas_iff [OF wf, where vs = vs and path = path]
  from ex obtain row0 where row0: "(s0, row0) \<in> set ?rs" "sr_generation row0 = g"
    by (auto simp: mem)
  have "max_generation ?rs = g"
    unfolding max_generation_def
  proof (rule Max_eqI)
    show "h \<le> g" if "h \<in> sr_generation ` snd ` set ?rs" for h
      using that le by (fastforce simp: mem)
    show "g \<in> sr_generation ` snd ` set ?rs" using row0 by force
  qed simp
  then have "set (map fst (filter (\<lambda>(s, row). sr_generation row = max_generation ?rs) ?rs))
      = {s. replica_gen db vs path s = Some g}"
    by (force simp: mem)
  moreover have "s0 \<in> {s. replica_gen db vs path s = Some g}" using ex by simp
  ultimately have "map fst (filter (\<lambda>(s, row). sr_generation row = max_generation ?rs) ?rs) \<noteq> []"
    by fastforce
  with \<open>set _ = _\<close> repo show ?thesis by (simp add: GetConsistentStorages_def RepositoryExists_def Let_def)
qed

section \<open>Effects of the operations\<close>

definition chosen_for :: "repo_db \<Rightarrow> string \<Rightarrow> string \<Rightarrow> string list \<Rightarrow> string \<Rightarrow> bool" where
  "chosen_for db vs path storages s \<longleftrightarrow>
     s \<in> set storages \<and> repo_gen db vs path \<noteq> None \<and> replica_gen db vs path s = repo_gen db vs path"

lemma increment_replicas:
  assumes "IncrementGeneration db vs path primary secondaries = (db', e)"
  shows "replica_gen db' v p s =
    (if v = vs \<and> p = path \<and> chosen_for db vs path (secondaries @ [primary]) s
     then map_option (\<lambda>g. g + 1) (replica_gen db v p s) else replica_gen db v p s)"
proof -
  let ?ch = "to_update db vs path (secondaries @ [primary])"
  have "storage_repositories db' = map (\<lambda>r. (fst r, if ?ch r
      then (snd r)\<lparr>sr_generation := sr_generation (snd r) + 1\<rparr> else snd r)) (storage_repositories db)"
    using assms by (auto simp: IncrementGeneration_def Let_def)
  then have "map_of (storage_repositories db') (v, p, s) = map_option (\<lambda>row. if ?ch ((v, p, s), row)
      then row\<lparr>sr_generation := sr_generation row + 1\<rparr> else row) (map_of (storage_repositories db) (v, p, s))"
    by (simp add: map_of_map_entries cong: if_cong)
  then show ?thesis
    by (cases "map_of (storage_repositories db) (v, p, s)"; cases "map_of (repositories db) (vs, path)")
      (auto simp: to_update_def chosen_for_def)
qed

lemma increment_repos:
  assumes "IncrementGeneration db vs path primary secondaries = (db', None)"
  shows "repo_gen db' v p =
    (if v = vs \<and> p = path then map_option (\<lambda>g. g + 1) (repo_gen db v p) else repo_gen db v p)"
proof -
  have "repositories db' = map (\<lambda>r. (fst r, if fst r = (vs, path)
      then (snd r)\<lparr>rr_generation := map_option (\<lambda>g. g + 1) (rr_generation (snd r))\<rparr> else snd r)) (repositories db)"
    using assms by (auto simp: IncrementGeneration_def Let_def split: if_splits)
  then show ?thesis
    by (cases "map_of (repositories db) (v, p)") (auto simp: map_of_map_entries)
qed

lemma increment_ok_iff:
  assumes "gowf (storage_repositories db)"
  shows "snd (IncrementGeneration db vs path primary secondaries) = None \<longleftrightarrow>
    (\<exists>s. chosen_for db vs path (secondaries @ [primary]) s)"
proof -
  let ?st = "secondaries @ [primary]"
  have "list_ex (to_update db vs path ?st) (storage_repositories db) \<longleftrightarrow>
      (\<exists>s row. map_of (storage_repositories db) (vs, path, s) = Some row \<and>
        to_update db vs path ?st ((vs, path, s), row))"
    using assms by (auto simp: list_ex_iff gowf_def to_update_def)
  also have "\<dots> \<longleftrightarrow> (\<exists>s. chosen_for db vs path ?st s)"
    by (cases "map_of (repositories db) (vs, path)") (fastforce simp: to_update_def chosen_for_def)+
  finally have "list_ex (to_update db vs path ?st) (storage_repositories db) \<longleftrightarrow> (\<exists>s. chosen_for db vs path ?st s)" .
  moreover have "map_of (repositories db) (vs, path) \<noteq> None" if "chosen_for db vs path ?st s" for s
    using that by (cases "map_of (repositories db) (vs, path)") (auto simp: chosen_for_def)
  ultimately show ?thesis by (auto simp: IncrementGeneration_def Let_def)
qed

lemma increment_tables:
  assumes "db_wf db" "IncrementGeneration db vs path primary secondaries = (db', e)"
  shows "db_wf db'"
    "RepositoryExists db' v p = RepositoryExists db v p"
proof -
  have 1: "map fst (storage_repositories db') = map fst (storage_repositories db)"
    using assms(2) by (auto simp: IncrementGeneration_def Let_def)
  have 2: "map fst (repositories db') = map fst (repositories db)"
    using assms(2) by (auto simp: IncrementGeneration_def Let_def)
  have 3: "repository_assignments db' = repository_assignments db"
    using assms(2) by (auto simp: IncrementGeneration_def Let_def)
  from 1 2 3 assms(1) show "db_wf db'" by (simp add: db_wf_def gowf_def)
  from 2 have "fst ` set (repositories db') = fst ` set (repositories db)" by (metis set_map)
  then show "RepositoryExists db' v p = RepositoryExists db v p"
    by (simp add: RepositoryExists_def map_of_eq_None_iff)
qed

lemma upsert_view [simp]:
  "map_of (storage_repositories (upsert_replica k rid g db)) k' =
     (if k' = k then Some \<lparr>sr_id = rid, sr_generation = g\<rparr> else map_of (storage_repositories db) k')"
  "repositories (upsert_replica k rid g db) = repositories db"
  "repository_assignments (upsert_replica k rid g db) = repository_assignments db"
  "gowf (storage_repositories db) \<Longrightarrow> gowf (storage_repositories (upsert_replica k rid g db))"
  by (auto simp: upsert_replica_def update_conv' gowf_def distinct_update)

lemma SetGeneration_view:
  "replica_gen (SetGeneration db vs path storage g) v p s =
     (if v = vs \<and> p = path \<and> s = storage then Some g else replica_gen db v p s)"
  "RepositoryExists (SetGeneration db vs path storage g) v p = RepositoryExists db v p"
  "repo_gen (SetGeneration db vs path storage g) v p =
     (if v = vs \<and> p = path \<and> RepositoryExists db v p
      then (case repo_gen db v p of None \<Rightarrow> if - 1 < g then Some g else None | Some h \<Rightarrow> Some (max h g))
      else repo_gen db v p)"
  "db_wf db \<Longrightarrow> db_wf (SetGeneration db vs path storage g)"
  by (auto simp: SetGeneration_def Let_def update_conv' db_wf_def RepositoryExists_def gowf_def
      distinct_update upsert_view [unfolded gowf_def] split: option.splits)

lemma SetAuthoritativeReplica_view:
  assumes "SetAuthoritativeReplica db vs path storage = (db', None)"
  shows "\<exists>g. repo_gen db vs path = Some g \<and> repo_gen db' vs path = Some (g + 1) \<and>
      replica_gen db' vs path storage = Some (g + 1)"
    "\<not> (v = vs \<and> p = path) \<Longrightarrow> repo_gen db' v p = repo_gen db v p"
    "\<not> (v = vs \<and> p = path \<and> s = storage) \<Longrightarrow> replica_gen db' v p s = replica_gen db v p s"
    "db_wf db \<Longrightarrow> db_wf db'" "RepositoryExists db' vs path"
  using assms by (auto simp: SetAuthoritativeReplica_def update_conv' db_wf_def RepositoryExists_def
      gowf_def distinct_update upsert_view [unfolded gowf_def] split: option.splits)

lemma drop_repository_view:
  "replica_gen (drop_repository vs path db) v p s = replica_gen db v p s"
  "repo_gen (drop_repository vs path db) v p = (if v = vs \<and> p = path then None else repo_gen db v p)"
  "db_wf db \<Longrightarrow> db_wf (drop_repository vs path db)"
proof -
  have m: "map (\<lambda>(k, r). (k, f r)) m = map (\<lambda>p. (fst p, f (snd p))) m" for f :: "replica_row \<Rightarrow> replica_row"
    and m :: "(replica_key, replica_row) gomap" by auto
  show "replica_gen (drop_repository vs path db) v p s = replica_gen db v p s"
    by (cases "map_of (storage_repositories db) (v, p, s)")
      (auto simp: drop_repository_def m map_of_map_entries split: option.split)
  show "repo_gen (drop_repository vs path db) v p = (if v = vs \<and> p = path then None else repo_gen db v p)"
    by (auto simp: drop_repository_def delete_conv' split: option.split)
  show "db_wf db \<Longrightarrow> db_wf (drop_repository vs path db)"
    by (auto simp: drop_repository_def db_wf_def m gowf_map_entries gowf_filter split: option.split)
      (simp add: gowf_def distinct_delete)
qed

lemma drop_replicas_view:
  assumes "db_wf db"
  shows "replica_gen (drop_replicas vs path storages db) v p s =
      (if v = vs \<and> p = path \<and> s \<in> set storages then None else replica_gen db v p s)"
    "repositories (drop_replicas vs path storages db) = repositories db"
    "db_wf (drop_replicas vs path storages db)"
  using assms by (auto simp: drop_replicas_def db_wf_def map_of_filter_entries gowf_filter split: option.split)

lemma map_of_map_keyed:
  "inj_on f (set xs) \<Longrightarrow> map_of (map (\<lambda>x. (f x, c)) xs) k = (if k \<in> f ` set xs then Some c else None)"
  by (induction xs) auto

lemma CreateRepository_tables:
  assumes "CreateRepository db rid vs path primary updated outdated storePrimary storeAssignments = (db', None)"
  shows "RepositoryExists db' v p \<longleftrightarrow> RepositoryExists db v p \<or> v = vs \<and> p = path"
    "repo_gen db' v p = (if v = vs \<and> p = path then Some 0 else repo_gen db v p)"
    "replica_gen db' v p s =
      (if v = vs \<and> p = path \<and> s \<in> set (primary # updated) then Some 0 else replica_gen db v p s)"
proof -
  define upd where "upd = remdups (primary # updated)"
  have set_upd: "set upd = set (primary # updated)" by (auto simp: upd_def)
  let ?row = "\<lparr>rr_id = rid, rr_generation = Some 0, rr_primary = (if storePrimary then Some primary else None),
              rr_replica_path = Some path\<rparr>"
  from assms have none: "map_of (repositories db) (vs, path) = None"
    "\<And>s. s \<in> set upd \<Longrightarrow> map_of (storage_repositories db) (vs, path, s) = None"
    and repos: "repositories db' = repositories db @ [((vs, path), ?row)]"
    and sr: "storage_repositories db' = storage_repositories db @
       map (\<lambda>s. ((vs, path, s), \<lparr>sr_id = Some rid, sr_generation = 0\<rparr>)) upd"
    by (auto simp: CreateRepository_def Let_def list_ex_iff upd_def split: if_splits)
  have repo: "map_of (repositories db') (v, p) =
      (if v = vs \<and> p = path then Some ?row else map_of (repositories db) (v, p))"
    using none(1) by (auto simp: repos map_add_def split: option.split)
  then show "RepositoryExists db' v p \<longleftrightarrow> RepositoryExists db v p \<or> v = vs \<and> p = path"
    "repo_gen db' v p = (if v = vs \<and> p = path then Some 0 else repo_gen db v p)"
    by (auto simp: RepositoryExists_def)
  have "map_of (map (\<lambda>s. ((vs, path, s), \<lparr>sr_id = Some rid, sr_generation = 0\<rparr>)) upd) (v, p, s) =
      (if v = vs \<and> p = path \<and> s \<in> set upd then Some \<lparr>sr_id = Some rid, sr_generation = 0\<rparr> else None)"
    by (subst map_of_map_keyed) (auto simp: inj_on_def)
  then have "map_of (storage_repositories db') (v, p, s) = (if v = vs \<and> p = path \<and> s \<in> set upd
      then Some \<lparr>sr_id = Some rid, sr_generation = 0\<rparr> else map_of (storage_repositories db) (v, p, s))"
    unfolding sr map_of_append using none(2) [of s] by (auto simp: map_add_def split: option.split)
  then show "replica_gen db' v p s =
      (if v = vs \<and> p = path \<and> s \<in> set (primary # updated) then Some 0 else replica_gen db v p s)"
    by (auto simp: set_upd)
qed

lemma gowf_append_fresh:
  assumes "gowf m" "distinct xs" "inj_on f (set xs)" "\<And>x. x \<in> set xs \<Longrightarrow> map_of m (f x) = None"
  shows "gowf (m @ map (\<lambda>x. (f x, c)) xs)"
proof -
  have "distinct (map f xs)" using assms(2,3) by (simp add: distinct_map)
  moreover define ks where "ks = map fst m"
  have "f x \<notin> set ks" if "x \<in> set xs" for x
    using assms(4) [OF that] by (simp add: map_of_eq_None_iff ks_def)
  then have "set ks \<inter> f ` set xs = {}" by blast
  ultimately show ?thesis using assms(1) by (simp add: gowf_def comp_def ks_def)
qed

lemma CreateRepository_wf:
  assumes "db_wf db"
    and "CreateRepository db rid vs path primary updated outdated storePrimary storeAssignments = (db', None)"
  shows "db_wf db'"
proof -
  define assigned where "assigned = (if storeAssignments then remdups (primary # updated @ outdated) else [])"
  from assms(2) have none: "map_of (repositories db) (vs, path) = None"
    "\<And>s. s \<in> set (remdups (primary # updated)) \<Longrightarrow> map_of (storage_repositories db) (vs, path, s) = None"
    "\<And>s. s \<in> set assigned \<Longrightarrow> map_of (repository_assignments db) (vs, path, s) = None"
    by (auto simp: CreateRepository_def Let_def list_ex_iff assigned_def split: if_splits)
  have inj: "inj_on (\<lambda>s. (vs, path, s)) X" for X :: "string set" by (simp add: inj_on_def)
  have "distinct assigned" by (simp add: assigned_def)
  then have "gowf (repository_assignments db @ map (\<lambda>s. ((vs, path, s), Some rid)) assigned)"
    using none(3) assms(1) by (intro gowf_append_fresh inj) (auto simp: db_wf_def)
  moreover have "gowf (storage_repositories db @
      map (\<lambda>s. ((vs, path, s), \<lparr>sr_id = Some rid, sr_generation = 0\<rparr>)) (remdups (primary # updated)))"
    using none(2) assms(1) by (intro gowf_append_fresh inj) (auto simp: db_wf_def)
  moreover have "gowf (repositories db @ [((vs, path), r)])" for r
    using none(1) assms(1) by (auto simp: db_wf_def gowf_def map_of_eq_None_iff)
  ultimately show ?thesis
    using assms(2) by (auto simp: CreateRepository_def Let_def db_wf_def assigned_def split: if_splits)
qed

lemma gowf_rekey_free:
  assumes "gowf m" "map_of m a \<noteq> None \<Longrightarrow> a \<noteq> b \<Longrightarrow> map_of m b = None"
  shows "gowf (rekey a b f m)"
proof (cases "map_of m a = None \<or> a = b")
  case True
  have "rekey a a f m = map (\<lambda>p. (fst p, if fst p = a then f (snd p) else snd p)) m" by auto
  then have "gowf (rekey a a f m)" using assms(1) by (simp only: gowf_map_entries)
  with True assms(1) show ?thesis by (auto simp: rekey_absent)
next
  case False
  with assms show ?thesis by (intro gowf_rekey) auto
qed

lemma RenameRepository_view:
  assumes wf: "db_wf db" and ren: "RenameRepository db vs path storage newPath = (db', e)"
    and e: "e \<noteq> Some (ConstraintViolation ''unique'')" and diff: "path \<noteq> newPath"
  shows "repo_gen db' v p = (if RepositoryExists db vs path \<and> v = vs \<and> p = newPath then repo_gen db vs path
      else if v = vs \<and> p = path then None else repo_gen db v p)"
    and "replica_gen db' v p s = (if map_of (storage_repositories db) (vs, path, storage) \<noteq> None \<and>
        v = vs \<and> p = newPath \<and> s = storage then replica_gen db vs path storage
      else if v = vs \<and> p = path \<and> s = storage then None else replica_gen db v p s)"
proof -
  let ?f = "\<lambda>row. row\<lparr>rr_replica_path := Some newPath\<rparr>"
  from ren e diff have repos: "repositories db' = rekey (vs, path) (vs, newPath) ?f (repositories db)"
    and sr: "storage_repositories db' = rekey (vs, path, storage) (vs, newPath, storage) (\<lambda>r. r) (storage_repositories db)"
    and free: "map_of (repositories db) (vs, path) \<noteq> None \<Longrightarrow> map_of (repositories db) (vs, newPath) = None"
      "map_of (storage_repositories db) (vs, path, storage) \<noteq> None \<Longrightarrow>
       map_of (storage_repositories db) (vs, newPath, storage) = None"
    by (auto simp: RenameRepository_def Let_def split: if_splits)
  show "repo_gen db' v p = (if RepositoryExists db vs path \<and> v = vs \<and> p = newPath then repo_gen db vs path
      else if v = vs \<and> p = path then None else repo_gen db v p)"
    using wf diff free(1) unfolding repo_gen_def repos
    by (cases "map_of (repositories db) (vs, path)")
      (auto simp: rekey_absent map_of_rekey db_wf_def RepositoryExists_def)
  show "replica_gen db' v p s = (if map_of (storage_repositories db) (vs, path, storage) \<noteq> None \<and>
        v = vs \<and> p = newPath \<and> s = storage then replica_gen db vs path storage
      else if v = vs \<and> p = path \<and> s = storage then None else replica_gen db v p s)"
    using wf diff free(2) unfolding replica_gen_def sr
    by (cases "map_of (storage_repositories db) (vs, path, storage)")
      (auto simp: rekey_absent map_of_rekey db_wf_def)
qed

lemma increment_error_unchanged:
  assumes "IncrementGeneration db vs path primary secondaries = (db', Some e)"
  shows "db' = db"
proof -
  let ?ch = "to_update db vs path (secondaries @ [primary])"
  have "\<not> list_ex ?ch (storage_repositories db)"
    using assms by (auto simp: IncrementGeneration_def Let_def to_update_def list_ex_iff split: if_splits)
  then have "map (\<lambda>r. if ?ch r then (fst r, (snd r)\<lparr>sr_generation := sr_generation (snd r) + 1\<rparr>) else r)
      (storage_repositories db) = storage_repositories db" "\<not> list_ex ?ch (storage_repositories db)"
    by (auto simp: list_ex_iff intro!: map_idI)
  with assms show ?thesis by (auto simp: IncrementGeneration_def Let_def split: if_splits)
qed

declare repo_gen_def [simp del] replica_gen_def [simp del]

section \<open>Generations are bounded\<close>

text \<open>
  The invariant: keys are unique, assignments belong to recorded repositories, and no replica is
  ahead of the generation of its repository.
\<close>

definition assignments_exist :: "repo_db \<Rightarrow> bool" where
  "assignments_exist db \<longleftrightarrow>
     list_all (\<lambda>((v, p, s), rid). RepositoryExists db v p) (repository_assignments db)"

definition bounded_at :: "repo_db \<Rightarrow> string \<Rightarrow> string \<Rightarrow> int \<Rightarrow> bool" where
  "bounded_at db v p g \<longleftrightarrow>
     repo_gen db v p = Some g \<and> (\<forall>s h. replica_gen db v p s = Some h \<longrightarrow> h \<le> g)"

definition replicas_bounded :: "repo_db \<Rightarrow> bool" where
  "replicas_bounded db \<longleftrightarrow> (\<forall>v p. RepositoryExists db v p \<longrightarrow> (\<exists>g. bounded_at db v p g))"

lemma replicas_boundedI:
  "(\<And>v p. RepositoryExists db v p \<Longrightarrow> \<exists>g. bounded_at db v p g) \<Longrightarrow> replicas_bounded db"
  by (simp add: replicas_bounded_def)

lemma replicas_boundedE:
  assumes "replicas_bounded db" "RepositoryExists db v p"
  obtains g where "bounded_at db v p g"
  using assms unfolding replicas_bounded_def by blast

text \<open>A bound carries over when each replica is dropped, unchanged or below the new bound.\<close>

lemma bounded_at_transfer:
  assumes "bounded_at db v p g" "repo_gen db' v p = Some g'" "g \<le> g'"
    and rep: "\<And>s. replica_gen db' v p s = None \<or> replica_gen db' v p s = replica_gen db v p s \<or>
      (\<exists>h\<le>g'. replica_gen db' v p s = Some h)"
  shows "bounded_at db' v p g'"
  unfolding bounded_at_def
proof (intro conjI allI impI)
  show "h \<le> g'" if "replica_gen db' v p s = Some h" for s h
    using rep [of s]
  proof (elim disjE)
    assume "replica_gen db' v p s = replica_gen db v p s"
    with that have "replica_gen db v p s = Some h" by simp
    with assms(1,3) show "h \<le> g'" unfolding bounded_at_def by (meson order.trans)
  qed (use that in auto)
qed (rule assms(2))

definition store_inv :: "repo_db \<Rightarrow> bool" where
  "store_inv db \<longleftrightarrow> db_wf db \<and> assignments_exist db \<and> replicas_bounded db"

text \<open>
  The calls on the store. A repository is created, or moved, to a path under which no replicas are
  left: see \<open>recreated_repository_prefers_leftover\<close> for what happens otherwise.
\<close>

definition no_replicas :: "repo_db \<Rightarrow> string \<Rightarrow> string \<Rightarrow> bool" where
  "no_replicas db vs path \<longleftrightarrow> replicas db vs path = []"

definition permutes :: "(string list \<Rightarrow> string list) \<Rightarrow> bool" where
  "permutes random \<longleftrightarrow> (\<forall>xs. set (random xs) = set xs \<and> length (random xs) = length xs)"

inductive store_step :: "repo_db \<Rightarrow> repo_db \<Rightarrow> bool" where
  step_increment: "store_step db (fst (IncrementGeneration db vs path primary secondaries))"
| step_set: "store_step db (SetGeneration db vs path storage g)"
| step_authoritative: "store_step db (fst (SetAuthoritativeReplica db vs path storage))"
| step_reserve: "store_step db (fst (ReserveRepositoryID db vs path))"
| step_create: "no_replicas db vs path \<Longrightarrow>
    store_step db (fst (CreateRepository db rid vs path primary updated outdated storePrimary storeAssignments))"
| step_delete: "store_step db (fst (DeleteRepository db vs path storages))"
| step_delete_replica: "store_step db (fst (DeleteReplica db vs path storage))"
| step_delete_invalid: "store_step db (DeleteInvalidRepository db vs path storage)"
| step_rename: "no_replicas db vs newPath \<Longrightarrow> RepositoryExists db vs path \<Longrightarrow> path \<noteq> newPath \<Longrightarrow>
    store_step db (fst (RenameRepository db vs path storage newPath))"
| step_replication_factor: "permutes random \<Longrightarrow> list_all (\<lambda>(v, storages). distinct storages) conf \<Longrightarrow>
    store_step db (fst (SetReplicationFactor random conf db vs path rf))"

lemma no_replicas_iff:
  "gowf (storage_repositories db) \<Longrightarrow>
   no_replicas db vs path \<longleftrightarrow> (\<forall>s. map_of (storage_repositories db) (vs, path, s) = None)"
  using replicas_iff [of db _ _ vs path] unfolding no_replicas_def
  by (metis list.set_intros(1) neq_Nil_conv not_None_eq old.prod.exhaust empty_iff set_empty)

lemma assignments_exist_mono:
  assumes "assignments_exist db" "repository_assignments db' = repository_assignments db"
    "\<And>v p. RepositoryExists db v p \<Longrightarrow> RepositoryExists db' v p"
  shows "assignments_exist db'"
  using assms by (auto simp: assignments_exist_def list_all_iff)

subsection \<open>Each call keeps the invariant\<close>

lemma increment_inv:
  assumes "store_inv db"
  shows "store_inv (fst (IncrementGeneration db vs path primary secondaries))"
proof -
  obtain db' e where inc: "IncrementGeneration db vs path primary secondaries = (db', e)" by fastforce
  show ?thesis
  proof (cases e)
    case (Some err)
    with inc assms show ?thesis using increment_error_unchanged by fastforce
  next
    case None
    have wf: "db_wf db" and bd: "replicas_bounded db" using assms by (auto simp: store_inv_def)
    note views = increment_repos [OF inc [unfolded None]] increment_replicas [OF inc]
    have "replicas_bounded db'"
    proof (rule replicas_boundedI)
      fix v p
      assume "RepositoryExists db' v p"
      then have "RepositoryExists db v p" by (simp only: increment_tables(2) [OF wf inc])
      then obtain g where g: "bounded_at db v p g" by (rule replicas_boundedE [OF bd])
      show "\<exists>g. bounded_at db' v p g"
      proof (cases "v = vs \<and> p = path")
        case True
        have "bounded_at db' v p (g + 1)"
        proof (rule bounded_at_transfer [OF g])
          show "replica_gen db' v p s = None \<or> replica_gen db' v p s = replica_gen db v p s \<or>
            (\<exists>h\<le>g + 1. replica_gen db' v p s = Some h)" for s
            using g by (cases "replica_gen db v p s") (auto simp: views bounded_at_def)
        qed (use True g in \<open>auto simp: views bounded_at_def\<close>)
        then show ?thesis ..
      next
        case False
        with g have "bounded_at db' v p g" by (auto intro!: bounded_at_transfer [OF g] simp: views bounded_at_def)
        then show ?thesis ..
      qed
    qed
    moreover have "repository_assignments db' = repository_assignments db"
      using inc by (auto simp: IncrementGeneration_def Let_def)
    then have "assignments_exist db'"
      using assms increment_tables(2) [OF wf inc] by (auto simp: store_inv_def intro: assignments_exist_mono)
    ultimately show ?thesis using increment_tables(1) [OF wf inc] inc by (simp add: store_inv_def)
  qed
qed

lemma set_generation_inv:
  assumes "store_inv db"
  shows "store_inv (SetGeneration db vs path storage g)"
proof -
  let ?db = "SetGeneration db vs path storage g"
  have bd: "replicas_bounded db" using assms by (simp add: store_inv_def)
  have "replicas_bounded ?db"
  proof (rule replicas_boundedI)
    fix v p
    assume "RepositoryExists ?db v p"
    then have ex: "RepositoryExists db v p" by (simp only: SetGeneration_view)
    then obtain h where h: "bounded_at db v p h" by (rule replicas_boundedE [OF bd])
    have "bounded_at ?db v p (if v = vs \<and> p = path then max h g else h)"
      by (rule bounded_at_transfer [OF h]) (use ex h in \<open>auto simp: SetGeneration_view bounded_at_def\<close>)
    then show "\<exists>h. bounded_at ?db v p h" ..
  qed
  moreover have "assignments_exist ?db"
    using assms SetGeneration_view(2) [of db vs path storage g]
    by (auto simp: store_inv_def SetGeneration_def Let_def intro: assignments_exist_mono split: option.split)
  ultimately show ?thesis using assms SetGeneration_view(4) by (simp add: store_inv_def)
qed

lemma authoritative_inv:
  assumes "store_inv db"
  shows "store_inv (fst (SetAuthoritativeReplica db vs path storage))"
proof -
  obtain db' e where set: "SetAuthoritativeReplica db vs path storage = (db', e)" by fastforce
  have bd: "replicas_bounded db" using assms by (simp add: store_inv_def)
  show ?thesis
  proof (cases e)
    case (Some err)
    with set assms show ?thesis by (auto simp: SetAuthoritativeReplica_def split: option.splits)
  next
    case None
    note view = SetAuthoritativeReplica_view [OF set [unfolded None]]
    have ex: "RepositoryExists db' v p = RepositoryExists db v p" for v p
      using set None
      by (auto simp: SetAuthoritativeReplica_def RepositoryExists_def update_conv' split: option.splits if_splits)
    have asg: "repository_assignments db' = repository_assignments db"
      using set None by (auto simp: SetAuthoritativeReplica_def split: option.splits)
    have "replicas_bounded db'"
    proof (rule replicas_boundedI)
      fix v p
      assume "RepositoryExists db' v p"
      with ex have "RepositoryExists db v p" by simp
      then obtain h where h: "bounded_at db v p h" by (rule replicas_boundedE [OF bd])
      have "bounded_at db' v p (if v = vs \<and> p = path then h + 1 else h)"
      proof (rule bounded_at_transfer [OF h])
        show "replica_gen db' v p s = None \<or> replica_gen db' v p s = replica_gen db v p s \<or>
          (\<exists>k\<le>(if v = vs \<and> p = path then h + 1 else h). replica_gen db' v p s = Some k)" for s
          using view(1) view(3) [of v p s] h by (cases "v = vs \<and> p = path \<and> s = storage") (auto simp: bounded_at_def)
      qed (use view(1) view(2) [of v p] h in \<open>auto simp: bounded_at_def\<close>)
      then show "\<exists>h. bounded_at db' v p h" ..
    qed
    moreover have "assignments_exist db'"
      using assms ex asg by (auto simp: store_inv_def intro: assignments_exist_mono)
    ultimately show ?thesis using view(4) set assms by (simp add: store_inv_def)
  qed
qed

lemma drop_repository_exists:
  "RepositoryExists (drop_repository vs path db) v p \<longleftrightarrow> RepositoryExists db v p \<and> \<not> (v = vs \<and> p = path)"
  by (auto simp: drop_repository_def RepositoryExists_def delete_conv' split: option.split)

lemma drop_replicas_exists [simp]:
  "RepositoryExists (drop_replicas vs path storages db) v p = RepositoryExists db v p"
  "repository_assignments (drop_replicas vs path storages db) = repository_assignments db"
  by (simp_all add: drop_replicas_def RepositoryExists_def)

lemma drop_repository_inv:
  assumes "store_inv db"
  shows "store_inv (drop_repository vs path db)"
proof -
  let ?db = "drop_repository vs path db"
  have bd: "replicas_bounded db" using assms by (simp add: store_inv_def)
  have "replicas_bounded ?db"
  proof (rule replicas_boundedI)
    fix v p
    assume "RepositoryExists ?db v p"
    then have ex: "RepositoryExists db v p" "\<not> (v = vs \<and> p = path)" by (simp_all add: drop_repository_exists)
    from ex(1) obtain g where g: "bounded_at db v p g" by (rule replicas_boundedE [OF bd])
    with ex(2) have "bounded_at ?db v p g" by (simp add: bounded_at_def drop_repository_view)
    then show "\<exists>g. bounded_at ?db v p g" ..
  qed
  moreover have "assignments_exist ?db"
    using assms by (auto simp: store_inv_def assignments_exist_def list_all_iff drop_repository_def
        RepositoryExists_def delete_conv' split: option.splits)
  ultimately show ?thesis using assms by (simp add: store_inv_def drop_repository_view)
qed

lemma drop_replicas_inv:
  assumes "store_inv db"
  shows "store_inv (drop_replicas vs path storages db)"
proof -
  let ?db = "drop_replicas vs path storages db"
  have bd: "replicas_bounded db" and wf: "db_wf db" using assms by (auto simp: store_inv_def)
  have same: "repo_gen ?db v p = repo_gen db v p" for v p
    by (simp add: repo_gen_def drop_replicas_def)
  have "replicas_bounded ?db"
  proof (rule replicas_boundedI)
    fix v p
    assume "RepositoryExists ?db v p"
    then have "RepositoryExists db v p" by simp
    then obtain g where g: "bounded_at db v p g" by (rule replicas_boundedE [OF bd])
    then have "bounded_at ?db v p g" by (auto simp: bounded_at_def same drop_replicas_view(1) [OF wf])
    then show "\<exists>g. bounded_at ?db v p g" ..
  qed
  moreover have "assignments_exist ?db"
    by (rule assignments_exist_mono [of db]) (use assms in \<open>auto simp: store_inv_def\<close>)
  ultimately show ?thesis using wf by (simp add: store_inv_def drop_replicas_view)
qed

lemma create_inv:
  assumes inv: "store_inv db" and free: "no_replicas db vs path"
  shows "store_inv (fst (CreateRepository db rid vs path primary updated outdated storePrimary storeAssignments))"
proof -
  obtain db' e where
    cr: "CreateRepository db rid vs path primary updated outdated storePrimary storeAssignments = (db', e)"
    by fastforce
  have bd: "replicas_bounded db" and wf: "db_wf db" using inv by (auto simp: store_inv_def)
  show ?thesis
  proof (cases e)
    case (Some err)
    with cr inv show ?thesis by (auto simp: CreateRepository_def Let_def split: if_splits)
  next
    case None
    note view = CreateRepository_tables [OF cr [unfolded None]]
    have "replica_gen db vs path s = None" for s
      using free wf by (simp add: no_replicas_iff db_wf_def replica_gen_def)
    then have new: "bounded_at db' vs path 0" unfolding bounded_at_def view by auto
    have "replicas_bounded db'"
    proof (rule replicas_boundedI)
      fix v p
      assume "RepositoryExists db' v p"
      then consider "v = vs \<and> p = path" | "\<not> (v = vs \<and> p = path)" "RepositoryExists db v p"
        by (auto simp: view)
      then show "\<exists>g. bounded_at db' v p g"
      proof cases
        case 1
        with new show ?thesis by blast
      next
        case 2
        from 2(2) obtain g where "bounded_at db v p g" by (rule replicas_boundedE [OF bd])
        with 2(1) have "bounded_at db' v p g" unfolding bounded_at_def view by auto
        then show ?thesis ..
      qed
    qed
    moreover have "assignments_exist db'"
    proof -
      have "repository_assignments db' = repository_assignments db @ map (\<lambda>s. ((vs, path, s), Some rid))
          (if storeAssignments then remdups (primary # updated @ outdated) else [])"
        using cr None by (auto simp: CreateRepository_def Let_def simp del: remdups.simps split: if_splits)
      with inv show ?thesis by (auto simp: store_inv_def assignments_exist_def list_all_iff view)
    qed
    ultimately show ?thesis using CreateRepository_wf [OF wf cr [unfolded None]] cr by (simp add: store_inv_def)
  qed
qed

lemma rename_assignments:
  assumes wf: "db_wf db" and ex: "assignments_exist db" and free: "\<not> RepositoryExists db vs newPath"
  shows "gowf (map (\<lambda>(k, rid). (rename_key vs path newPath k, rid)) (repository_assignments db))"
proof -
  let ?f = "rename_key vs path newPath"
  have "map fst (map (\<lambda>(k, rid). (?f k, rid)) m) = map ?f (map fst m)" for m :: "(replica_key, int option) gomap"
    by (induction m) auto
  moreover have "k = k'" if "k \<in> fst ` set (repository_assignments db)" "k' \<in> fst ` set (repository_assignments db)"
    "?f k = ?f k'" for k k'
  proof -
    have "RepositoryExists db v p" if "(v, p, s) \<in> fst ` set (repository_assignments db)" for v p s
      using ex that by (auto simp: assignments_exist_def list_all_iff)
    with that free show ?thesis by (cases k; cases k') (auto simp: rename_key_def split: if_splits)
  qed
  then have "inj_on ?f (set (map fst (repository_assignments db)))" by (auto simp: inj_on_def)
  ultimately show ?thesis using wf unfolding db_wf_def gowf_def by (simp only: distinct_map)
qed

lemma rename_exists:
  assumes "db_wf db" "RenameRepository db vs path storage newPath = (db', e)"
    "e \<noteq> Some (ConstraintViolation ''unique'')" "path \<noteq> newPath"
  shows "RepositoryExists db' v p \<longleftrightarrow> (if RepositoryExists db vs path \<and> v = vs \<and> p = newPath then True
      else if v = vs \<and> p = path then False else RepositoryExists db v p)"
proof -
  have eq: "repositories db' = rekey (vs, path) (vs, newPath) (\<lambda>row. row\<lparr>rr_replica_path := Some newPath\<rparr>) (repositories db)"
    and free: "map_of (repositories db) (vs, path) \<noteq> None \<Longrightarrow> map_of (repositories db) (vs, newPath) = None"
    using assms(2-) by (auto simp: RenameRepository_def Let_def split: if_splits)
  show ?thesis
    using assms(1,4) free unfolding RepositoryExists_def eq
    by (cases "map_of (repositories db) (vs, path)") (auto simp: rekey_absent map_of_rekey db_wf_def)
qed

lemma rename_wf:
  assumes inv: "store_inv db" and ex: "RepositoryExists db vs path"
    and ren: "RenameRepository db vs path storage newPath = (db', e)" "e \<noteq> Some (ConstraintViolation ''unique'')"
      "path \<noteq> newPath"
  shows "db_wf db'" "assignments_exist db'"
proof -
  have wf: "db_wf db" and asg: "assignments_exist db" using inv by (auto simp: store_inv_def)
  from ren have free: "\<not> RepositoryExists db vs newPath"
    using ex by (auto simp: RenameRepository_def Let_def RepositoryExists_def split: if_splits)
  have eqs: "repositories db' = rekey (vs, path) (vs, newPath) (\<lambda>row. row\<lparr>rr_replica_path := Some newPath\<rparr>) (repositories db)"
    "storage_repositories db' = rekey (vs, path, storage) (vs, newPath, storage) (\<lambda>r. r) (storage_repositories db)"
    "repository_assignments db' = map (\<lambda>(k, rid). (rename_key vs path newPath k, rid)) (repository_assignments db)"
    using ren ex by (auto simp: RenameRepository_def Let_def RepositoryExists_def split: if_splits)
  have "gowf (repositories db')"
    unfolding eqs using wf free by (intro gowf_rekey_free) (auto simp: db_wf_def RepositoryExists_def)
  moreover have "gowf (storage_repositories db')"
    unfolding eqs using wf ren
    by (intro gowf_rekey_free) (auto simp: db_wf_def RenameRepository_def Let_def split: if_splits)
  moreover have "gowf (repository_assignments db')"
    unfolding eqs using wf asg free by (rule rename_assignments)
  ultimately show "db_wf db'" by (simp add: db_wf_def)
  show "assignments_exist db'"
    unfolding assignments_exist_def eqs list_all_iff
    using asg ex
    by (auto simp: rename_exists [OF wf ren] rename_key_def assignments_exist_def list_all_iff split: if_splits)
qed

lemma rename_inv:
  assumes inv: "store_inv db" and free: "no_replicas db vs newPath" and ex: "RepositoryExists db vs path"
    and diff: "path \<noteq> newPath"
  shows "store_inv (fst (RenameRepository db vs path storage newPath))"
proof -
  obtain db' e where ren: "RenameRepository db vs path storage newPath = (db', e)" by fastforce
  have wf: "db_wf db" and bd: "replicas_bounded db" using inv by (auto simp: store_inv_def)
  have none: "replica_gen db vs newPath s = None" for s
    using free wf by (simp add: no_replicas_iff db_wf_def replica_gen_def)
  show ?thesis
  proof (cases "e = Some (ConstraintViolation ''unique'')")
    case True
    with ren inv show ?thesis by (auto simp: RenameRepository_def Let_def split: if_splits)
  next
    case e: False
    note view = RenameRepository_view [OF wf ren e diff]
    have "\<exists>g. bounded_at db' v p g" if p: "RepositoryExists db' v p" for v p
    proof -
      from p consider "v = vs" "p = newPath" | "\<not> (v = vs \<and> p = path)" "\<not> (v = vs \<and> p = newPath)" "RepositoryExists db v p"
        using ex by (auto simp: rename_exists [OF wf ren e diff] split: if_splits)
      then show ?thesis
      proof cases
        case 1
        from ex obtain g where g: "bounded_at db vs path g" by (rule replicas_boundedE [OF bd])
        with 1 ex none have "bounded_at db' v p g" by (auto simp: bounded_at_def view split: if_splits)
        then show ?thesis ..
      next
        case 2
        from 2(3) obtain g where "bounded_at db v p g" by (rule replicas_boundedE [OF bd])
        with 2(1,2) have "bounded_at db' v p g" by (auto simp: bounded_at_def view split: if_splits)
        then show ?thesis ..
      qed
    qed
    then have "replicas_bounded db'" by (rule replicas_boundedI)
    with rename_wf [OF inv ex ren e diff] ren show ?thesis by (simp add: store_inv_def)
  qed
qed

section \<open>Replication factors\<close>

lemma permutesD:
  assumes "permutes random"
  shows "set (random xs) = set xs" "length (random xs) = length xs" "distinct xs \<Longrightarrow> distinct (random xs)"
  using assms unfolding permutes_def by (auto intro: card_distinct simp: distinct_card)

lemma length_filter_split: "length (filter P xs) + length (filter (\<lambda>x. \<not> P x) xs) = length xs"
  by (rule sum_length_filter_compl)

lemma new_assignments_spec:
  assumes perm: "permutes random" and cand: "distinct candidates"
    and sub: "distinct existing" "set existing \<subseteq> set candidates"
    and rf: "rf \<le> length candidates"
  shows "distinct (new_assignments random primary candidates existing rf)"
    "set (new_assignments random primary candidates existing rf) \<subseteq> set candidates - set existing"
    "length (new_assignments random primary candidates existing rf) = max (length existing) rf - length existing"
proof -
  define free where "free = random (filter (\<lambda>s. s \<notin> set existing) candidates)"
  define order where "order = filter (\<lambda>s. Some s = primary) free @ filter (\<lambda>s. Some s \<noteq> primary) free"
  have new: "new_assignments random primary candidates existing rf =
      take (max (length existing) rf - length existing) order"
    by (simp add: new_assignments_def free_def order_def Let_def)
  have free: "distinct free" "set free = set candidates - set existing"
    using permutesD [OF perm] cand by (auto simp: free_def)
  then have order: "distinct order" "set order = set candidates - set existing"
    by (auto simp: order_def)
  then show "distinct (new_assignments random primary candidates existing rf)"
    "set (new_assignments random primary candidates existing rf) \<subseteq> set candidates - set existing"
    by (auto simp: new dest: in_set_takeD)
  have "length order = card (set candidates - set existing)" using order by (metis distinct_card)
  also have "\<dots> = length candidates - length existing"
    using sub cand by (simp add: card_Diff_subset distinct_card)
  finally show "length (new_assignments random primary candidates existing rf) =
      max (length existing) rf - length existing"
    using rf by (simp add: new)
qed

lemma removed_assignments_spec:
  assumes perm: "permutes random" and ex: "distinct existing"
  shows "distinct (removed_assignments random primary existing rf)"
    "set (removed_assignments random primary existing rf) \<subseteq> set existing"
    "\<And>p. primary = Some p \<Longrightarrow> p \<notin> set (removed_assignments random primary existing rf)"
    "primary \<noteq> None \<Longrightarrow> 1 \<le> rf \<Longrightarrow>
      length (removed_assignments random primary existing rf) = length existing - min (length existing) rf"
proof -
  define pool where "pool = random (case primary of None \<Rightarrow> [] | Some p \<Rightarrow> filter (\<lambda>s. s \<noteq> p) existing)"
  have rem: "removed_assignments random primary existing rf = take (length existing - min (length existing) rf) pool"
    by (simp add: removed_assignments_def pool_def)
  have pool: "distinct pool" "set pool = (case primary of None \<Rightarrow> {} | Some p \<Rightarrow> set existing - {p})"
    using permutesD [OF perm] ex by (auto simp: pool_def split: option.split)
  have sub: "set (removed_assignments random primary existing rf) \<subseteq> set pool"
    unfolding rem by (rule set_take_subset)
  show "distinct (removed_assignments random primary existing rf)" using pool(1) by (simp add: rem)
  show "set (removed_assignments random primary existing rf) \<subseteq> set existing"
    using sub pool(2) by (cases primary) auto
  show "p \<notin> set (removed_assignments random primary existing rf)" if "primary = Some p" for p
    using sub pool(2) that by auto
  assume "primary \<noteq> None" "1 \<le> rf"
  then obtain p where p: "primary = Some p" by blast
  have "length existing - 1 \<le> card (set existing - {p})"
    using ex diff_card_le_card_Diff [of "{p}" "set existing"] by (simp add: distinct_card)
  also have "\<dots> = length pool" using pool p by (metis distinct_card option.simps(5))
  finally show "length (removed_assignments random primary existing rf) = length existing - min (length existing) rf"
    using \<open>1 \<le> rf\<close> by (simp add: rem)
qed

lemma assigned_storages_spec:
  assumes "gowf (repository_assignments db)"
  shows "distinct (assigned_storages db vs path configured)"
    "s \<in> set (assigned_storages db vs path configured) \<longleftrightarrow>
      s \<in> set configured \<and> map_of (repository_assignments db) (vs, path, s) \<noteq> None"
proof -
  let ?P = "\<lambda>((v, p, s), rid). v = vs \<and> p = path \<and> s \<in> set configured"
  let ?m = "repository_assignments db"
  have "inj_on (\<lambda>((v, p, s), rid). s) (set (filter ?P ?m))"
    using assms by (auto simp: inj_on_def gowf_def dest: eq_key_imp_eq_value)
  moreover have "distinct ?m" using assms by (simp add: gowf_def distinct_map)
  ultimately show "distinct (assigned_storages db vs path configured)"
    by (simp add: assigned_storages_def distinct_map)
  show "s \<in> set (assigned_storages db vs path configured) \<longleftrightarrow>
      s \<in> set configured \<and> map_of ?m (vs, path, s) \<noteq> None"
    by (force simp: assigned_storages_def map_of_eq_None_iff)
qed

lemma new_assignments_primary:
  assumes perm: "permutes random" and p: "p \<in> set candidates" "p \<notin> set existing" and rf: "length existing < rf"
  shows "p \<in> set (new_assignments random (Some p) candidates existing rf)"
proof -
  define free where "free = random (filter (\<lambda>s. s \<notin> set existing) candidates)"
  have "p \<in> set free" using permutesD(1) [OF perm] p by (simp add: free_def)
  then have "filter (\<lambda>s. Some s = Some p) free \<noteq> []" by (auto simp: filter_empty_conv)
  then obtain ps where ps: "filter (\<lambda>s. Some s = Some p) free = p # ps"
    by (cases "filter (\<lambda>s. Some s = Some p) free") (auto dest: filter_eq_ConsD)
  from rf obtain n where n: "max (length existing) rf - length existing = Suc n"
    by (metis Suc_diff_Suc max.absorb2 less_imp_le)
  show ?thesis
    unfolding new_assignments_def Let_def free_def [symmetric] ps n by simp
qed

lemma replication_factor_tables:
  assumes wf: "gowf (repository_assignments db)" and perm: "permutes random"
    and conf: "map_of conf vs = Some candidates" "distinct candidates"
    and repo: "map_of (repositories db) (vs, path) = Some repo"
    and rf: "1 \<le> rf" "rf \<le> int (length candidates)"
    and srf: "SetReplicationFactor random conf db vs path rf = (db', r)"
  defines "existing \<equiv> assigned_storages db vs path candidates"
  defines "created \<equiv> new_assignments random (rr_primary repo) candidates existing (nat rf)"
  defines "removed \<equiv> removed_assignments random (rr_primary repo) existing (nat rf)"
  shows "gowf (repository_assignments db')"
    "map_of (repository_assignments db') (v, p, s) = (if v = vs \<and> p = path \<and> s \<in> set removed then None
      else if v = vs \<and> p = path \<and> s \<in> set created then Some (Some (rr_id repo))
      else map_of (repository_assignments db) (v, p, s))"
    "repositories db' = repositories db" "storage_repositories db' = storage_repositories db"
proof -
  note ex = assigned_storages_spec [OF wf, where vs = vs and path = path and configured = candidates, folded existing_def]
  have sub: "set existing \<subseteq> set candidates" using ex(2) by auto
  have created: "distinct created" "set created \<subseteq> set candidates - set existing"
    using new_assignments_spec [OF perm conf(2) ex(1) sub, of "nat rf"] rf by (auto simp: created_def)
  have removed: "set removed \<subseteq> set existing"
    using removed_assignments_spec(2) [OF perm ex(1)] by (simp add: removed_def)
  define kept where "kept = filter (\<lambda>((v, p, s), rid). \<not> (v = vs \<and> p = path \<and> s \<in> set removed)) (repository_assignments db)"
  have eq: "repository_assignments db' = kept @ map (\<lambda>s. ((vs, path, s), Some (rr_id repo))) created"
    and "repositories db' = repositories db" "storage_repositories db' = storage_repositories db"
    using srf conf repo rf by (auto simp: SetReplicationFactor_def Let_def existing_def created_def removed_def kept_def)
  then show "repositories db' = repositories db" "storage_repositories db' = storage_repositories db" by auto
  have kept: "gowf kept" "map_of kept (v, p, s) = (if v = vs \<and> p = path \<and> s \<in> set removed then None
      else map_of (repository_assignments db) (v, p, s))" for v p s
    by (simp_all add: kept_def gowf_filter [OF wf] map_of_filter_entries [OF wf] split: option.split)
  have fresh: "map_of (repository_assignments db) (vs, path, s) = None" if "s \<in> set created" for s
    using that created(2) ex(2) by auto
  have inj: "inj_on (\<lambda>s. (vs, path, s)) (set created)" by (simp add: inj_on_def)
  show "gowf (repository_assignments db')"
    unfolding eq by (rule gowf_append_fresh [OF kept(1) created(1) inj]) (simp add: kept fresh)
  show "map_of (repository_assignments db') (v, p, s) = (if v = vs \<and> p = path \<and> s \<in> set removed then None
      else if v = vs \<and> p = path \<and> s \<in> set created then Some (Some (rr_id repo))
      else map_of (repository_assignments db) (v, p, s))"
    unfolding eq map_of_append map_add_def map_of_map_keyed [OF inj] kept(2)
    using fresh [of s] created(2) removed by (auto split: option.split)
qed

lemma replication_factor_inv:
  assumes inv: "store_inv db" and perm: "permutes random"
    and conf: "list_all (\<lambda>(v, storages). distinct storages) conf"
  shows "store_inv (fst (SetReplicationFactor random conf db vs path rf))"
proof -
  obtain db' r where srf: "SetReplicationFactor random conf db vs path rf = (db', r)" by fastforce
  have wf: "db_wf db" and wfa: "gowf (repository_assignments db)" using inv by (auto simp: store_inv_def db_wf_def)
  show ?thesis
  proof (cases "db' = db")
    case False
    then obtain candidates repo where c: "map_of conf vs = Some candidates"
      and repo: "map_of (repositories db) (vs, path) = Some repo"
      and rf: "1 \<le> rf" "rf \<le> int (length candidates)"
      using srf by (auto simp: SetReplicationFactor_def split: option.splits if_splits)
    from c conf have "distinct candidates" by (auto simp: list_all_iff dest: map_of_SomeD)
    note tabs = replication_factor_tables [OF wfa perm c this repo rf srf]
    have "RepositoryExists db' v p" if "(v, p, s) \<in> fst ` set (repository_assignments db')" for v p s
    proof -
      from that have "map_of (repository_assignments db') (v, p, s) \<noteq> None" by (simp add: map_of_eq_None_iff)
      then have "v = vs \<and> p = path \<or> map_of (repository_assignments db) (v, p, s) \<noteq> None"
        unfolding tabs(2) by (auto split: if_splits)
      moreover have "RepositoryExists db v p" if "map_of (repository_assignments db) (v, p, s) \<noteq> None"
        using inv that by (force simp: store_inv_def assignments_exist_def list_all_iff dest: map_of_SomeD)
      ultimately show ?thesis using repo by (auto simp: RepositoryExists_def tabs(3))
    qed
    then have "assignments_exist db'" by (force simp: assignments_exist_def list_all_iff)
    moreover have "replicas_bounded db'"
      using inv by (simp add: store_inv_def replicas_bounded_def bounded_at_def repo_gen_def replica_gen_def
          RepositoryExists_def tabs(3,4))
    ultimately show ?thesis using srf wf tabs(1) by (simp add: store_inv_def db_wf_def tabs(3,4))
  qed (use srf inv in simp)
qed

section \<open>Runs of the store\<close>

lemma store_step_inv:
  assumes "store_step db db'" "store_inv db"
  shows "store_inv db'"
  using assms
proof cases
  case (step_reserve vs path)
  have "store_inv (db\<lparr>repository_id_seq := n\<rparr>)" for n
    using assms(2) by (simp add: store_inv_def db_wf_def assignments_exist_def replicas_bounded_def bounded_at_def
        repo_gen_def replica_gen_def RepositoryExists_def)
  with assms(2) step_reserve show ?thesis by (simp add: ReserveRepositoryID_def)
next
  case (step_delete vs path storages)
  with assms(2) show ?thesis by (simp add: DeleteRepository_def drop_replicas_inv drop_repository_inv)
next
  case (step_delete_replica vs path storage)
  with assms(2) show ?thesis by (simp add: DeleteReplica_def drop_replicas_inv)
next
  case (step_delete_invalid vs path storage)
  with assms(2) show ?thesis
    by (simp add: DeleteInvalidRepository_def Let_def drop_replicas_inv drop_repository_inv)
qed (simp_all add: assms(2) increment_inv set_generation_inv authoritative_inv create_inv rename_inv
    replication_factor_inv)

definition empty_db :: repo_db where
  "empty_db = \<lparr>repositories = [], storage_repositories = [], repository_assignments = [], repository_id_seq = 0\<rparr>"

lemma empty_db_inv: "store_inv empty_db"
  by (simp add: empty_db_def store_inv_def db_wf_def gowf_def assignments_exist_def replicas_bounded_def
      RepositoryExists_def)

interpretation store_run: step_invariant store_step store_inv
  by unfold_locales (rule store_step_inv)

lemmas reachable_store_inv = store_run.run_inv [OF _ empty_db_inv]

end
