(* ===== verification/Repository_Store_Props.thy ===== *)
theory Repository_Store_Props
  imports Repository_Store_Invariant
begin

text \<open>
  What the repository store guarantees on every database that its operations can produce: writes
  and replication move exactly the replicas that take part, an authoritative replica is the only
  consistent one, and replication factors are met. Two examples show what happens after a
  repository is deleted while replicas are left.
\<close>

lemma store_inv_facts:
  assumes "store_inv db"
  shows "gowf (storage_repositories db)" "db_wf db" "replicas_bounded db"
  using assms by (auto simp: store_inv_def db_wf_def)

lemma replica_le:
  assumes inv: "store_inv db" and repo: "repo_gen db vs path = Some g" and rep: "replica_gen db vs path s = Some h"
  shows "h \<le> g"
proof -
  obtain g' where "bounded_at db vs path g'"
    using store_inv_facts(3) [OF inv] repo_gen_exists [OF repo] by (rule replicas_boundedE)
  with repo rep show ?thesis by (auto simp: bounded_at_def)
qed

text \<open>The consistent storages of a repository, when a replica is at its generation.\<close>

lemma consistent_at_generation:
  assumes inv: "store_inv db" and repo: "repo_gen db vs path = Some g" and at: "replica_gen db vs path s0 = Some g"
  obtains cs where "GetConsistentStorages db vs path = Inr cs" "set cs = {s. replica_gen db vs path s = Some g}"
proof -
  have "\<exists>cs. GetConsistentStorages db vs path = Inr cs \<and> set cs = {s. replica_gen db vs path s = Some g}"
    by (rule consistent_storages [OF store_inv_facts(1) [OF inv] repo_gen_exists [OF repo]]) (fact replica_le [OF inv repo] at)+
  with that show ?thesis by blast
qed

lemma increment_consistent:
  assumes inv: "store_inv db" and inc: "IncrementGeneration db vs path primary secondaries = (db', None)"
  shows "\<exists>old new. GetConsistentStorages db vs path = Inr old \<and> GetConsistentStorages db' vs path = Inr new \<and>
    set new = set old \<inter> set (primary # secondaries)"
proof -
  let ?ch = "chosen_for db vs path (secondaries @ [primary])"
  obtain s where s: "?ch s" using increment_ok_iff [OF store_inv_facts(1) [OF inv]] inc by (metis snd_conv)
  then obtain g where g: "repo_gen db vs path = Some g" "replica_gen db vs path s = Some g"
    by (auto simp: chosen_for_def)
  have inv': "store_inv db'" using increment_inv [OF inv] inc by (metis fst_conv)
  have repo': "repo_gen db' vs path = Some (g + 1)" using increment_repos [OF inc] g by simp
  have rep': "replica_gen db' vs path t = Some (g + 1) \<longleftrightarrow> ?ch t" for t
  proof -
    have "replica_gen db vs path t \<noteq> Some (g + 1)"
      using replica_le [OF inv g(1), of t "g + 1"] by auto
    with g(1) show ?thesis using increment_replicas [OF inc, of vs path t] by (auto simp: chosen_for_def)
  qed
  obtain old where old: "GetConsistentStorages db vs path = Inr old" "set old = {s. replica_gen db vs path s = Some g}"
    using consistent_at_generation [OF inv g] by blast
  from s rep' have "replica_gen db' vs path s = Some (g + 1)" by blast
  then obtain new where "GetConsistentStorages db' vs path = Inr new" "set new = {t. ?ch t}"
    using consistent_at_generation [OF inv' repo'] unfolding rep' by blast
  with old g(1) show ?thesis by (auto simp: chosen_for_def)
qed


definition wit_db1 :: repo_db where
  "wit_db1 = fst (CreateRepository empty_db 1 ''vs'' ''repo'' ''a'' [''b'', ''c''] [] True True)"

lemma wit_db1_reachable: "store_step\<^sup>*\<^sup>* empty_db wit_db1"
  unfolding wit_db1_def
  by (rule r_into_rtranclp, rule step_create) (simp add: no_replicas_def replicas_def empty_db_def)

lemma wit_db1_eval: "wit_db1 = \<lparr>
  repositories = [((''vs'', ''repo''), \<lparr>rr_id = 1, rr_generation = Some 0, rr_primary = Some ''a'', rr_replica_path = Some ''repo''\<rparr>)],
  storage_repositories = [((''vs'', ''repo'', ''a''), \<lparr>sr_id = Some 1, sr_generation = 0\<rparr>),
    ((''vs'', ''repo'', ''b''), \<lparr>sr_id = Some 1, sr_generation = 0\<rparr>), ((''vs'', ''repo'', ''c''), \<lparr>sr_id = Some 1, sr_generation = 0\<rparr>)],
  repository_assignments = [((''vs'', ''repo'', ''a''), Some 1), ((''vs'', ''repo'', ''b''), Some 1), ((''vs'', ''repo'', ''c''), Some 1)],
  repository_id_seq = 0\<rparr>"
  by (simp add: wit_db1_def CreateRepository_def empty_db_def Let_def)




text \<open>
  After \<open>SetAuthoritativeReplica\<close> has succeeded, the chosen storage is the only consistent one,
  whatever generations the replicas had before.
\<close>

theorem authoritative_is_only_consistent:
  assumes "store_step\<^sup>*\<^sup>* empty_db db" and "SetAuthoritativeReplica db vs path storage = (db', None)"
  shows "\<exists>cs. GetConsistentStorages db' vs path = Inr cs \<and> set cs = {storage}"
proof -
  have inv: "store_inv db" by (rule reachable_store_inv [OF assms(1)])
  have inv': "store_inv db'" using authoritative_inv [OF inv, of vs path storage] assms(2) by simp
  note view = SetAuthoritativeReplica_view [OF assms(2)]
  from view(1) obtain g where g: "repo_gen db vs path = Some g" "repo_gen db' vs path = Some (g + 1)"
    "replica_gen db' vs path storage = Some (g + 1)" by blast
  have "s = storage" if "replica_gen db' vs path s = Some (g + 1)" for s
    using that view(3) [of vs path s] replica_le [OF inv g(1), of s "g + 1"] by (cases "s = storage") auto
  then have only: "{s. replica_gen db' vs path s = Some (g + 1)} = {storage}" using g(3) by blast
  show ?thesis by (rule consistent_at_generation [OF inv' g(2,3)]) (auto simp: only)
qed

theorem authoritative_is_only_consistent_witness:
  "\<exists>cs. GetConsistentStorages (fst (SetAuthoritativeReplica wit_db1 ''vs'' ''repo'' ''c'')) ''vs'' ''repo'' = Inr cs \<and>
     set cs = {''c''}"
  by (rule authoritative_is_only_consistent [OF wit_db1_reachable])
    (simp add: wit_db1_eval SetAuthoritativeReplica_def)

text \<open>
  Replication from a consistent source: when \<open>GetReplicatedGeneration\<close> yields a known generation
  and it is recorded with \<open>SetGeneration\<close>, the target was behind, gets the generation of the source,
  joins the consistent storages, and no other replica changes.
\<close>

theorem replication_adds_target:
  assumes "store_step\<^sup>*\<^sup>* empty_db db" and "source \<noteq> target"
    and "GetConsistentStorages db vs path = Inr old" and "source \<in> set old"
    and "map_of (repositories db) (vs, path) = Some repo"
    and "rr_generation repo = Some (GetGeneration db vs path source)"
    and "GetReplicatedGeneration db vs path source target = Inr g" and "g \<noteq> GenerationUnknown"
  shows "target \<notin> set old \<and> (\<exists>new.
      GetConsistentStorages (SetGeneration db vs path target g) vs path = Inr new \<and> set new = insert target (set old)) \<and>
      GetGeneration (SetGeneration db vs path target g) v p s =
        (if v = vs \<and> p = path \<and> s = target then GetGeneration db vs path source else GetGeneration db v p s)"
proof -
  let ?db = "SetGeneration db vs path target g"
  have inv: "store_inv db" by (rule reachable_store_inv [OF assms(1)])
  have inv': "store_inv ?db" by (rule set_generation_inv [OF inv])
  have g: "GetGeneration db vs path source = g"
    and behind: "GetGeneration db vs path target = GenerationUnknown \<or> GetGeneration db vs path target < g"
    using assms(2,7) by (auto simp: GetReplicatedGeneration_def Let_def split: if_splits)
  have src: "replica_gen db vs path source = Some g"
    using g assms(8) by (auto simp: GetGeneration_def replica_gen_def split: option.splits)
  have repo: "repo_gen db vs path = Some g" using assms(5,6) g by (simp add: repo_gen_def)
  have tgt: "replica_gen db vs path target \<noteq> Some g"
    using behind assms(8) by (auto simp: GetGeneration_def replica_gen_def)
  have repo': "repo_gen ?db vs path = Some g"
    using repo assms(5) by (simp add: SetGeneration_view RepositoryExists_def)
  have rep': "replica_gen ?db vs path s = Some g \<longleftrightarrow> s = target \<or> replica_gen db vs path s = Some g" for s
    by (simp add: SetGeneration_view)
  obtain old' where "GetConsistentStorages db vs path = Inr old'" "set old' = {s. replica_gen db vs path s = Some g}"
    using consistent_at_generation [OF inv repo src] by blast
  with assms(3) have old: "set old = {s. replica_gen db vs path s = Some g}" by simp
  have "replica_gen ?db vs path target = Some g" by (simp add: rep')
  then obtain new where "GetConsistentStorages ?db vs path = Inr new"
    "set new = {s. replica_gen ?db vs path s = Some g}"
    by (rule consistent_at_generation [OF inv' repo'])
  then have "GetConsistentStorages ?db vs path = Inr new" "set new = insert target (set old)"
    by (auto simp: rep' old)
  moreover have "GetGeneration ?db v p s =
        (if v = vs \<and> p = path \<and> s = target then GetGeneration db vs path source else GetGeneration db v p s)"
    unfolding g unfolding GetGeneration_alt SetGeneration_view by simp
  ultimately show ?thesis using old tgt by auto
qed

definition wit_db2 :: repo_db where
  "wit_db2 = fst (IncrementGeneration wit_db1 ''vs'' ''repo'' ''a'' [])"

lemma wit_db2_reachable: "store_step\<^sup>*\<^sup>* empty_db wit_db2"
  unfolding wit_db2_def using wit_db1_reachable step_increment by (rule rtranclp.rtrancl_into_rtrancl)

lemma wit_db2_eval: "wit_db2 = wit_db1\<lparr>
  repositories := [((''vs'', ''repo''), \<lparr>rr_id = 1, rr_generation = Some 1, rr_primary = Some ''a'', rr_replica_path = Some ''repo''\<rparr>)],
  storage_repositories := [((''vs'', ''repo'', ''a''), \<lparr>sr_id = Some 1, sr_generation = 1\<rparr>),
    ((''vs'', ''repo'', ''b''), \<lparr>sr_id = Some 1, sr_generation = 0\<rparr>), ((''vs'', ''repo'', ''c''), \<lparr>sr_id = Some 1, sr_generation = 0\<rparr>)]\<rparr>"
  by (simp add: wit_db2_def wit_db1_eval IncrementGeneration_def Let_def to_update_def)

theorem replication_adds_target_witness:
  "GetReplicatedGeneration wit_db2 ''vs'' ''repo'' ''a'' ''b'' = Inr 1 \<and>
   (\<exists>new. GetConsistentStorages (SetGeneration wit_db2 ''vs'' ''repo'' ''b'' 1) ''vs'' ''repo'' = Inr new \<and>
     set new = {''a'', ''b''})"
proof -
  have facts: "GetConsistentStorages wit_db2 ''vs'' ''repo'' = Inr [''a'']"
    "GetReplicatedGeneration wit_db2 ''vs'' ''repo'' ''a'' ''b'' = Inr 1"
    "GetGeneration wit_db2 ''vs'' ''repo'' ''a'' = 1"
    by (simp_all add: wit_db2_eval wit_db1_eval GetConsistentStorages_def replicas_def max_generation_def
        GetReplicatedGeneration_def GetGeneration_def GenerationUnknown_def)
  have "map_of (repositories wit_db2) (''vs'', ''repo'') =
      Some \<lparr>rr_id = 1, rr_generation = Some 1, rr_primary = Some ''a'', rr_replica_path = Some ''repo''\<rparr>"
    by (simp add: wit_db2_eval)
  from replication_adds_target [OF wit_db2_reachable _ facts(1) _ this _ facts(2)] facts
  show ?thesis by (auto simp: GenerationUnknown_def insert_commute)
qed

text \<open>The lists that \<open>SetReplicationFactor\<close> computes.\<close>

lemma replication_factor_lists:
  fixes primary :: string
  assumes perm: "permutes random" and cand: "distinct candidates"
    and ex: "distinct existing" "set existing \<subseteq> set candidates"
    and rf: "1 \<le> rf" "rf \<le> length candidates"
  defines "created \<equiv> new_assignments random (Some primary) candidates existing rf"
  defines "removed \<equiv> removed_assignments random (Some primary) existing rf"
  defines "storages \<equiv> filter (\<lambda>s. s \<notin> set removed) existing @ created"
  shows "distinct storages" "length storages = rf" "set storages \<subseteq> set candidates"
    "if length existing \<le> rf then set existing \<subseteq> set storages else set storages \<subseteq> set existing"
    "primary \<in> set existing \<or> primary \<in> set candidates \<and> length existing < rf \<Longrightarrow> primary \<in> set storages"
proof -
  note cr = new_assignments_spec [OF perm cand ex rf(2), where primary = "Some primary", folded created_def]
  note rm = removed_assignments_spec [OF perm ex(1), where primary = "Some primary" and rf = rf, folded removed_def]
  have len: "length removed = length existing - min (length existing) rf" using rm(4) rf(1) by simp
  have "length (filter (\<lambda>s. s \<notin> set removed) existing) = card (set existing - set removed)"
    using ex(1) by (metis distinct_card distinct_filter set_diff_eq set_filter)
  also have "\<dots> = length existing - length removed"
    using rm(1,2) ex(1) by (simp add: card_Diff_subset distinct_card)
  finally have kept: "length (filter (\<lambda>s. s \<notin> set removed) existing) = length existing - length removed" .
  show "distinct storages" using ex(1) cr(1,2) by (auto simp: storages_def)
  show "length storages = rf" using kept len cr(3) by (simp add: storages_def)
  show "set storages \<subseteq> set candidates" using ex(2) cr(2) by (auto simp: storages_def)
  have "removed = []" if "length existing \<le> rf" using len that by simp
  moreover have "created = []" if "\<not> length existing \<le> rf" using cr(3) that by simp
  ultimately show "if length existing \<le> rf then set existing \<subseteq> set storages else set storages \<subseteq> set existing"
    by (auto simp: storages_def)
  show "primary \<in> set storages" if "primary \<in> set existing \<or> primary \<in> set candidates \<and> length existing < rf"
    using that rm(3) new_assignments_primary [OF perm, of primary candidates existing rf]
    by (cases "primary \<in> set existing") (auto simp: storages_def created_def)
qed

lemma GetHostAssignments_set:
  assumes "gowf (repository_assignments db)" "map_of conf vs = Some candidates"
    and "X = {s \<in> set candidates. map_of (repository_assignments db) (vs, path, s) \<noteq> None}" "X \<noteq> {}"
  shows "\<exists>hosts. GetHostAssignments conf db vs path = Inr hosts \<and> set hosts = X"
proof -
  have "set (assigned_storages db vs path candidates) = X"
    using assms(3) assigned_storages_spec(2) [OF assms(1)] by blast
  with assms(2,4) show ?thesis by (auto simp: GetHostAssignments_def Let_def)
qed

text \<open>
  C11. \<open>SetReplicationFactor\<close> with an attainable factor assigns exactly that many configured storages
  to a repository with a primary, keeps the assigned storages when it grows and adds none when it
  shrinks, never unassigns the primary, prefers it when it adds storages, and \<open>GetHostAssignments\<close>
  reads the result back. The order in which \<open>random()\<close> lists storages is arbitrary.
\<close>

theorem replication_factor_met:
  assumes "store_step\<^sup>*\<^sup>* empty_db db" and "permutes random"
    and "map_of conf vs = Some candidates" and "distinct candidates"
    and "map_of (repositories db) (vs, path) = Some repo" and "rr_primary repo = Some primary"
    and "1 \<le> rf" and "rf \<le> int (length candidates)"
  shows "\<exists>db' storages hosts. SetReplicationFactor random conf db vs path rf = (db', Inr storages) \<and>
    distinct storages \<and> length storages = nat rf \<and> set storages \<subseteq> set candidates \<and>
    GetHostAssignments conf db' vs path = Inr hosts \<and> set hosts = set storages \<and>
    (let existing = assigned_storages db vs path candidates in
       (if length existing \<le> nat rf then set existing \<subseteq> set storages else set storages \<subseteq> set existing) \<and>
       (primary \<in> set existing \<or> primary \<in> set candidates \<and> length existing < nat rf \<longrightarrow> primary \<in> set storages))"
proof -
  have wf: "gowf (repository_assignments db)"
    using reachable_store_inv [OF assms(1)] by (simp add: store_inv_def db_wf_def)
  define existing where "existing = assigned_storages db vs path candidates"
  define created where "created = new_assignments random (rr_primary repo) candidates existing (nat rf)"
  define removed where "removed = removed_assignments random (rr_primary repo) existing (nat rf)"
  define storages where "storages = filter (\<lambda>s. s \<notin> set removed) existing @ created"
  note ex = assigned_storages_spec [OF wf, where vs = vs and path = path and configured = candidates,
      folded existing_def]
  have sub: "set existing \<subseteq> set candidates" using ex(2) by auto
  have rf: "1 \<le> nat rf" "nat rf \<le> length candidates" using assms(7,8) by auto
  note lists = replication_factor_lists [OF assms(2,4) ex(1) sub rf, where primary = primary, folded assms(6),
      folded created_def removed_def, folded storages_def]
  have "storages \<noteq> []" using lists(2) rf(1) by auto
  then have "snd (SetReplicationFactor random conf db vs path rf) = Inr storages"
    using assms(3,5,7,8) unfolding SetReplicationFactor_def storages_def created_def removed_def existing_def
    by (simp add: Let_def)
  then obtain db' where srf: "SetReplicationFactor random conf db vs path rf = (db', Inr storages)"
    by (metis prod.collapse)
  note tabs = replication_factor_tables [OF wf assms(2,3,4,5,7,8) srf, folded existing_def,
      folded created_def removed_def]
  have "set removed \<subseteq> set existing"
    using removed_assignments_spec(2) [OF assms(2) ex(1)] by (simp add: removed_def)
  moreover have "set created \<subseteq> set candidates - set existing"
    using new_assignments_spec(2) [OF assms(2,4) ex(1) sub rf(2)] by (simp add: created_def)
  ultimately have "set storages =
      {s \<in> set candidates. map_of (repository_assignments db') (vs, path, s) \<noteq> None}"
    unfolding tabs(2) storages_def using ex(2) by auto
  from GetHostAssignments_set [OF tabs(1) assms(3) this] \<open>storages \<noteq> []\<close> obtain hosts where
    "GetHostAssignments conf db' vs path = Inr hosts" "set hosts = set storages" by auto
  with srf lists show ?thesis unfolding existing_def Let_def by blast
qed

theorem replication_factor_met_witness:
  "\<exists>db' storages hosts. SetReplicationFactor (\<lambda>xs. xs) [(''vs'', [''a'', ''b'', ''c'', ''d''])] wit_db1 ''vs'' ''repo'' 2 =
      (db', Inr storages) \<and> length storages = 2 \<and> ''a'' \<in> set storages \<and>
    GetHostAssignments [(''vs'', [''a'', ''b'', ''c'', ''d''])] db' ''vs'' ''repo'' = Inr hosts \<and> set hosts = set storages"
proof -
  let ?conf = "[(''vs'', [''a'', ''b'', ''c'', ''d''])]"
  have conf: "map_of ?conf ''vs'' = Some [''a'', ''b'', ''c'', ''d'']" "distinct [''a'', ''b'', ''c'', ''d'']" by simp_all
  have repo: "map_of (repositories wit_db1) (''vs'', ''repo'') =
      Some \<lparr>rr_id = 1, rr_generation = Some 0, rr_primary = Some ''a'', rr_replica_path = Some ''repo''\<rparr>"
    by (simp add: wit_db1_eval)
  have ex: "assigned_storages wit_db1 ''vs'' ''repo'' [''a'', ''b'', ''c'', ''d''] = [''a'', ''b'', ''c'']"
    by (simp add: wit_db1_eval assigned_storages_def)
  have "permutes (\<lambda>xs. xs)" by (simp add: permutes_def)
  from replication_factor_met [OF wit_db1_reachable this conf repo, of "''a''" 2]
  show ?thesis by (auto simp: ex Let_def)
qed

section \<open>After a deletion\<close>

text \<open>
  \<open>DeleteRepository\<close> removes the record of the repository even when it reports that no row was
  affected, because only rows of replicas are counted.
\<close>

lemma delete_without_replicas_deletes:
  "snd (DeleteRepository wit_db1 ''vs'' ''repo'' []) = Some ErrNoRowsAffected \<and>
   RepositoryExists wit_db1 ''vs'' ''repo'' \<and>
   \<not> RepositoryExists (fst (DeleteRepository wit_db1 ''vs'' ''repo'' [])) ''vs'' ''repo''"
  by (simp add: wit_db1_eval DeleteRepository_def has_replica_def drop_replicas_def drop_repository_def
      RepositoryExists_def)

text \<open>
  A replica that a deletion leaves behind at a later generation makes a new repository under the same
  path look outdated: the leftover is then the only consistent storage.
\<close>

lemma recreated_repository_prefers_leftover:
  "GetConsistentStorages (fst (CreateRepository (fst (DeleteRepository wit_db2 ''vs'' ''repo'' [''b'', ''c'']))
      2 ''vs'' ''repo'' ''b'' [''c''] [] True True)) ''vs'' ''repo'' = Inr [''a'']"
  by (simp add: wit_db2_eval wit_db1_eval DeleteRepository_def drop_replicas_def drop_repository_def
      CreateRepository_def Let_def GetConsistentStorages_def replicas_def max_generation_def)

end
