(* ===== verification/Replication_Events.thy ===== *)
theory Replication_Events
  imports Praefect_Prelude
begin

text \<open>
  Replication jobs and events: \<open>internal/praefect/datastore/datastore.go\<close> and the types of
  \<open>queue.go\<close>, and the interface \<open>ReplicationEventQueue\<close> as a locale, with what follows from it for
  a sequence of calls.

  Times are integers. The parameters of a job are \<open>None\<close> for a nil map. Two jobs have the same JSON
  text when all fields and all parameters agree. The \<open>Meta\<close> of events is only stored, and left out.
\<close>

section \<open>Jobs and events\<close>

datatype JobState =
    JobStateReady
  | JobStateInProgress
  | JobStateCompleted
  | JobStateCancelled
  | JobStateFailed
  | JobStateDead

datatype ChangeType =
    UpdateRepo
  | CreateRepo
  | DeleteRepo
  | DeleteReplica
  | RenameRepo
  | GarbageCollect
  | RepackFull
  | RepackIncremental
  | Cleanup
  | PackRefs
  | WriteCommitGraph
  | MidxRepack
  | OptimizeRepository

datatype param = ParamBool bool | ParamString string | ParamNumber int

type_synonym Params = "(string, param) gomap option"

datatype param_error = KeyDoesNotExist | UnexpectedType

definition GetBool :: "Params \<Rightarrow> string \<Rightarrow> param_error + bool" where
  "GetBool p key =
     (case Option.bind p (\<lambda>m. map_of m key) of
        None \<Rightarrow> Inl KeyDoesNotExist
      | Some (ParamBool b) \<Rightarrow> Inr b
      | Some _ \<Rightarrow> Inl UnexpectedType)"

record ReplicationJob =
  RepositoryID :: int
  Change :: ChangeType
  RelativePath :: string
  TargetNodeStorage :: string
  SourceNodeStorage :: string
  job_VirtualStorage :: string
  job_Params :: Params

record ReplicationEvent =
  ev_ID :: nat
  ev_State :: JobState
  Attempt :: int
  LockID :: string
  CreatedAt :: int
  UpdatedAt :: "int option"
  Job :: ReplicationJob

fun params_eq :: "Params \<Rightarrow> Params \<Rightarrow> bool" where
  "params_eq None None = True"
| "params_eq (Some p) (Some q) = list_all (\<lambda>k. map_of p k = map_of q k) (map fst p @ map fst q)"
| "params_eq _ _ = False"

text \<open>Equality of \<open>json.Marshal(job)\<close>.\<close>

definition same_job :: "ReplicationJob \<Rightarrow> ReplicationJob \<Rightarrow> bool" where
  "same_job a b \<longleftrightarrow>
     RepositoryID a = RepositoryID b \<and> Change a = Change b \<and> RelativePath a = RelativePath b \<and>
     TargetNodeStorage a = TargetNodeStorage b \<and> SourceNodeStorage a = SourceNodeStorage b \<and>
     job_VirtualStorage a = job_VirtualStorage b \<and> params_eq (job_Params a) (job_Params b)"

definition allowToAck :: "JobState \<Rightarrow> bool" where
  "allowToAck state \<longleftrightarrow> state \<in> {JobStateCompleted, JobStateFailed, JobStateCancelled, JobStateDead}"

text \<open>\<open>VirtualStorage + "|" + TargetNodeStorage + "|" + RelativePath\<close>.\<close>

definition lock_id :: "ReplicationJob \<Rightarrow> string" where
  "lock_id job = job_VirtualStorage job @ ''|'' @ TargetNodeStorage job @ ''|'' @ RelativePath job"

lemma params_eq_iff: "params_eq p q \<longleftrightarrow> map_option map_of p = map_option map_of q"
proof (cases "(p, q)" rule: params_eq.cases)
  case (2 a b)
  have "list_all (\<lambda>k. map_of a k = map_of b k) (map fst a @ map fst b) \<longleftrightarrow> map_of a = map_of b"
  proof
    assume eq: "list_all (\<lambda>k. map_of a k = map_of b k) (map fst a @ map fst b)"
    show "map_of a = map_of b"
    proof
      fix k
      show "map_of a k = map_of b k"
      proof (cases "k \<in> fst ` set a \<union> fst ` set b")
        case False
        then have "map_of a k = None" "map_of b k = None" by (simp_all add: map_of_eq_None_iff)
        then show ?thesis by simp
      qed (use eq in \<open>auto simp: list_all_iff\<close>)
    qed
  qed (simp add: list_all_iff)
  with 2 show ?thesis by simp
qed auto

lemma same_job_refl [simp]: "same_job a a"
  by (simp add: same_job_def params_eq_iff)

lemma same_job_sym: "same_job a b \<Longrightarrow> same_job b a"
  by (simp add: same_job_def params_eq_iff)

lemma same_job_trans: "same_job a b \<Longrightarrow> same_job b c \<Longrightarrow> same_job a c"
  by (simp add: same_job_def params_eq_iff)

section \<open>Events by identifier\<close>

abbreviation by_id :: "ReplicationEvent list \<Rightarrow> (nat, ReplicationEvent) gomap" where
  "by_id es \<equiv> map (\<lambda>e. (ev_ID e, e)) es"

lemma by_id_Some: "map_of (by_id es) i = Some e \<Longrightarrow> e \<in> set es \<and> ev_ID e = i"
  by (auto dest!: map_of_SomeD)

lemma by_id_None: "map_of (by_id es) i = None \<longleftrightarrow> i \<notin> ev_ID ` set es"
  by (force simp: map_of_eq_None_iff)

lemma by_id_mem: "distinct (map ev_ID es) \<Longrightarrow> e \<in> set es \<Longrightarrow> map_of (by_id es) (ev_ID e) = Some e"
  by (rule map_of_is_SomeI) (auto simp: comp_def)

lemma by_id_unique: "distinct (map ev_ID es) \<Longrightarrow> e \<in> set es \<Longrightarrow> e' \<in> set es \<Longrightarrow> ev_ID e = ev_ID e' \<Longrightarrow> e = e'"
  by (auto simp: distinct_map inj_on_def)

lemma map_of_map_same_key: "map_of (map (\<lambda>e. (k e, f e)) es) i = map_option f (map_of (map (\<lambda>e. (k e, e)) es) i)"
  by (induction es) auto

lemma by_id_filter:
  assumes "distinct (map ev_ID es)"
  shows "map_of (by_id (filter P es)) i = (case map_of (by_id es) i of None \<Rightarrow> None | Some e \<Rightarrow> if P e then Some e else None)"
proof -
  have "by_id (filter P es) = filter (\<lambda>(k, e). P e) (by_id es)" by (induction es) auto
  moreover have "gowf (by_id es)" using assms by (simp add: gowf_def comp_def)
  ultimately show ?thesis by (simp add: map_of_filter_entries split: option.split)
qed

section \<open>The interface of queues\<close>

datatype enqueue_error = UniqueViolation

datatype ack_error = EventStateNotSupported | EventNotInProgress nat | DeadAckedAsFailed | NilDereference

text \<open>
  The laws of a queue: \<open>lookup\<close> finds the event with an identifier, \<open>used\<close> holds the identifiers given
  out so far. An enqueued event gets an unused identifier. Only events that are ready or failed are
  dequeued, and they are in progress afterwards. Acknowledging changes the state of events that are
  in progress only, and may drop others.
\<close>

locale event_queue =
  fixes inv :: "'s \<Rightarrow> bool"
    and lookup :: "'s \<Rightarrow> nat \<Rightarrow> ReplicationEvent option"
    and used :: "'s \<Rightarrow> nat set"
    and enqueue :: "int \<Rightarrow> ReplicationJob \<Rightarrow> 's \<Rightarrow> 's \<times> (enqueue_error + ReplicationEvent)"
    and dequeue :: "int \<Rightarrow> string \<Rightarrow> string \<Rightarrow> int \<Rightarrow> 's \<Rightarrow> 's \<times> ReplicationEvent list"
    and acknowledge :: "int \<Rightarrow> JobState \<Rightarrow> nat list \<Rightarrow> 's \<Rightarrow> 's \<times> (ack_error + nat list)"
  assumes lookup_used: "inv s \<Longrightarrow> lookup s i = Some e \<Longrightarrow> i \<in> used s"
    and enqueue_error: "inv s \<Longrightarrow> enqueue now job s = (s', Inl err) \<Longrightarrow> s' = s"
    and enqueue_law: "inv s \<Longrightarrow> enqueue now job s = (s', Inr e) \<Longrightarrow>
      inv s' \<and> ev_ID e \<notin> used s \<and> used s' = insert (ev_ID e) (used s) \<and>
      lookup s' = (lookup s)(ev_ID e \<mapsto> e) \<and> ev_State e = JobStateReady \<and> Attempt e = 3 \<and> Job e = job"
    and dequeue_law: "inv s \<Longrightarrow> dequeue now vs node n s = (s', es) \<Longrightarrow>
      inv s' \<and> used s' = used s \<and> distinct (map ev_ID es) \<and>
      (\<forall>i. lookup s' i = (case map_of (map (\<lambda>e. (ev_ID e, e)) es) i of None \<Rightarrow> lookup s i | Some e \<Rightarrow> Some e)) \<and>
      (\<forall>e\<in>set es. ev_State e = JobStateInProgress \<and> (\<exists>e0. lookup s (ev_ID e) = Some e0 \<and>
         ev_State e0 \<in> {JobStateReady, JobStateFailed} \<and> Job e = Job e0))"
    and acknowledge_law: "inv s \<Longrightarrow> acknowledge now st ids s = (s', r) \<Longrightarrow>
      inv s' \<and> used s' = used s \<and> (\<forall>i. i \<in> set ids \<or> lookup s' i \<in> {None, lookup s i}) \<and>
      (\<forall>i e'. lookup s' i = Some e' \<longrightarrow> (\<exists>e. lookup s i = Some e \<and> Job e = Job e')) \<and>
      (\<forall>acked. r = Inr acked \<longrightarrow> set acked \<subseteq> set ids \<and>
         (\<forall>i\<in>set acked. (\<exists>e. lookup s i = Some e \<and> ev_State e = JobStateInProgress) \<and>
            (st = JobStateCompleted \<longrightarrow> lookup s' i = None)))"

datatype queue_call =
    EnqueueCall int ReplicationJob
  | DequeueCall int string string int
  | AcknowledgeCall int JobState "nat list"

fun exec_call ::
  "(int \<Rightarrow> ReplicationJob \<Rightarrow> 's \<Rightarrow> 's \<times> (enqueue_error + ReplicationEvent)) \<Rightarrow>
   (int \<Rightarrow> string \<Rightarrow> string \<Rightarrow> int \<Rightarrow> 's \<Rightarrow> 's \<times> ReplicationEvent list) \<Rightarrow>
   (int \<Rightarrow> JobState \<Rightarrow> nat list \<Rightarrow> 's \<Rightarrow> 's \<times> (ack_error + nat list)) \<Rightarrow> queue_call \<Rightarrow> 's \<Rightarrow> 's" where
  "exec_call enq deq ack (EnqueueCall now job) s = fst (enq now job s)"
| "exec_call enq deq ack (DequeueCall now vs node n) s = fst (deq now vs node n s)"
| "exec_call enq deq ack (AcknowledgeCall now st ids) s = fst (ack now st ids s)"

fun acknowledges :: "nat \<Rightarrow> queue_call \<Rightarrow> bool" where
  "acknowledges i (AcknowledgeCall now st ids) \<longleftrightarrow> i \<in> set ids"
| "acknowledges i _ \<longleftrightarrow> False"

context event_queue
begin

abbreviation "run calls s \<equiv> fold (exec_call enqueue dequeue acknowledge) calls s"

text \<open>An event that is being worked on, or gone for good.\<close>

definition taken :: "nat \<Rightarrow> 's \<Rightarrow> bool" where
  "taken i s \<longleftrightarrow> inv s \<and> i \<in> used s \<and>
     (case lookup s i of None \<Rightarrow> True | Some e \<Rightarrow> ev_State e = JobStateInProgress)"

lemma call_inv: "inv s \<Longrightarrow> inv (exec_call enqueue dequeue acknowledge c s)"
proof (cases c)
  case (EnqueueCall now job)
  assume "inv s"
  obtain s' r where enq: "enqueue now job s = (s', r)" by fastforce
  show ?thesis
  proof (cases r)
    case (Inl err)
    with enqueue_error [OF \<open>inv s\<close>] enq EnqueueCall \<open>inv s\<close> show ?thesis by fastforce
  next
    case (Inr e)
    with enqueue_law [OF \<open>inv s\<close>] enq EnqueueCall show ?thesis by fastforce
  qed
qed (simp_all add: dequeue_law [OF _ prod.collapse [symmetric]] acknowledge_law [OF _ prod.collapse [symmetric]])

lemma run_inv: "inv s \<Longrightarrow> inv (run calls s)"
  by (induction calls arbitrary: s) (auto simp: call_inv)

lemma taken_not_dequeued:
  assumes "taken i s" "dequeue now vs node n s = (s', es)"
  shows "i \<notin> ev_ID ` set es"
proof
  assume "i \<in> ev_ID ` set es"
  then obtain e where "e \<in> set es" "ev_ID e = i" by auto
  with dequeue_law [of s now vs node n s' es] assms show False
    by (fastforce simp: taken_def split: option.splits)
qed

lemma taken_call:
  assumes "taken i s" "\<not> acknowledges i c"
  shows "taken i (exec_call enqueue dequeue acknowledge c s)"
proof (cases c)
  case (EnqueueCall now job)
  obtain s' r where enq: "enqueue now job s = (s', r)" by fastforce
  then show ?thesis
    using EnqueueCall assms enqueue_law [of s now job s'] enqueue_error [of s now job s']
    by (cases r) (fastforce simp: taken_def)+
next
  case (DequeueCall now vs node n)
  obtain s' es where deq: "dequeue now vs node n s = (s', es)" by fastforce
  have "map_of (map (\<lambda>e. (ev_ID e, e)) es) i = None"
    using taken_not_dequeued [OF assms(1) deq] by (force simp: map_of_eq_None_iff)
  with DequeueCall deq assms dequeue_law [of s now vs node n s' es] show ?thesis
    by (simp add: taken_def)
next
  case (AcknowledgeCall now st ids)
  obtain s' r where "acknowledge now st ids s = (s', r)" by fastforce
  with AcknowledgeCall assms acknowledge_law [of s now st ids s' r] show ?thesis
    by (force simp: taken_def split: option.splits)
qed

lemma taken_run:
  "taken i s \<Longrightarrow> list_all (\<lambda>c. \<not> acknowledges i c) calls \<Longrightarrow> taken i (run calls s)"
  by (induction calls arbitrary: s) (auto simp: taken_call)

text \<open>No event is handed out again before it is acknowledged.\<close>

lemma exclusive:
  assumes "inv s" "dequeue now vs node n s = (s', es)" "e \<in> set es"
    and "list_all (\<lambda>c. \<not> acknowledges (ev_ID e) c) calls"
    and "dequeue now' vs' node' n' (run calls s') = (s'', es')"
  shows "ev_ID e \<notin> ev_ID ` set es'"
proof -
  have "taken (ev_ID e) s'"
    using dequeue_law [OF assms(1,2)] assms(3) lookup_used [OF assms(1)] 
    by (force simp: taken_def map_of_eq_None_iff split: option.split dest!: map_of_SomeD)
  from taken_not_dequeued [OF taken_run [OF this assms(4)] assms(5)] show ?thesis .
qed

text \<open>A completed event is never handed out again.\<close>

lemma completed_is_gone:
  assumes "inv s" "acknowledge now JobStateCompleted ids s = (s', Inr acked)" "i \<in> set acked"
    and "dequeue now' vs' node' n' (run calls s') = (s'', es')"
  shows "i \<notin> ev_ID ` set es'"
proof -
  define gone where "gone s \<longleftrightarrow> inv s \<and> i \<in> used s \<and> lookup s i = None" for s
  have "gone s'"
    using acknowledge_law [OF assms(1,2)] assms(3) lookup_used [OF assms(1)] by (auto simp: gone_def)
  moreover have "gone (exec_call enqueue dequeue acknowledge c s)" if "gone s" for c s
  proof (cases c)
    case (EnqueueCall now job)
    obtain s' r where "enqueue now job s = (s', r)" by fastforce
    then show ?thesis
      using EnqueueCall that enqueue_law [of s now job s'] enqueue_error [of s now job s']
      by (cases r) (fastforce simp: gone_def)+
  next
    case (DequeueCall now vs node n)
    obtain s' es where deq: "dequeue now vs node n s = (s', es)" by fastforce
    have "taken i s" using that by (simp add: gone_def taken_def)
    then have "map_of (map (\<lambda>e. (ev_ID e, e)) es) i = None"
      using taken_not_dequeued [OF _ deq] by (force simp: map_of_eq_None_iff)
    with DequeueCall deq that dequeue_law [of s now vs node n s' es] show ?thesis by (simp add: gone_def)
  next
    case (AcknowledgeCall now st ids)
    obtain s' r where ack: "acknowledge now st ids s = (s', r)" by fastforce
    have "lookup s' i = None"
      using acknowledge_law [OF _ ack] that by (cases "lookup s' i") (force simp: gone_def)+
    with AcknowledgeCall ack that acknowledge_law [of s now st ids s' r] show ?thesis by (simp add: gone_def)
  qed
  then have "gone (run calls s)" if "gone s" for s
    using that by (induction calls arbitrary: s) auto
  ultimately have "taken i (run calls s')" by (simp add: gone_def taken_def)
  from taken_not_dequeued [OF this assms(4)] show ?thesis .
qed

end

end
