(* ===== verification/Memory_Queue.thy ===== *)
theory Memory_Queue
  imports Replication_Events
begin

text \<open>
  The replication queue in memory: \<open>internal/praefect/datastore/memory.go\<close>. Every method runs under
  one lock and is a function on the state. The clock is an argument. Identifiers are natural
  numbers: the counter does not come near the limit of \<open>uint64\<close>. The storages of the
  configuration are kept by the queue but never read.
\<close>

section \<open>State and operations\<close>

type_synonym eventDestination = "string \<times> string \<times> string"

record memoryReplicationEventQueue =
  seq :: nat
  queued :: "ReplicationEvent list"
  dequeued :: "nat list"
  lastEventByDest :: "(eventDestination, ReplicationEvent) gomap"

definition NewMemoryReplicationEventQueue :: memoryReplicationEventQueue where
  "NewMemoryReplicationEventQueue = \<lparr>seq = 0, queued = [], dequeued = [], lastEventByDest = []\<rparr>"

definition nextID :: "memoryReplicationEventQueue \<Rightarrow> nat \<times> memoryReplicationEventQueue" where
  "nextID s = (seq s + 1, s\<lparr>seq := seq s + 1\<rparr>)"

definition defineDest :: "ReplicationEvent \<Rightarrow> eventDestination" where
  "defineDest event = (job_VirtualStorage (Job event), TargetNodeStorage (Job event), RelativePath (Job event))"

definition Enqueue ::
  "int \<Rightarrow> ReplicationJob \<Rightarrow> memoryReplicationEventQueue \<Rightarrow>
   memoryReplicationEventQueue \<times> (enqueue_error + ReplicationEvent)" where
  "Enqueue now job s =
     (let (ID, s) = nextID s;
          event = \<lparr>ev_ID = ID, ev_State = JobStateReady, Attempt = 3, LockID = lock_id job,
                   CreatedAt = now, UpdatedAt = None, Job = job\<rparr>
      in (s\<lparr>queued := queued s @ [event],
            lastEventByDest := AList.update (defineDest event) event (lastEventByDest s)\<rparr>, Inr event))"

text \<open>Replacing the last event of a destination by its new version.\<close>

definition update_last ::
  "ReplicationEvent \<Rightarrow> (eventDestination, ReplicationEvent) gomap \<Rightarrow> (eventDestination, ReplicationEvent) gomap" where
  "update_last event m =
     (case map_of m (defineDest event) of
        Some l \<Rightarrow> if ev_ID l = ev_ID event then AList.update (defineDest event) event m else m
      | None \<Rightarrow> m)"

text \<open>
  The loop of \<open>Dequeue\<close> over the rest of the queue: \<open>uniqueJob\<close> are the jobs seen, \<open>taken\<close> is the
  number of results so far. It returns the new rest and the results.
\<close>

fun dequeue_loop ::
  "int \<Rightarrow> string \<Rightarrow> string \<Rightarrow> int \<Rightarrow> ReplicationJob list \<Rightarrow> nat \<Rightarrow> ReplicationEvent list \<Rightarrow>
   ReplicationEvent list \<times> ReplicationEvent list" where
  "dequeue_loop now vs node limit uniqueJob taken [] = ([], [])"
| "dequeue_loop now vs node limit uniqueJob taken (event # rest) =
     (if job_VirtualStorage (Job event) = vs \<and> TargetNodeStorage (Job event) = node \<and>
         (ev_State event = JobStateReady \<or> ev_State event = JobStateFailed) \<and>
         \<not> list_ex (same_job (Job event)) uniqueJob
      then
        (let event' = event\<lparr>Attempt := Attempt event - 1, ev_State := JobStateInProgress, UpdatedAt := Some now\<rparr>
         in if limit \<le> int (taken + 1) then (event' # rest, [event'])
            else let (rest', result) = dequeue_loop now vs node limit (Job event # uniqueJob) (taken + 1) rest
                 in (event' # rest', event' # result))
      else let (rest', result) = dequeue_loop now vs node limit uniqueJob taken rest
           in (event # rest', result))"

definition Dequeue ::
  "int \<Rightarrow> string \<Rightarrow> string \<Rightarrow> int \<Rightarrow> memoryReplicationEventQueue \<Rightarrow>
   memoryReplicationEventQueue \<times> ReplicationEvent list" where
  "Dequeue now vs node limit s =
     (let (queued', result) = dequeue_loop now vs node limit [] 0 (queued s)
      in (s\<lparr>queued := queued', dequeued := fold List.insert (map ev_ID result) (dequeued s),
            lastEventByDest := fold update_last result (lastEventByDest s)\<rparr>, result))"

text \<open>
  The inner loop of \<open>Acknowledge\<close> behind a completed event: it removes events with the same job. The
  index moves on after a removal, so the event behind a removed one is not looked at. It returns the
  rest and the identifiers removed.
\<close>

fun remove_similar :: "int \<Rightarrow> ReplicationJob \<Rightarrow> ReplicationEvent list \<Rightarrow> ReplicationEvent list \<times> nat list" where
  "remove_similar dequeuedAt job [] = ([], [])"
| "remove_similar dequeuedAt job (e # es) =
     (if dequeuedAt < CreatedAt e then (e # es, [])
      else if same_job job (Job e) then
        (case es of
           [] \<Rightarrow> ([], [ev_ID e])
         | e' # es' \<Rightarrow> (let (rest, ids) = remove_similar dequeuedAt job es' in (e' # rest, ev_ID e # ids)))
      else (let (rest, ids) = remove_similar dequeuedAt job es in (e # rest, ids)))"

text \<open>
  Acknowledging one identifier: the events before the one found, the event, and the events behind it.
\<close>

definition ack_found ::
  "int \<Rightarrow> JobState \<Rightarrow> ReplicationEvent list \<Rightarrow> ReplicationEvent \<Rightarrow> ReplicationEvent list \<Rightarrow>
   memoryReplicationEventQueue \<Rightarrow> memoryReplicationEventQueue \<times> ack_error option" where
  "ack_found now st before event behind s =
     (if ev_State event \<noteq> JobStateInProgress then (s, Some (EventNotInProgress (ev_ID event)))
      else if Attempt event = 0 \<and> st = JobStateFailed then (s, Some DeadAckedAsFailed)
      else
        (let event' = event\<lparr>ev_State := st, UpdatedAt := Some now\<rparr>;
             s' = s\<lparr>queued := before @ event' # behind, lastEventByDest := update_last event' (lastEventByDest s)\<rparr>
         in case (st, UpdatedAt event) of
              (JobStateCompleted, None) \<Rightarrow>
                (if behind = [] then (s'\<lparr>queued := before, dequeued := removeAll (ev_ID event) (dequeued s)\<rparr>, None)
                 else (s', Some NilDereference))
            | (JobStateCompleted, Some dequeuedAt) \<Rightarrow>
                (let (rest, ids) = remove_similar dequeuedAt (Job event) behind
                 in (s'\<lparr>queued := before @ rest,
                        dequeued := filter (\<lambda>i. i \<notin> set (ev_ID event # ids)) (dequeued s)\<rparr>, None))
            | _ \<Rightarrow>
                (if st = JobStateCancelled \<or> st = JobStateDead
                 then (s'\<lparr>queued := before @ behind, dequeued := removeAll (ev_ID event) (dequeued s)\<rparr>, None)
                 else (s', None))))"

text \<open>\<open>result\<close> collects the identifiers acknowledged; an error keeps what was done before.\<close>

fun ack_ids ::
  "int \<Rightarrow> JobState \<Rightarrow> nat list \<Rightarrow> nat list \<Rightarrow> memoryReplicationEventQueue \<Rightarrow>
   memoryReplicationEventQueue \<times> (ack_error + nat list)" where
  "ack_ids now st [] result s = (s, Inr result)"
| "ack_ids now st (i # ids) result s =
     (if i \<notin> set (dequeued s) then ack_ids now st ids result s
      else case dropWhile (\<lambda>e. ev_ID e \<noteq> i) (queued s) of
             [] \<Rightarrow> ack_ids now st ids result s
           | event # behind \<Rightarrow>
               (case ack_found now st (takeWhile (\<lambda>e. ev_ID e \<noteq> i) (queued s)) event behind s of
                  (s', Some err) \<Rightarrow> (s', Inl err)
                | (s', None) \<Rightarrow> ack_ids now st ids (result @ [i]) s'))"

definition Acknowledge ::
  "int \<Rightarrow> JobState \<Rightarrow> nat list \<Rightarrow> memoryReplicationEventQueue \<Rightarrow>
   memoryReplicationEventQueue \<times> (ack_error + nat list)" where
  "Acknowledge now st ids s =
     (if ids = [] then (s, Inr [])
      else if \<not> allowToAck st then (s, Inl EventStateNotSupported)
      else ack_ids now st ids [] s)"

section \<open>Invariant\<close>

text \<open>
  Every event in the queue is ready with three attempts left, in progress and known as dequeued, or
  failed with at least one attempt left.
\<close>

definition event_ok :: "nat list \<Rightarrow> ReplicationEvent \<Rightarrow> bool" where
  "event_ok deq e \<longleftrightarrow>
     (case ev_State e of
        JobStateReady \<Rightarrow> Attempt e = 3
      | JobStateInProgress \<Rightarrow> 0 \<le> Attempt e \<and> Attempt e \<le> 2 \<and> UpdatedAt e \<noteq> None \<and> ev_ID e \<in> set deq
      | JobStateFailed \<Rightarrow> 1 \<le> Attempt e \<and> Attempt e \<le> 2
      | _ \<Rightarrow> False)"

definition memory_inv :: "memoryReplicationEventQueue \<Rightarrow> bool" where
  "memory_inv s \<longleftrightarrow> distinct (map ev_ID (queued s)) \<and> distinct (dequeued s) \<and>
     list_all (\<lambda>e. ev_ID e \<le> seq s) (queued s) \<and> list_all (event_ok (dequeued s)) (queued s)"

definition memory_lookup :: "memoryReplicationEventQueue \<Rightarrow> nat \<Rightarrow> ReplicationEvent option" where
  "memory_lookup s i = map_of (map (\<lambda>e. (ev_ID e, e)) (queued s)) i"

definition memory_used :: "memoryReplicationEventQueue \<Rightarrow> nat set" where
  "memory_used s = {..seq s}"

lemma event_ok_mono: "event_ok deq e \<Longrightarrow> (ev_ID e \<in> set deq \<Longrightarrow> ev_ID e \<in> set deq') \<Longrightarrow> event_ok deq' e"
  by (auto simp: event_ok_def split: JobState.splits)

lemma memory_initial: "memory_inv NewMemoryReplicationEventQueue"
  by (simp add: memory_inv_def NewMemoryReplicationEventQueue_def)

subsection \<open>Dequeueing\<close>

lemma set_fold_insert: "set (fold List.insert xs ys) = set xs \<union> set ys"
  by (induction xs arbitrary: ys) auto

lemma distinct_fold_insert: "distinct ys \<Longrightarrow> distinct (fold List.insert xs ys)"
  by (induction xs arbitrary: ys) auto

definition start :: "int \<Rightarrow> ReplicationEvent \<Rightarrow> ReplicationEvent" where
  "start now e = e\<lparr>Attempt := Attempt e - 1, ev_State := JobStateInProgress, UpdatedAt := Some now\<rparr>"

definition eligible :: "string \<Rightarrow> string \<Rightarrow> ReplicationEvent \<Rightarrow> bool" where
  "eligible vs node e \<longleftrightarrow> job_VirtualStorage (Job e) = vs \<and> TargetNodeStorage (Job e) = node \<and>
     ev_State e \<in> {JobStateReady, JobStateFailed}"

lemma start_simps [simp]:
  "ev_ID (start now e) = ev_ID e" "Job (start now e) = Job e" "ev_State (start now e) = JobStateInProgress"
  "Attempt (start now e) = Attempt e - 1" "UpdatedAt (start now e) = Some now" "CreatedAt (start now e) = CreatedAt e"
  by (simp_all add: start_def)

text \<open>The loop starts a choice of eligible events and keeps the others in place.\<close>

lemma dequeue_loop_spec:
  assumes "dequeue_loop now vs node limit uniq n es = (es', result)" "distinct (map ev_ID es)"
  shows "\<exists>ids. ids \<subseteq> ev_ID ` {e \<in> set es. eligible vs node e} \<and>
    es' = map (\<lambda>e. if ev_ID e \<in> ids then start now e else e) es \<and>
    result = map (start now) (filter (\<lambda>e. ev_ID e \<in> ids) es)"
  using assms
proof (induction now vs node limit uniq n es arbitrary: es' result rule: dequeue_loop.induct)
  case (2 now vs node limit uniq n event rest)
  let ?take = "job_VirtualStorage (Job event) = vs \<and> TargetNodeStorage (Job event) = node \<and>
      (ev_State event = JobStateReady \<or> ev_State event = JobStateFailed) \<and> \<not> list_ex (same_job (Job event)) uniq"
  have dist: "distinct (map ev_ID rest)" using 2(4) by simp
  have diff: "ev_ID x \<noteq> ev_ID event" if "x \<in> set rest" for x
    using 2(4) imageI [OF that, of ev_ID] by auto
  have same: "map (\<lambda>e. if ev_ID e \<in> insert (ev_ID event) ids then start now e else e) rest =
      map (\<lambda>e. if ev_ID e \<in> ids then start now e else e) rest"
    "filter (\<lambda>e. ev_ID e \<in> insert (ev_ID event) ids) rest = filter (\<lambda>e. ev_ID e \<in> ids) rest" for ids
    using diff by (auto intro!: filter_cong)
  show ?case
  proof (cases ?take)
    case False
    obtain rest' result' where rec: "dequeue_loop now vs node limit uniq n rest = (rest', result')" by fastforce
    from 2(2) [OF False rec dist] obtain ids where ids: "ids \<subseteq> ev_ID ` {e \<in> set rest. eligible vs node e}"
      "rest' = map (\<lambda>e. if ev_ID e \<in> ids then start now e else e) rest"
      "result' = map (start now) (filter (\<lambda>e. ev_ID e \<in> ids) rest)" by blast
    then have "ev_ID event \<notin> ids" using diff by force
    moreover have "es' = event # rest' \<and> result = result'" using 2(3) False rec by (simp split: if_splits)
    ultimately show ?thesis using ids by (intro exI [of _ ids]) auto
  next
    case True
    then have el: "eligible vs node event" by (auto simp: eligible_def)
    show ?thesis
    proof (cases "limit \<le> int (n + 1)")
      case lim: True
      have "es' = start now event # rest \<and> result = [start now event]"
        using 2(3) True lim by (simp add: start_def Let_def)
      then show ?thesis using same [of "{}"] el by (intro exI [of _ "{ev_ID event}"]) simp
    next
      case lim: False
      obtain rest' result' where rec: "dequeue_loop now vs node limit (Job event # uniq) (n + 1) rest = (rest', result')"
        by fastforce
      from 2(1) [OF True refl lim rec dist] obtain ids where ids: "ids \<subseteq> ev_ID ` {e \<in> set rest. eligible vs node e}"
        "rest' = map (\<lambda>e. if ev_ID e \<in> ids then start now e else e) rest"
        "result' = map (start now) (filter (\<lambda>e. ev_ID e \<in> ids) rest)" by blast
      have "es' = start now event # rest' \<and> result = start now event # result'"
        using 2(3) True lim rec by (simp add: start_def Let_def)
      with ids same [of ids] el show ?thesis by (intro exI [of _ "insert (ev_ID event) ids"]) auto
    qed
  qed
qed simp

lemma memory_enqueue:
  assumes inv: "memory_inv s" and enq: "Enqueue now job s = (s', Inr e)"
  shows "memory_inv s' \<and> ev_ID e \<notin> memory_used s \<and> memory_used s' = insert (ev_ID e) (memory_used s) \<and>
    memory_lookup s' = (memory_lookup s)(ev_ID e \<mapsto> e) \<and> ev_State e = JobStateReady \<and> Attempt e = 3 \<and> Job e = job"
proof -
  have e: "ev_ID e = seq s + 1" "ev_State e = JobStateReady" "Attempt e = 3" "Job e = job"
    and s': "queued s' = queued s @ [e]" "seq s' = seq s + 1" "dequeued s' = dequeued s"
    using enq by (auto simp: Enqueue_def nextID_def Let_def)
  have new: "ev_ID x \<noteq> seq s + 1" "ev_ID x \<le> seq s" if "x \<in> set (queued s)" for x
    using inv that by (fastforce simp: memory_inv_def list_all_iff)+
  have "ev_ID e \<notin> ev_ID ` set (queued s)" using new e(1) by (metis imageE)
  moreover have "list_all (\<lambda>x. ev_ID x \<le> seq s + 1) (queued s)" using new(2) by (force simp: list_all_iff)
  moreover have "event_ok (dequeued s) e" using e by (simp add: event_ok_def)
  ultimately have "memory_inv s'" using inv e s' by (simp add: memory_inv_def)
  moreover have "memory_lookup s' i = ((memory_lookup s)(ev_ID e \<mapsto> e)) i" for i
  proof (cases "i = ev_ID e")
    case True
    with new e have "map_of (by_id (queued s)) i = None" by (force simp: by_id_None)
    with True show ?thesis by (simp add: memory_lookup_def s' map_add_def)
  qed (auto simp: memory_lookup_def s' map_add_def split: option.split)
  then have "memory_lookup s' = (memory_lookup s)(ev_ID e \<mapsto> e)" by blast
  ultimately show ?thesis using e s' by (auto simp: memory_used_def atMost_Suc)
qed

lemma memory_dequeue:
  assumes inv: "memory_inv s" and deq: "Dequeue now vs node n s = (s', es)"
  obtains ids where "ids \<subseteq> ev_ID ` {e \<in> set (queued s). eligible vs node e}"
    "queued s' = map (\<lambda>e. if ev_ID e \<in> ids then start now e else e) (queued s)"
    "es = map (start now) (filter (\<lambda>e. ev_ID e \<in> ids) (queued s))"
    "dequeued s' = fold List.insert (map ev_ID es) (dequeued s)" "seq s' = seq s"
proof -
  obtain q r where loop: "dequeue_loop now vs node n [] 0 (queued s) = (q, r)" by fastforce
  have "distinct (map ev_ID (queued s))" using inv by (simp add: memory_inv_def)
  from dequeue_loop_spec [OF loop this] show ?thesis
    using deq loop that by (auto simp: Dequeue_def)
qed

lemma start_ok:
  assumes "event_ok deq e" "eligible vs node e" "ev_ID e \<in> set deq'"
  shows "event_ok deq' (start now e)"
  using assms by (auto simp: event_ok_def eligible_def)

lemma memory_dequeue_law:
  assumes inv: "memory_inv s" and deq: "Dequeue now vs node n s = (s', es)"
  shows "memory_inv s' \<and> memory_used s' = memory_used s \<and> distinct (map ev_ID es) \<and>
    (\<forall>i. memory_lookup s' i = (case map_of (by_id es) i of None \<Rightarrow> memory_lookup s i | Some e \<Rightarrow> Some e)) \<and>
    (\<forall>e\<in>set es. ev_State e = JobStateInProgress \<and> (\<exists>e0. memory_lookup s (ev_ID e) = Some e0 \<and>
       ev_State e0 \<in> {JobStateReady, JobStateFailed} \<and> Job e = Job e0))"
proof -
  obtain ids where ids: "ids \<subseteq> ev_ID ` {e \<in> set (queued s). eligible vs node e}"
    and q: "queued s' = map (\<lambda>e. if ev_ID e \<in> ids then start now e else e) (queued s)"
    and es: "es = map (start now) (filter (\<lambda>e. ev_ID e \<in> ids) (queued s))"
    and d: "dequeued s' = fold List.insert (map ev_ID es) (dequeued s)" and seq: "seq s' = seq s"
    by (rule memory_dequeue [OF inv deq])
  have dist: "distinct (map ev_ID (queued s))" using inv by (simp add: memory_inv_def)
  have el: "eligible vs node e" if "e \<in> set (queued s)" "ev_ID e \<in> ids" for e
  proof -
    from ids that(2) obtain e0 where "e0 \<in> set (queued s)" "eligible vs node e0" "ev_ID e0 = ev_ID e" by fastforce
    with by_id_unique [OF dist this(1) that(1) this(3)] show ?thesis by simp
  qed
  have keys: "map ev_ID (queued s') = map ev_ID (queued s)" by (simp add: q)
  have d': "ev_ID e \<in> set (dequeued s')" if "e \<in> set (queued s)" "ev_ID e \<in> ids" for e
    using that by (auto simp: d set_fold_insert es)
  have "event_ok (dequeued s') e" if e: "e \<in> set (queued s')" for e
  proof -
    from e obtain e0 where e0: "e0 \<in> set (queued s)" "e = (if ev_ID e0 \<in> ids then start now e0 else e0)"
      by (auto simp: q)
    have ok: "event_ok (dequeued s) e0" using inv e0(1) by (simp add: memory_inv_def list_all_iff)
    show ?thesis
    proof (cases "ev_ID e0 \<in> ids")
      case True
      with e0 ok el d' show ?thesis by (auto intro: start_ok)
    next
      case False
      with e0 ok show ?thesis by (auto intro: event_ok_mono simp: d set_fold_insert)
    qed
  qed
  moreover have "list_all (\<lambda>e. ev_ID e \<le> seq s') (queued s')"
    using inv by (auto simp: memory_inv_def list_all_iff q seq)
  ultimately have "memory_inv s'"
    using inv keys by (simp add: memory_inv_def list_all_iff d distinct_fold_insert)
  moreover have "memory_lookup s' i = (case map_of (by_id es) i of None \<Rightarrow> memory_lookup s i | Some e \<Rightarrow> Some e)" for i
  proof -
    have idf: "ev_ID (if ev_ID e \<in> ids then start now e else e) = ev_ID e" for e by simp
    have "memory_lookup s' i = map_option (\<lambda>e. if ev_ID e \<in> ids then start now e else e) (memory_lookup s i)"
      unfolding memory_lookup_def q map_map comp_def idf by (rule map_of_map_same_key)
    moreover have "map_of (by_id es) i = (case memory_lookup s i of None \<Rightarrow> None
        | Some e \<Rightarrow> if ev_ID e \<in> ids then Some (start now e) else None)"
      unfolding es map_map comp_def start_simps
      by (subst map_of_map_same_key) (simp add: by_id_filter [OF dist] memory_lookup_def split: option.split)
    ultimately show ?thesis by (auto split: option.splits)
  qed
  moreover have "distinct (map ev_ID es)"
    using dist by (simp add: es comp_def distinct_map_filter)
  moreover have "\<exists>e0. memory_lookup s (ev_ID e) = Some e0 \<and>
       ev_State e0 \<in> {JobStateReady, JobStateFailed} \<and> Job e = Job e0" if "e \<in> set es" for e
    using that el by_id_mem [OF dist] by (auto simp: es memory_lookup_def eligible_def)
  ultimately show ?thesis by (auto simp: memory_used_def seq es)
qed

subsection \<open>Acknowledging\<close>

lemma remove_similar_spec:
  assumes "remove_similar t job es = (rest, ids)" "distinct (map ev_ID es)"
  shows "set rest \<subseteq> set es \<and> distinct (map ev_ID rest) \<and> set ids \<inter> ev_ID ` set rest = {} \<and> set ids \<subseteq> ev_ID ` set es"
  using assms
proof (induction t job es arbitrary: rest ids rule: remove_similar.induct)
  case (2 t job e es)
  show ?case
  proof (cases "t < CreatedAt e")
    case True
    with 2 show ?thesis by auto
  next
    case late: False
    show ?thesis
    proof (cases "same_job job (Job e)")
      case False
      obtain rest' ids' where rec: "remove_similar t job es = (rest', ids')" by fastforce
      from 2(2) [OF late False rec] 2(4) have "set rest' \<subseteq> set es \<and> distinct (map ev_ID rest') \<and>
          set ids' \<inter> ev_ID ` set rest' = {} \<and> set ids' \<subseteq> ev_ID ` set es" by simp
      moreover have "rest = e # rest'" "ids = ids'" using 2(3) late False rec by auto
      ultimately show ?thesis using 2(4) by auto
    next
      case True
      show ?thesis
      proof (cases es)
        case Nil
        with 2(3) late True show ?thesis by auto
      next
        case (Cons e' es')
        obtain rest' ids' where rec: "remove_similar t job es' = (rest', ids')" by fastforce
        from 2(1) [OF late True Cons rec] 2(4) Cons have "set rest' \<subseteq> set es' \<and> distinct (map ev_ID rest') \<and>
            set ids' \<inter> ev_ID ` set rest' = {} \<and> set ids' \<subseteq> ev_ID ` set es'" by simp
        moreover have "rest = e' # rest'" "ids = ev_ID e # ids'" using 2(3) late True Cons rec by auto
        ultimately show ?thesis using 2(4) Cons by auto
      qed
    qed
  qed
qed simp

text \<open>Dropping events other than those in progress that stay keeps the invariant.\<close>

lemma memory_inv_shrink:
  assumes "memory_inv s" "distinct (map ev_ID (queued s'))" "distinct (dequeued s')" "seq s' = seq s"
    and "\<And>x. x \<in> set (queued s') \<Longrightarrow> (x \<in> set (queued s) \<and> (ev_ID x \<in> set (dequeued s) \<longrightarrow> ev_ID x \<in> set (dequeued s'))) \<or>
      event_ok (dequeued s') x \<and> ev_ID x \<le> seq s"
  shows "memory_inv s'"
  using assms by (force simp: memory_inv_def list_all_iff intro: event_ok_mono)

lemma ack_found_cases:
  assumes inv: "memory_inv s" and q: "queued s = before @ event # behind" and st: "allowToAck st"
    and ack: "ack_found now st before event behind s = (s', r)"
  obtains "r \<noteq> None" "r \<noteq> Some NilDereference" "s' = s"
  | l t rest ids where "r = None" "ev_State event = JobStateInProgress" "st = JobStateCompleted"
      "remove_similar t (Job event) behind = (rest, ids)"
      "s' = s\<lparr>lastEventByDest := l, queued := before @ rest,
        dequeued := filter (\<lambda>i. i \<notin> set (ev_ID event # ids)) (dequeued s)\<rparr>"
  | l where "r = None" "ev_State event = JobStateInProgress" "st \<noteq> JobStateCompleted"
      "s' = s\<lparr>lastEventByDest := l, queued := before @ behind, dequeued := removeAll (ev_ID event) (dequeued s)\<rparr>"
  | l where "r = None" "ev_State event = JobStateInProgress" "st = JobStateFailed" "Attempt event \<noteq> 0"
      "s' = s\<lparr>queued := before @ event\<lparr>ev_State := JobStateFailed, UpdatedAt := Some now\<rparr> # behind,
        lastEventByDest := l\<rparr>"
proof (cases "ev_State event = JobStateInProgress \<and> \<not> (Attempt event = 0 \<and> st = JobStateFailed)")
  case False
  then have "r \<noteq> None" "r \<noteq> Some NilDereference" "s' = s" using ack by (auto simp: ack_found_def split: if_splits)
  then show ?thesis by (rule that(1))
next
  case True
  then obtain t where t: "UpdatedAt event = Some t"
    using inv by (auto simp: memory_inv_def q event_ok_def)
  obtain rest ids where rs: "remove_similar t (Job event) behind = (rest, ids)" by fastforce
  from st consider "st = JobStateCompleted" | "st = JobStateCancelled \<or> st = JobStateDead" | "st = JobStateFailed"
    by (auto simp: allowToAck_def)
  then show ?thesis
  proof cases
    case 1
    with ack True t rs show ?thesis by (intro that(2)) (auto simp: ack_found_def Let_def)
  next
    case 2
    with ack True t show ?thesis
      by (intro that(3) [of "update_last (event\<lparr>ev_State := st, UpdatedAt := Some now\<rparr>) (lastEventByDest s)"])
        (auto simp: ack_found_def Let_def)
  next
    case 3
    with ack True t show ?thesis by (intro that(4)) (auto simp: ack_found_def Let_def)
  qed
qed

lemma disjoint_keep:
  "B \<inter> H = {} \<Longrightarrow> R \<subseteq> H \<Longrightarrow> I \<inter> R = {} \<Longrightarrow> I \<subseteq> H \<Longrightarrow> e \<notin> B \<Longrightarrow> e \<notin> H \<Longrightarrow> (B \<union> R) \<inter> insert e I = {}"
  by blast

lemma ack_found_law:
  assumes inv: "memory_inv s" and q: "queued s = before @ event # behind" and st: "allowToAck st"
    and ack: "ack_found now st before event behind s = (s', r)"
  shows "memory_inv s' \<and> seq s' = seq s \<and> (r = None \<longrightarrow> ev_State event = JobStateInProgress) \<and>
    (\<forall>x\<in>set (queued s'). if ev_ID x = ev_ID event then Job x = Job event else x \<in> set (queued s)) \<and>
    (r = None \<longrightarrow> st = JobStateCompleted \<longrightarrow> ev_ID event \<notin> ev_ID ` set (queued s'))"
proof -
  have ok: "event_ok (dequeued s) event" and le: "ev_ID event \<le> seq s" using inv by (simp_all add: memory_inv_def q)
  have all: "distinct (map ev_ID (queued s))" using inv by (simp add: memory_inv_def)
  have unique: "x = event" if "x \<in> set (queued s)" "ev_ID x = ev_ID event" for x
    using by_id_unique [OF all that(1) _ that(2)] q by simp
  have dist: "distinct (map ev_ID before)" "distinct (map ev_ID behind)" "ev_ID event \<notin> ev_ID ` set before"
    "ev_ID event \<notin> ev_ID ` set behind" "ev_ID ` set before \<inter> ev_ID ` set behind = {}"
    and dd: "distinct (dequeued s)"
    using inv by (auto simp: memory_inv_def q)
  have others: "ev_ID x \<noteq> ev_ID event" if "x \<in> set before \<or> x \<in> set behind" for x
    using that dist(3,4) by (metis imageI)
  from ack_found_cases [OF inv q st ack] show ?thesis
  proof cases
    case 1
    with inv unique show ?thesis by auto
  next
    case (2 l t rest ids)
    note spec = remove_similar_spec [OF 2(4) dist(2)]
    have sub: "ev_ID ` set rest \<subseteq> ev_ID ` set behind" using spec by (simp add: image_mono)
    then have "ev_ID ` set before \<inter> ev_ID ` set rest = {}" using dist(5) by blast
    then have "distinct (map ev_ID (before @ rest))" using spec dist(1) by simp
    moreover have "ev_ID ` set (before @ rest) \<inter> set (ev_ID event # ids) = {}"
      using disjoint_keep [OF dist(5) sub _ _ dist(3,4), of "set ids"] spec by (simp add: image_Un)
    then have keep: "ev_ID x \<notin> set (ev_ID event # ids)" if "x \<in> set (before @ rest)" for x
      using imageI [OF that, of ev_ID] by blast
    ultimately have "memory_inv s'"
      unfolding 2(5) using spec dd by (intro memory_inv_shrink [OF inv]) (auto simp: q)
    moreover have "x \<in> set (queued s) \<and> ev_ID x \<noteq> ev_ID event" if "x \<in> set (queued s')" for x
      using keep [of x] that spec by (auto simp: 2(5) q)
    moreover have "seq s' = seq s" by (simp add: 2(5))
    ultimately show ?thesis using 2(1-3) by (metis (no_types, lifting) imageE)
  next
    case (3 l)
    have "memory_inv s'"
      unfolding 3(4) using dist(1,2,5) dd others
      by (intro memory_inv_shrink [OF inv]) (auto simp: q distinct_removeAll)
    moreover have "x \<in> set (queued s) \<and> ev_ID x \<noteq> ev_ID event" if "x \<in> set (queued s')" for x
      using that others [of x] by (auto simp: 3(4) q)
    moreover have "seq s' = seq s" by (simp add: 3(4))
    ultimately show ?thesis using 3(1-3) by auto
  next
    case (4 l)
    let ?e = "event\<lparr>ev_State := JobStateFailed, UpdatedAt := Some now\<rparr>"
    have "event_ok (dequeued s) ?e" using ok 4(2,4) by (simp add: event_ok_def)
    then have "memory_inv s'"
      unfolding 4(5) using dist dd le by (intro memory_inv_shrink [OF inv]) (auto simp: q)
    moreover have "if ev_ID x = ev_ID event then Job x = Job event else x \<in> set (queued s)"
      if "x \<in> set (queued s')" for x
      using that others [of x] by (auto simp: 4(5) q)
    moreover have "seq s' = seq s" by (simp add: 4(5))
    ultimately show ?thesis using 4(1-3) by auto
  qed
qed

lemma memory_lookup_iff:
  "memory_inv s \<Longrightarrow> memory_lookup s i = Some e \<longleftrightarrow> e \<in> set (queued s) \<and> ev_ID e = i"
  using by_id_mem [of "queued s" e] by_id_Some [of "queued s" i e]
  by (auto simp: memory_lookup_def memory_inv_def)

text \<open>What acknowledging the identifiers \<open>ids\<close> may do to the queue.\<close>

definition acked_to :: "nat list \<Rightarrow> memoryReplicationEventQueue \<Rightarrow> memoryReplicationEventQueue \<Rightarrow> bool" where
  "acked_to ids s s' \<longleftrightarrow> memory_inv s' \<and> seq s' = seq s \<and>
     (\<forall>x\<in>set (queued s'). x \<in> set (queued s) \<or>
        ev_ID x \<in> set ids \<and> (\<exists>e\<in>set (queued s). ev_ID e = ev_ID x \<and> Job e = Job x))"

definition acked_ok :: "JobState \<Rightarrow> nat list \<Rightarrow> memoryReplicationEventQueue \<Rightarrow> memoryReplicationEventQueue \<Rightarrow> bool" where
  "acked_ok st new s s' \<longleftrightarrow> (\<forall>i\<in>set new. (\<exists>e\<in>set (queued s). ev_ID e = i \<and> ev_State e = JobStateInProgress) \<and>
     (st = JobStateCompleted \<longrightarrow> i \<notin> ev_ID ` set (queued s')))"

lemma acked_to_ids: "acked_to ids s s' \<Longrightarrow> ev_ID ` set (queued s') \<subseteq> ev_ID ` set (queued s)"
  unfolding acked_to_def by (metis image_subsetI imageI)

lemma acked_to_trans: "acked_to [i] s s1 \<Longrightarrow> acked_to ids s1 s' \<Longrightarrow> acked_to (i # ids) s s'"
  by (simp add: acked_to_def) (metis (no_types, lifting))

lemma acked_to_weaken: "acked_to ids s s' \<Longrightarrow> acked_to (i # ids) s s'"
  by (auto simp: acked_to_def)

lemma ack_one:
  assumes inv: "memory_inv s" and st: "allowToAck st"
    and drop: "dropWhile (\<lambda>e. ev_ID e \<noteq> i) (queued s) = event # behind"
    and ack: "ack_found now st (takeWhile (\<lambda>e. ev_ID e \<noteq> i) (queued s)) event behind s = (s1, r)"
  shows "acked_to [i] s s1" "r = None \<Longrightarrow> acked_ok st [i] s s1"
proof -
  have q: "queued s = takeWhile (\<lambda>e. ev_ID e \<noteq> i) (queued s) @ event # behind"
    using drop by (metis takeWhile_dropWhile_id)
  have i: "ev_ID event = i" using hd_dropWhile [of "\<lambda>e. ev_ID e \<noteq> i" "queued s"] drop by auto
  have mem: "event \<in> set (queued s)" by (subst q) simp
  note law = ack_found_law [OF inv q st ack]
  show "acked_to [i] s s1"
    using law mem i unfolding acked_to_def by (metis (full_types) list.set_intros(1))
  show "acked_ok st [i] s s1" if "r = None" using law mem i that by (auto simp: acked_ok_def)
qed

lemma ack_ids_law:
  assumes "memory_inv s" "allowToAck st" "ack_ids now st ids result s = (s', r)"
  shows "acked_to ids s s' \<and> (\<forall>acked. r = Inr acked \<longrightarrow>
     (\<exists>new. acked = result @ new \<and> set new \<subseteq> set ids \<and> acked_ok st new s s'))"
  using assms
proof (induction ids arbitrary: result s s' r)
  case Nil
  then show ?case by (auto simp: acked_to_def acked_ok_def)
next
  case (Cons i ids)
  show ?case
  proof (cases "i \<in> set (dequeued s)")
    case False
    with Cons have "ack_ids now st ids result s = (s', r)" by simp
    from Cons.IH [OF Cons.prems(1,2) this] show ?thesis
      by (metis acked_to_weaken set_subset_Cons subset_trans)
  next
    case deq: True
    show ?thesis
    proof (cases "dropWhile (\<lambda>e. ev_ID e \<noteq> i) (queued s)")
      case Nil
      with deq Cons have "ack_ids now st ids result s = (s', r)" by simp
      from Cons.IH [OF Cons.prems(1,2) this] show ?thesis
      by (metis acked_to_weaken set_subset_Cons subset_trans)
    next
      case found: (Cons event behind)
      obtain s1 r1 where ack: "ack_found now st (takeWhile (\<lambda>e. ev_ID e \<noteq> i) (queued s)) event behind s = (s1, r1)"
        by fastforce
      note one = ack_one [OF Cons.prems(1,2) found ack]
      show ?thesis
      proof (cases r1)
        case (Some err)
        then have "s' = s1" "r = Inl err" using Cons.prems(3) deq found ack by auto
        with one(1) show ?thesis by (auto simp: acked_to_def)
      next
        case None
        then have rec: "ack_ids now st ids (result @ [i]) s1 = (s', r)" using Cons.prems(3) deq found ack by auto
        have inv1: "memory_inv s1" using one(1) by (simp add: acked_to_def)
        note IH = Cons.IH [OF inv1 Cons.prems(2) rec]
        have "acked_ok st (i # new) s s'" if "acked_ok st new s1 s'" for new
        proof -
          have "\<exists>e\<in>set (queued s). ev_ID e = j \<and> ev_State e = JobStateInProgress" if j: "j \<in> set (i # new)" for j
          proof (cases "j = i")
            case True
            with one(2) [OF None] show ?thesis by (simp add: acked_ok_def)
          next
            case False
            with j \<open>acked_ok st new s1 s'\<close> obtain e where "e \<in> set (queued s1)" "ev_ID e = j" "ev_State e = JobStateInProgress"
              by (auto simp: acked_ok_def)
            with one(1) False show ?thesis by (auto simp: acked_to_def)
          qed
          moreover have "j \<notin> ev_ID ` set (queued s')" if "st = JobStateCompleted" "j \<in> set (i # new)" for j
          proof -
            have "ev_ID ` set (queued s') \<subseteq> ev_ID ` set (queued s1)" using IH
              by (rule acked_to_ids [OF conjunct1])
            moreover have "i \<notin> ev_ID ` set (queued s1)" using one(2) [OF None] that(1) by (simp add: acked_ok_def)
            ultimately show ?thesis
              using that \<open>acked_ok st new s1 s'\<close> unfolding acked_ok_def by (metis set_ConsD subsetD)
          qed
          ultimately show ?thesis by (auto simp: acked_ok_def)
        qed
        with IH one(1) show ?thesis by (force intro: acked_to_trans)
      qed
    qed
  qed
qed

lemma memory_acknowledge_law:
  assumes inv: "memory_inv s" and ack: "Acknowledge now st ids s = (s', r)"
  shows "memory_inv s' \<and> memory_used s' = memory_used s \<and>
      (\<forall>i. i \<in> set ids \<or> memory_lookup s' i \<in> {None, memory_lookup s i}) \<and>
      (\<forall>i e'. memory_lookup s' i = Some e' \<longrightarrow> (\<exists>e. memory_lookup s i = Some e \<and> Job e = Job e')) \<and>
      (\<forall>acked. r = Inr acked \<longrightarrow> set acked \<subseteq> set ids \<and>
         (\<forall>i\<in>set acked. (\<exists>e. memory_lookup s i = Some e \<and> ev_State e = JobStateInProgress) \<and>
            (st = JobStateCompleted \<longrightarrow> memory_lookup s' i = None)))"
proof -
  have to: "acked_to ids s s'"
    and ok: "\<And>acked. r = Inr acked \<Longrightarrow> set acked \<subseteq> set ids \<and> acked_ok st acked s s'"
    using ack ack_ids_law [OF inv, of st now ids "[]" s' r] inv
    by (auto simp: Acknowledge_def acked_to_def acked_ok_def split: if_splits)
  have inv': "memory_inv s'" using to by (simp add: acked_to_def)
  note look = memory_lookup_iff [OF inv] memory_lookup_iff [OF inv']
  have old: "memory_lookup s i = Some e'" if "memory_lookup s' i = Some e'" "i \<notin> set ids" for i e'
    using to that by (auto simp: acked_to_def look)
  have "i \<in> set ids \<or> memory_lookup s' i \<in> {None, memory_lookup s i}" for i
    using old [of i] by (cases "memory_lookup s' i"; cases "i \<in> set ids") auto
  moreover have "\<exists>e. memory_lookup s i = Some e \<and> Job e = Job e'" if "memory_lookup s' i = Some e'" for i e'
    using to that by (auto simp: acked_to_def look)
  moreover have "set acked \<subseteq> set ids \<and>
      (\<forall>i\<in>set acked. (\<exists>e. memory_lookup s i = Some e \<and> ev_State e = JobStateInProgress) \<and>
         (st = JobStateCompleted \<longrightarrow> memory_lookup s' i = None))" if "r = Inr acked" for acked
  proof -
    have "memory_lookup s' i = None" if "i \<notin> ev_ID ` set (queued s')" for i
      using that by (auto simp: memory_lookup_def by_id_None)
    with ok [OF that] show ?thesis by (auto simp: acked_ok_def look)
  qed
  moreover have "memory_used s' = memory_used s" using to by (simp add: acked_to_def memory_used_def)
  ultimately show ?thesis using inv' by simp
qed

interpretation memory_queue: event_queue memory_inv memory_lookup memory_used Enqueue Dequeue Acknowledge
proof
  show "i \<in> memory_used s" if "memory_inv s" "memory_lookup s i = Some e" for s i e
    using that memory_lookup_iff [OF that(1)] by (auto simp: memory_used_def memory_inv_def list_all_iff)
  show "s' = s" if "Enqueue now job s = (s', Inl err)" for now job s s' err
    using that by (simp add: Enqueue_def nextID_def Let_def)
qed (fact memory_enqueue memory_dequeue_law memory_acknowledge_law)+

section \<open>What the queue guarantees\<close>

abbreviation memory_run :: "queue_call list \<Rightarrow> memoryReplicationEventQueue" where
  "memory_run calls \<equiv> fold (exec_call Enqueue Dequeue Acknowledge) calls NewMemoryReplicationEventQueue"

lemma memory_run_inv: "memory_inv (memory_run calls)"
  by (rule memory_queue.run_inv [OF memory_initial])

text \<open>
  C17. In the memory queue, an event that was handed out by \<open>Dequeue\<close> is not handed out again, to any
  node, as long as no call acknowledges it.
\<close>

theorem memory_events_exclusive:
  assumes "Dequeue now vs node n (memory_run calls) = (s', es)" and "e \<in> set es"
    and "list_all (\<lambda>c. \<not> acknowledges (ev_ID e) c) calls'"
    and "Dequeue now' vs' node' n' (fold (exec_call Enqueue Dequeue Acknowledge) calls' s') = (s'', es')"
  shows "ev_ID e \<notin> ev_ID ` set es'"
  by (rule memory_queue.exclusive [OF memory_run_inv assms])

definition wit_job :: ReplicationJob where
  "wit_job = \<lparr>RepositoryID = 1, Change = UpdateRepo, RelativePath = ''repo'', TargetNodeStorage = ''b'',
     SourceNodeStorage = ''a'', job_VirtualStorage = ''vs'', job_Params = None\<rparr>"

definition wit_event :: ReplicationEvent where
  "wit_event = \<lparr>ev_ID = 1, ev_State = JobStateInProgress, Attempt = 2, LockID = ''vs|b|repo'', CreatedAt = 10,
     UpdatedAt = Some 20, Job = wit_job\<rparr>"

lemmas memory_eval = NewMemoryReplicationEventQueue_def Enqueue_def nextID_def Dequeue_def lock_id_def
  defineDest_def update_last_def Let_def wit_job_def wit_event_def

lemma wit_dequeue:
  "snd (Dequeue 20 ''vs'' ''b'' 1 (memory_run [EnqueueCall 10 wit_job])) = [wit_event]"
  by (simp add: memory_eval)

theorem memory_events_exclusive_witness:
  "case Dequeue 20 ''vs'' ''b'' 1 (memory_run [EnqueueCall 10 wit_job]) of (s', es) \<Rightarrow>
     wit_event \<in> set es \<and> ev_ID wit_event \<notin> ev_ID ` set (snd (Dequeue 40 ''vs'' ''b'' 5
       (fold (exec_call Enqueue Dequeue Acknowledge) [EnqueueCall 30 wit_job] s')))"
proof -
  obtain s' es where deq: "Dequeue 20 ''vs'' ''b'' 1 (memory_run [EnqueueCall 10 wit_job]) = (s', es)" by fastforce
  have "es = [wit_event]" using wit_dequeue deq by simp
  then have "wit_event \<in> set es" by simp
  with memory_events_exclusive [OF deq this _ prod.collapse [symmetric], of "[EnqueueCall 30 wit_job]"] deq
  show ?thesis by simp
qed

lemma ack_ids_no_nil:
  assumes "memory_inv s" "allowToAck st"
  shows "snd (ack_ids now st ids result s) \<noteq> Inl NilDereference"
  using assms
proof (induction ids arbitrary: result s)
  case (Cons i ids)
  show ?case
  proof (cases "dropWhile (\<lambda>e. ev_ID e \<noteq> i) (queued s)")
    case found: (Cons event behind)
    obtain s1 r1 where ack: "ack_found now st (takeWhile (\<lambda>e. ev_ID e \<noteq> i) (queued s)) event behind s = (s1, r1)"
      by fastforce
    have q: "queued s = takeWhile (\<lambda>e. ev_ID e \<noteq> i) (queued s) @ event # behind"
      using found by (metis takeWhile_dropWhile_id)
    have "r1 \<noteq> Some NilDereference" by (rule ack_found_cases [OF Cons.prems(1) q Cons.prems(2) ack]) auto
    moreover have "memory_inv s1" using ack_one(1) [OF Cons.prems found ack] by (simp add: acked_to_def)
    ultimately show ?thesis using Cons found ack by (auto split: option.split)
  qed (use Cons in \<open>simp del: dropWhile_eq_Nil_conv\<close>)
qed simp

lemma dequeued_in_queue:
  assumes "memory_inv s" "Dequeue now vs node n s = (s', es)" "e \<in> set es"
  shows "memory_inv s'" "e \<in> set (queued s')" "ev_State e = JobStateInProgress" "event_ok (dequeued s') e"
proof -
  note law = memory_dequeue_law [OF assms(1,2)]
  show inv: "memory_inv s'" and "ev_State e = JobStateInProgress" using law assms(3) by blast+
  have "memory_lookup s' (ev_ID e) = Some e" using law assms(3) by (simp add: by_id_mem)
  then show mem: "e \<in> set (queued s')" using memory_lookup_iff [OF inv] by blast
  with inv show "event_ok (dequeued s') e" by (simp add: memory_inv_def list_all_iff)
qed

text \<open>
  An event of the memory queue is tried at most three times: whenever it is handed out, zero to
  two attempts are left after this one, and an event without attempts left cannot be acknowledged as
  failed, so that it does not come back. Acknowledging never runs into a missing time.
\<close>

theorem memory_attempts_bounded:
  assumes "Dequeue now vs node n (memory_run calls) = (s', es)" and "e \<in> set es"
  shows "0 \<le> Attempt e \<and> Attempt e \<le> 2 \<and> snd (Acknowledge t st ids (memory_run calls)) \<noteq> Inl NilDereference \<and>
    (Attempt e = 0 \<longrightarrow> snd (Acknowledge t JobStateFailed [ev_ID e] s') = Inl DeadAckedAsFailed)"
proof -
  note d = dequeued_in_queue [OF memory_run_inv assms]
  have bounds: "0 \<le> Attempt e" "Attempt e \<le> 2" "ev_ID e \<in> set (dequeued s')"
    using d(3,4) by (auto simp: event_ok_def)
  have "snd (Acknowledge t JobStateFailed [ev_ID e] s') = Inl DeadAckedAsFailed" if "Attempt e = 0"
  proof -
    obtain event behind where drop: "dropWhile (\<lambda>x. ev_ID x \<noteq> ev_ID e) (queued s') = event # behind"
      using d(2) by (cases "dropWhile (\<lambda>x. ev_ID x \<noteq> ev_ID e) (queued s')") auto
    have "ev_ID event = ev_ID e" using hd_dropWhile [of "\<lambda>x. ev_ID x \<noteq> ev_ID e" "queued s'"] drop by auto
    moreover have "event \<in> set (queued s')" using drop by (metis list.set_intros(1) set_dropWhileD)
    ultimately have "event = e"
      using d(1,2) by_id_unique [of "queued s'" event e] by (simp add: memory_inv_def)
    with that bounds(3) drop d(3) show ?thesis by (simp add: Acknowledge_def allowToAck_def ack_found_def)
  qed
  moreover have "snd (Acknowledge t st ids (memory_run calls)) \<noteq> Inl NilDereference"
    using ack_ids_no_nil [OF memory_run_inv] by (simp add: Acknowledge_def)
  ultimately show ?thesis using bounds by blast
qed

theorem memory_attempts_bounded_witness:
  "wit_event \<in> set (snd (Dequeue 20 ''vs'' ''b'' 1 (memory_run [EnqueueCall 10 wit_job]))) \<and>
   0 \<le> Attempt wit_event \<and> Attempt wit_event \<le> 2 \<and>
   snd (Acknowledge 30 JobStateCompleted [1] (memory_run [EnqueueCall 10 wit_job])) \<noteq> Inl NilDereference"
proof -
  have mem: "wit_event \<in> set (snd (Dequeue 20 ''vs'' ''b'' 1 (memory_run [EnqueueCall 10 wit_job])))"
    by (simp only: wit_dequeue) simp
  from memory_attempts_bounded [OF prod.collapse [symmetric] this, of 30 JobStateCompleted "[1]"] mem
  show ?thesis by blast
qed

text \<open>
  Completing an event is meant to drop the waiting events with the same job. Of three such events
  behind it, the loop removes the first and the third and steps over the second.
\<close>

lemma completed_keeps_a_duplicate:
  "map ev_ID (queued (memory_run [EnqueueCall 1 wit_job, EnqueueCall 2 wit_job, EnqueueCall 3 wit_job,
     EnqueueCall 4 wit_job, DequeueCall 20 ''vs'' ''b'' 1, AcknowledgeCall 30 JobStateCompleted [1]])) = [3]"
  by (simp add: memory_eval Acknowledge_def allowToAck_def ack_found_def)

end
