(* ===== verification/Coordinator.thy ===== *)
theory Coordinator
  imports Nodes Repository_Store Transaction_Manager Replication_Events
begin

text \<open>
  The coordinator, \<open>internal/praefect/coordinator.go\<close>: it decides where a request goes and, once the
  request is done, records in the database and in the replication queue what happened to the replicas.

  A protobuf message is a record of the request the coordinator looks into and of what the registry
  of methods finds in the message; the generated code behind it, \<open>proxy.Codec\<close> included, is the
  argument \<open>protos\<close>. The functions that the stream parameters carry are values of the datatype
  \<open>finalizer\<close>, which \<open>run_finalizer\<close> interprets. An error of a node is the address of its error
  value, since \<open>!=\<close> on errors of gRPC compares pointers. Logging and metrics are left out. The order
  in which the goroutines of \<open>newRequestFinalizer\<close> enqueue their events only decides which
  identifiers the events get; \<open>reached\<close> tells which of the calls reach the queue before the context ends.
\<close>

section \<open>Which calls use transactions\<close>

definition transactionRPCs :: "(string, bool) gomap" where
  "transactionRPCs = [
    (''/gitaly.CleanupService/ApplyBfgObjectMapStream'', True),
    (''/gitaly.ConflictsService/ResolveConflicts'', True),
    (''/gitaly.ObjectPoolService/FetchIntoObjectPool'', True),
    (''/gitaly.OperationService/UserApplyPatch'', True),
    (''/gitaly.OperationService/UserCherryPick'', True),
    (''/gitaly.OperationService/UserCommitFiles'', True),
    (''/gitaly.OperationService/UserCreateBranch'', True),
    (''/gitaly.OperationService/UserCreateTag'', True),
    (''/gitaly.OperationService/UserDeleteBranch'', True),
    (''/gitaly.OperationService/UserDeleteTag'', True),
    (''/gitaly.OperationService/UserFFBranch'', True),
    (''/gitaly.OperationService/UserMergeBranch'', True),
    (''/gitaly.OperationService/UserMergeToRef'', True),
    (''/gitaly.OperationService/UserRebaseConfirmable'', True),
    (''/gitaly.OperationService/UserRevert'', True),
    (''/gitaly.OperationService/UserSquash'', True),
    (''/gitaly.OperationService/UserUpdateBranch'', True),
    (''/gitaly.OperationService/UserUpdateSubmodule'', True),
    (''/gitaly.RefService/DeleteRefs'', True),
    (''/gitaly.RemoteService/FetchInternalRemote'', True),
    (''/gitaly.RepositoryService/ApplyGitattributes'', True),
    (''/gitaly.RepositoryService/CloneFromPool'', True),
    (''/gitaly.RepositoryService/CloneFromPoolInternal'', True),
    (''/gitaly.RepositoryService/CreateFork'', True),
    (''/gitaly.RepositoryService/CreateRepository'', True),
    (''/gitaly.RepositoryService/CreateRepositoryFromBundle'', True),
    (''/gitaly.RepositoryService/CreateRepositoryFromSnapshot'', True),
    (''/gitaly.RepositoryService/CreateRepositoryFromURL'', True),
    (''/gitaly.RepositoryService/DeleteConfig'', True),
    (''/gitaly.RepositoryService/FetchRemote'', True),
    (''/gitaly.RepositoryService/FetchSourceBranch'', True),
    (''/gitaly.RepositoryService/RemoveRepository'', True),
    (''/gitaly.RepositoryService/ReplicateRepository'', True),
    (''/gitaly.RepositoryService/SetConfig'', True),
    (''/gitaly.RepositoryService/SetFullPath'', True),
    (''/gitaly.RepositoryService/WriteRef'', True),
    (''/gitaly.SSHService/SSHReceivePack'', True),
    (''/gitaly.SmartHTTPService/PostReceivePack'', True),
    (''/gitaly.WikiService/WikiUpdatePage'', True),
    (''/gitaly.WikiService/WikiWritePage'', True),
    (''/gitaly.ObjectPoolService/CreateObjectPool'', False),
    (''/gitaly.ObjectPoolService/DeleteObjectPool'', False),
    (''/gitaly.ObjectPoolService/DisconnectGitAlternates'', False),
    (''/gitaly.ObjectPoolService/LinkRepositoryToObjectPool'', False),
    (''/gitaly.ObjectPoolService/ReduplicateRepository'', False),
    (''/gitaly.ObjectPoolService/UnlinkRepositoryFromObjectPool'', False),
    (''/gitaly.RepositoryService/RenameRepository'', False),
    (''/gitaly.RefService/PackRefs'', False),
    (''/gitaly.RepositoryService/Cleanup'', False),
    (''/gitaly.RepositoryService/GarbageCollect'', False),
    (''/gitaly.RepositoryService/MidxRepack'', False),
    (''/gitaly.RepositoryService/OptimizeRepository'', False),
    (''/gitaly.RepositoryService/RepackFull'', False),
    (''/gitaly.RepositoryService/RepackIncremental'', False),
    (''/gitaly.RepositoryService/RestoreCustomHooks'', False),
    (''/gitaly.RepositoryService/WriteCommitGraph'', False),
    (''/gitaly.RefTransaction/StopTransaction'', False),
    (''/gitaly.RefTransaction/VoteTransaction'', False)]"

definition forcePrimaryRPCs :: "(string, bool) gomap" where
  "forcePrimaryRPCs = [
    (''/gitaly.RepositoryService/GetObjectDirectorySize'', True),
    (''/gitaly.RepositoryService/RepositorySize'', True)]"

definition shouldUseTransaction :: "string \<Rightarrow> bool" where
  "shouldUseTransaction rpc =
     (case map_of transactionRPCs rpc of None \<Rightarrow> False | Some condition \<Rightarrow> condition)"

section \<open>Messages and methods\<close>

record Repository =
  StorageName :: string
  repo_RelativePath :: string

datatype request =
    RenameRepositoryRequest string
  | GarbageCollectRequest bool bool
  | RepackFullRequest bool
  | RepackIncrementalRequest
  | CleanupRequest
  | WriteCommitGraphRequest int
  | MidxRepackRequest
  | OptimizeRepositoryRequest
  | PackRefsRequest bool
  | OtherRequest string

datatype proto_error = ErrTargetRepoMissing | FieldMissing | Malformed | MethodNotFound string

record Message =
  msg_request :: request
  msg_target :: "proto_error + Repository"
  msg_additional :: "proto_error + Repository option"
  msg_storage :: "proto_error + string"

datatype OpType = OpUnknown | OpAccessor | OpMutator

datatype Scope = ScopeUnknown | ScopeRepository | ScopeStorage

record MethodInfo =
  Operation :: OpType
  mi_Scope :: Scope

record protos =
  LookupMethod :: "string \<Rightarrow> proto_error + MethodInfo"
  UnmarshalRequestProto :: "MethodInfo \<Rightarrow> byte list \<Rightarrow> proto_error + Message"
  Marshal :: "Message \<Rightarrow> proto_error + byte list"

record grpcCall =
  fullMethodName :: string
  methodInfo :: MethodInfo
  call_msg :: Message
  targetRepo :: Repository

section \<open>Errors\<close>

datatype grpc_code = CodeUnknown | CodeInvalidArgument | CodeNotFound | CodeAlreadyExists |
  CodeFailedPrecondition | CodeInternal

datatype coord_error =
    RouteErr route_error
  | StoreErr store_error
  | TxErr tx_error
  | ProtoErr proto_error
  | EnqueueErr enqueue_error
  | ContextErr
  | ProtocolChanged string
  | UnknownOperation OpType
  | UndefinedScope Scope
  | ErrInvalidRepository
  | TargetStorageInvalid
  | TypeAssertion
  | CWrap string coord_error
  | Status grpc_code coord_error

text \<open>What \<open>errors.Is\<close> and \<open>errors.As\<close> arrive at; the wrappers themselves are never asked for.\<close>

fun unwrap_route :: "route_error \<Rightarrow> route_error" where
  "unwrap_route (RWrap what err) = unwrap_route err"
| "unwrap_route err = err"

fun root_cause :: "coord_error \<Rightarrow> coord_error" where
  "root_cause (CWrap what err) = root_cause err"
| "root_cause (Status code err) = root_cause err"
| "root_cause (RouteErr err) = RouteErr (unwrap_route err)"
| "root_cause err = err"

definition is_virtual_storage_missing :: "coord_error \<Rightarrow> bool" where
  "is_virtual_storage_missing err \<longleftrightarrow> root_cause err = RouteErr ErrVirtualStorageNotExist"

definition is_repository_missing :: "coord_error \<Rightarrow> bool" where
  "is_repository_missing err =
     (case root_cause err of
        RouteErr e \<Rightarrow> e = RepositoryNotFound
      | StoreErr (RepositoryNotFoundError vs path) \<Rightarrow> True
      | _ \<Rightarrow> False)"

definition is_repository_existing :: "coord_error \<Rightarrow> bool" where
  "is_repository_existing err \<longleftrightarrow>
     root_cause err = RouteErr RepositoryAlreadyExists \<or> root_cause err = StoreErr ErrRepositoryAlreadyExists"

text \<open>\<open>status.FromError\<close> looks at the outermost error only.\<close>

fun GrpcCode :: "coord_error \<Rightarrow> grpc_code" where
  "GrpcCode (Status code err) = code"
| "GrpcCode (RouteErr ErrRepositoryReadOnly) = CodeFailedPrecondition"
| "GrpcCode err = CodeUnknown"

definition wrapError :: "grpc_code \<Rightarrow> coord_error \<Rightarrow> coord_error" where
  "wrapError code err = (if GrpcCode err = CodeUnknown then Status code err else err)"

text \<open>\<open>formatError\<close> with a verb \<open>%w\<close> for \<open>err\<close>.\<close>

definition formatError :: "grpc_code \<Rightarrow> string \<Rightarrow> coord_error \<Rightarrow> coord_error" where
  "formatError code what err =
     Status (if GrpcCode err = CodeUnknown then code else GrpcCode err) (CWrap what err)"

section \<open>Replication details\<close>

definition getReplicationDetails :: "string \<Rightarrow> Message \<Rightarrow> coord_error + ChangeType \<times> Params" where
  "getReplicationDetails methodName m =
     (if methodName = ''/gitaly.RepositoryService/RemoveRepository'' then Inr (DeleteRepo, None)
      else if methodName \<in> set [''/gitaly.RepositoryService/CreateFork'',
          ''/gitaly.RepositoryService/CreateRepository'',
          ''/gitaly.RepositoryService/CreateRepositoryFromBundle'',
          ''/gitaly.RepositoryService/CreateRepositoryFromSnapshot'',
          ''/gitaly.RepositoryService/CreateRepositoryFromURL'',
          ''/gitaly.RepositoryService/ReplicateRepository''] then Inr (CreateRepo, None)
      else if methodName = ''/gitaly.RepositoryService/RenameRepository'' then
        (case msg_request m of
           RenameRepositoryRequest path \<Rightarrow> Inr (RenameRepo, Some [(''RelativePath'', ParamString path)])
         | _ \<Rightarrow> Inl (ProtocolChanged methodName))
      else if methodName = ''/gitaly.RepositoryService/GarbageCollect'' then
        (case msg_request m of
           GarbageCollectRequest createBitmap prune \<Rightarrow>
             Inr (GarbageCollect, Some [(''CreateBitmap'', ParamBool createBitmap), (''Prune'', ParamBool prune)])
         | _ \<Rightarrow> Inl (ProtocolChanged methodName))
      else if methodName = ''/gitaly.RepositoryService/RepackFull'' then
        (case msg_request m of
           RepackFullRequest createBitmap \<Rightarrow> Inr (RepackFull, Some [(''CreateBitmap'', ParamBool createBitmap)])
         | _ \<Rightarrow> Inl (ProtocolChanged methodName))
      else if methodName = ''/gitaly.RepositoryService/RepackIncremental'' then
        (case msg_request m of
           RepackIncrementalRequest \<Rightarrow> Inr (RepackIncremental, None)
         | _ \<Rightarrow> Inl (ProtocolChanged methodName))
      else if methodName = ''/gitaly.RepositoryService/Cleanup'' then
        (case msg_request m of
           CleanupRequest \<Rightarrow> Inr (Cleanup, None)
         | _ \<Rightarrow> Inl (ProtocolChanged methodName))
      else if methodName = ''/gitaly.RepositoryService/WriteCommitGraph'' then
        (case msg_request m of
           WriteCommitGraphRequest split \<Rightarrow> Inr (WriteCommitGraph, Some [(''SplitStrategy'', ParamNumber split)])
         | _ \<Rightarrow> Inl (ProtocolChanged methodName))
      else if methodName = ''/gitaly.RepositoryService/MidxRepack'' then
        (case msg_request m of
           MidxRepackRequest \<Rightarrow> Inr (MidxRepack, None)
         | _ \<Rightarrow> Inl (ProtocolChanged methodName))
      else if methodName = ''/gitaly.RepositoryService/OptimizeRepository'' then
        (case msg_request m of
           OptimizeRepositoryRequest \<Rightarrow> Inr (OptimizeRepository, None)
         | _ \<Rightarrow> Inl (ProtocolChanged methodName))
      else if methodName = ''/gitaly.RefService/PackRefs'' then
        (case msg_request m of
           PackRefsRequest allRefs \<Rightarrow> Inr (PackRefs, Some [(''AllRefs'', ParamBool allRefs)])
         | _ \<Rightarrow> Inl (ProtocolChanged methodName))
      else Inr (UpdateRepo, None))"

section \<open>The router and the database\<close>

datatype Router = PerRepository PerRepositoryRouter | NodeManager nodeManagerRouter

definition of_store :: "store_error \<Rightarrow> route_error" where
  "of_store err =
     (case err of
        RepositoryNotFoundError vs path \<Rightarrow> RepositoryNotFound
      | ErrRepositoryAlreadyExists \<Rightarrow> RepositoryAlreadyExists
      | VirtualStorageNotFound vs \<Rightarrow> DatastoreError ''virtual storage not found''
      | _ \<Rightarrow> DatastoreError '''')"

definition from_store :: "store_error + 'a \<Rightarrow> route_error + 'a" where
  "from_store r = (case r of Inl err \<Rightarrow> Inl (of_store err) | Inr x \<Rightarrow> Inr x)"

text \<open>
  The stores a router reads from, as \<open>cmd/praefect/main.go\<close> passes them: the repository store and,
  with repository specific primaries, the assignment store.
\<close>

definition per_repository_on :: "storage_config \<Rightarrow> repo_db \<Rightarrow> PerRepositoryRouter \<Rightarrow> PerRepositoryRouter" where
  "per_repository_on storages db r =
     r\<lparr>ag_GetHostAssignments := \<lambda>vs path. from_store (GetHostAssignments storages db vs path),
       csg_GetConsistentStorages := \<lambda>vs path. from_store (GetConsistentStorages db vs path),
       rs_GetRepositoryID := \<lambda>vs path. from_store (GetRepositoryID db vs path),
       rs_ReserveRepositoryID := \<lambda>vs path. from_store (snd (ReserveRepositoryID db vs path))\<rparr>"

definition node_manager_on :: "repo_db \<Rightarrow> nodeManagerRouter \<Rightarrow> nodeManagerRouter" where
  "node_manager_on db r =
     (let csg = (\<lambda>vs path. from_store (GetConsistentStorages db vs path))
      in r\<lparr>nm_mgr := (nm_mgr r)\<lparr>mgr_csg := csg\<rparr>, nm_GetConsistentStorages := csg\<rparr>)"

definition Router_RouteRepositoryAccessor ::
  "storage_config \<Rightarrow> repo_db \<Rightarrow> Router \<Rightarrow> string \<Rightarrow> string \<Rightarrow> bool \<Rightarrow> route_error + RouterNode" where
  "Router_RouteRepositoryAccessor storages db r vs path forcePrimary =
     (case r of
        PerRepository r \<Rightarrow> RouteRepositoryAccessor (per_repository_on storages db r) vs path forcePrimary
      | NodeManager r \<Rightarrow> nm_RouteRepositoryAccessor (node_manager_on db r) vs path forcePrimary)"

definition Router_RouteStorageAccessor ::
  "Router \<Rightarrow> string \<Rightarrow> route_error + RouterNode" where
  "Router_RouteStorageAccessor r vs =
     (case r of
        PerRepository r \<Rightarrow> RouteStorageAccessor r vs
      | NodeManager r \<Rightarrow> nm_RouteStorageAccessor r vs)"

definition Router_RouteStorageMutator ::
  "Router \<Rightarrow> string \<Rightarrow> route_error + StorageMutatorRoute" where
  "Router_RouteStorageMutator r vs =
     (case r of
        PerRepository r \<Rightarrow> RouteStorageMutator r vs
      | NodeManager r \<Rightarrow> nm_RouteStorageMutator r vs)"

definition Router_RouteRepositoryMutator ::
  "storage_config \<Rightarrow> repo_db \<Rightarrow> Router \<Rightarrow> string \<Rightarrow> string \<Rightarrow> route_error + RepositoryMutatorRoute" where
  "Router_RouteRepositoryMutator storages db r vs path =
     (case r of
        PerRepository r \<Rightarrow> RouteRepositoryMutator (per_repository_on storages db r) vs path
      | NodeManager r \<Rightarrow> nm_RouteRepositoryMutator (node_manager_on db r) vs path)"

text \<open>Reserving an identifier draws it from the sequence, once a primary is chosen.\<close>

definition reserved :: "repo_db \<Rightarrow> PerRepositoryRouter \<Rightarrow> string \<Rightarrow> string \<Rightarrow> repo_db" where
  "reserved db r vs path =
     (case healthyNodes r vs of
        Inl err \<Rightarrow> db
      | Inr ns \<Rightarrow>
          (case pickRandom r ns of
             Inl err \<Rightarrow> db
           | Inr primary \<Rightarrow> fst (ReserveRepositoryID db vs path)))"

definition Router_RouteRepositoryCreation ::
  "storage_config \<Rightarrow> repo_db \<Rightarrow> Router \<Rightarrow> string \<Rightarrow> string \<Rightarrow>
   repo_db \<times> (route_error + RepositoryMutatorRoute)" where
  "Router_RouteRepositoryCreation storages db r vs path =
     (case r of
        PerRepository r \<Rightarrow>
          (reserved db r vs path, RouteRepositoryCreation (per_repository_on storages db r) vs path)
      | NodeManager r \<Rightarrow> (db, nm_RouteRepositoryCreation (node_manager_on db r) vs path))"

section \<open>The state of the coordinator\<close>

record 'q Coordinator =
  router :: Router
  txMgr :: Manager
  queue :: 'q
  queue_Enqueue :: "int \<Rightarrow> ReplicationJob \<Rightarrow> 'q \<Rightarrow> 'q \<times> (enqueue_error + ReplicationEvent)"
  rs :: repo_db
  registry :: protos
  conf :: Config
  forceCreateRepositories :: bool

record Destination =
  dest_Tx :: "(uint \<times> string \<times> bool) option"
  dest_Conn :: conn
  dest_Msg :: "byte list"
  dest_ErrHandler :: "(string \<times> bool) option"

datatype finalizer =
    TransactionCleanup nat
  | TransactionFinalizer nat RepositoryMutatorRoute string Repository ChangeType Params
  | RequestFinalizer int string Repository string "string list" "string list" ChangeType Params

record StreamParameters =
  sp_primary :: Destination
  sp_secondaries :: "Destination list"
  sp_finalizers :: "finalizer list"

section \<open>Rewriting messages\<close>

definition rewrittenRepositoryMessage :: "protos \<Rightarrow> Message \<Rightarrow> string \<Rightarrow> coord_error + byte list" where
  "rewrittenRepositoryMessage reg m storage =
     (case msg_target m of
        Inl err \<Rightarrow> Inl (wrapError CodeInvalidArgument (ProtoErr err))
      | Inr repo \<Rightarrow>
     (case msg_additional m of
        Inl err \<Rightarrow> Inl (wrapError CodeInvalidArgument (ProtoErr err))
      | Inr additionalRepo \<Rightarrow>
     (case Marshal reg (m\<lparr>msg_target := Inr (repo\<lparr>StorageName := storage\<rparr>),
             msg_additional := Inr (map_option (\<lambda>a. a\<lparr>StorageName := storage\<rparr>) additionalRepo)\<rparr>) of
        Inl err \<Rightarrow> Inl (ProtoErr err)
      | Inr b \<Rightarrow> Inr b)))"

definition rewrittenStorageMessage :: "protos \<Rightarrow> Message \<Rightarrow> string \<Rightarrow> coord_error + byte list" where
  "rewrittenStorageMessage reg m storage =
     (case msg_storage m of
        Inl err \<Rightarrow> Inl (wrapError CodeInvalidArgument (ProtoErr err))
      | Inr _ \<Rightarrow>
     (case Marshal reg (m\<lparr>msg_storage := Inr storage\<rparr>) of
        Inl err \<Rightarrow> Inl (ProtoErr err)
      | Inr b \<Rightarrow> Inr b))"

section \<open>Accessors\<close>

definition routeRepositoryAccessorPolicy :: string where
  "routeRepositoryAccessorPolicy = ''gitaly-route-repository-accessor-policy''"

definition routeRepositoryAccessorPolicyPrimaryOnly :: string where
  "routeRepositoryAccessorPolicyPrimaryOnly = ''primary-only''"

type_synonym metadata = "(string, string list) gomap option"

definition shouldRouteRepositoryAccessorToPrimary :: "metadata \<Rightarrow> grpcCall \<Rightarrow> bool" where
  "shouldRouteRepositoryAccessorToPrimary ctx call =
     (let forcePrimary = (case map_of forcePrimaryRPCs (fullMethodName call) of None \<Rightarrow> False | Some b \<Rightarrow> b)
      in case ctx of
           None \<Rightarrow> forcePrimary
         | Some md \<Rightarrow>
             (case map_of md routeRepositoryAccessorPolicy of
                None \<Rightarrow> forcePrimary
              | Some [] \<Rightarrow> forcePrimary
              | Some (h # _) \<Rightarrow>
                  (if h = routeRepositoryAccessorPolicyPrimaryOnly then True else forcePrimary)))"

definition accessorStreamParameters ::
  "metadata \<Rightarrow> 'q Coordinator \<Rightarrow> grpcCall \<Rightarrow> coord_error + StreamParameters" where
  "accessorStreamParameters ctx c call =
     (let repoPath = repo_RelativePath (targetRepo call); virtualStorage = StorageName (targetRepo call)
      in case Router_RouteRepositoryAccessor (StorageNames (conf c)) (rs c) (router c) virtualStorage repoPath
                (shouldRouteRepositoryAccessorToPrimary ctx call) of
           Inl err \<Rightarrow> Inl (CWrap ''accessor call: route repository accessor'' (RouteErr err))
         | Inr node \<Rightarrow>
             (case rewrittenRepositoryMessage (registry c) (call_msg call) (Storage node) of
                Inl err \<Rightarrow> Inl (CWrap ''accessor call: rewrite storage'' err)
              | Inr b \<Rightarrow>
                  Inr \<lparr>sp_primary = \<lparr>dest_Tx = None, dest_Conn = Connection node, dest_Msg = b, dest_ErrHandler = None\<rparr>,
                       sp_secondaries = [], sp_finalizers = []\<rparr>))"

section \<open>Registering transactions\<close>

definition coordinator_voters :: "RouterNode \<Rightarrow> RouterNode list \<Rightarrow> Voter list" where
  "coordinator_voters primary secondaries =
     \<lparr>Name = Storage primary, Votes = of_nat (length secondaries) + 1,
      voter_vote = None, voter_result = VoteUndecided\<rparr> #
     map (\<lambda>secondary. \<lparr>Name = Storage secondary, Votes = 1,
       voter_vote = None, voter_result = VoteUndecided\<rparr>) secondaries"

definition coordinator_threshold :: "RouterNode list \<Rightarrow> uint" where
  "coordinator_threshold secondaries =
     (let secondaryLen = of_nat (length secondaries)
      in if 1 < length secondaries then secondaryLen + 1 + (secondaryLen + 1) div 2 else secondaryLen + 1)"

definition registerTransaction ::
  "Manager \<Rightarrow> RouterNode \<Rightarrow> RouterNode list \<Rightarrow> Manager \<times> (tx_error + nat)" where
  "registerTransaction mgr primary secondaries =
     RegisterTransaction mgr (coordinator_voters primary secondaries) (coordinator_threshold secondaries)"

section \<open>Mutators\<close>

definition routerNodesToStorages :: "RouterNode list \<Rightarrow> string list" where
  "routerNodesToStorages ns = map Storage ns"

fun secondary_destinations ::
  "protos \<Rightarrow> Message \<Rightarrow> uint \<Rightarrow> RouterNode list \<Rightarrow> coord_error + Destination list" where
  "secondary_destinations reg m transactionID [] = Inr []"
| "secondary_destinations reg m transactionID (secondary # rest) =
     (case rewrittenRepositoryMessage reg m (Storage secondary) of
        Inl err \<Rightarrow> Inl err
      | Inr b \<Rightarrow>
          (case secondary_destinations reg m transactionID rest of
             Inl err \<Rightarrow> Inl err
           | Inr ds \<Rightarrow>
               Inr (\<lparr>dest_Tx = Some (transactionID, Storage secondary, False),
                     dest_Conn = Connection secondary, dest_Msg = b,
                     dest_ErrHandler = Some (Storage secondary, True)\<rparr> # ds)))"

definition route_change ::
  "'q Coordinator \<Rightarrow> ChangeType \<Rightarrow> string \<Rightarrow> string \<Rightarrow> 'q Coordinator \<times> (coord_error + RepositoryMutatorRoute)" where
  "route_change c change virtualStorage relativePath =
     (if change = CreateRepo then
        (case Router_RouteRepositoryCreation (StorageNames (conf c)) (rs c) (router c) virtualStorage relativePath of
           (db, Inl err) \<Rightarrow> (c\<lparr>rs := db\<rparr>, Inl (CWrap ''route repository creation'' (RouteErr err)))
         | (db, Inr route) \<Rightarrow> (c\<lparr>rs := db\<rparr>, Inr route))
      else
        (case Router_RouteRepositoryMutator (StorageNames (conf c)) (rs c) (router c) virtualStorage relativePath of
           Inl err \<Rightarrow>
             (c, Inl (if unwrap_route err = ErrRepositoryReadOnly then RouteErr err
                      else CWrap ''mutator call: route repository mutator'' (RouteErr err)))
         | Inr route \<Rightarrow> (c, Inr route)))"

definition mutatorStreamParameters ::
  "'q Coordinator \<Rightarrow> grpcCall \<Rightarrow> 'q Coordinator \<times> (coord_error + StreamParameters)" where
  "mutatorStreamParameters c call =
     (let target = targetRepo call; virtualStorage = StorageName target in
      case getReplicationDetails (fullMethodName call) (call_msg call) of
        Inl err \<Rightarrow> (c, Inl (CWrap ''mutator call: replication details'' err))
      | Inr (change, params) \<Rightarrow>
     (case route_change c change virtualStorage (repo_RelativePath target) of
        (c, Inl err) \<Rightarrow> (c, Inl err)
      | (c, Inr route) \<Rightarrow>
     (case rewrittenRepositoryMessage (registry c) (call_msg call) (Storage (Primary route)) of
        Inl err \<Rightarrow> (c, Inl (CWrap ''mutator call: rewrite storage'' err))
      | Inr primaryMessage \<Rightarrow>
     (let primaryDest = \<lparr>dest_Tx = None, dest_Conn = Connection (Primary route),
            dest_Msg = primaryMessage, dest_ErrHandler = None\<rparr>
      in if shouldUseTransaction (fullMethodName call) then
           (case registerTransaction (txMgr c) (Primary route) (Secondaries route) of
              (mgr, Inl err) \<Rightarrow> (c\<lparr>txMgr := mgr\<rparr>, Inl (CWrap ''%w: %v %v'' (TxErr err)))
            | (mgr, Inr a) \<Rightarrow>
                (let c = c\<lparr>txMgr := mgr\<rparr>; transactionID = tx_id (sys_tx (heap mgr ! a)) in
                 case secondary_destinations (registry c) (call_msg call) transactionID (Secondaries route) of
                   Inl err \<Rightarrow> (c, Inl err)
                 | Inr secondaryDests \<Rightarrow>
                     (c, Inr \<lparr>sp_primary = primaryDest\<lparr>
                          dest_Tx := Some (transactionID, Storage (Primary route), True),
                          dest_ErrHandler := Some (Storage (Primary route), False)\<rparr>,
                        sp_secondaries = secondaryDests,
                        sp_finalizers = [TransactionCleanup a,
                          TransactionFinalizer a route virtualStorage target change params]\<rparr>)))
         else
           (c, Inr \<lparr>sp_primary = primaryDest, sp_secondaries = [],
              sp_finalizers = [RequestFinalizer (RepositoryMutatorRoute.RepositoryID route) virtualStorage target
                (Storage (Primary route)) []
                (routerNodesToStorages (Secondaries route) @ ReplicationTargets route) change params]\<rparr>)))))"

section \<open>Errors of the nodes\<close>

type_synonym node_errors = "(string, nat) gomap"

text \<open>The handler of a destination: it records the error, and secondaries hide it from the proxy.\<close>

definition handle_error :: "Destination \<Rightarrow> nat \<Rightarrow> node_errors \<Rightarrow> node_errors \<times> nat option" where
  "handle_error d err errByNode =
     (case dest_ErrHandler d of
        None \<Rightarrow> (errByNode, Some err)
      | Some (storage, hide) \<Rightarrow> (AList.update storage err errByNode, if hide then None else Some err))"

section \<open>What is outdated after a transaction\<close>

text \<open>The loop over the secondaries: those that are updated and those that are outdated.\<close>

fun sort_secondaries ::
  "node_errors \<Rightarrow> nat option \<Rightarrow> (string, VoteResult) gomap \<Rightarrow> RouterNode list \<Rightarrow> string list \<times> string list" where
  "sort_secondaries errByNode primaryErr nodeStates [] = ([], [])"
| "sort_secondaries errByNode primaryErr nodeStates (secondary # rest) =
     (let (updated, outdated) = sort_secondaries errByNode primaryErr nodeStates rest in
      if map_of errByNode (Storage secondary) \<noteq> primaryErr then (updated, Storage secondary # outdated)
      else if map_of nodeStates (Storage secondary) \<noteq> Some VoteCommitted then (updated, Storage secondary # outdated)
      else (Storage secondary # updated, outdated))"

text \<open>\<open>State\<close> of a transaction has no error to return.\<close>

definition getUpdatedAndOutdatedSecondaries ::
  "RepositoryMutatorRoute \<Rightarrow> transaction \<Rightarrow> node_errors \<Rightarrow> bool \<times> string list \<times> string list" where
  "getUpdatedAndOutdatedSecondaries route t errByNode =
     (let primaryErr = map_of errByNode (Storage (Primary route)) in
      if CountSubtransactions t = 0 \<and> primaryErr \<noteq> None then (False, [], [])
      else if CountSubtransactions t = 1 \<and> \<not> DidVote t (Storage (Primary route)) then (False, [], [])
      else if CountSubtransactions t = 0
      then (True, [], ReplicationTargets route @ routerNodesToStorages (Secondaries route))
      else if map_of (State t) (Storage (Primary route)) \<noteq> Some VoteCommitted
      then (True, [], ReplicationTargets route @ routerNodesToStorages (Secondaries route))
      else
        (let (updated, outdated) = sort_secondaries errByNode primaryErr (State t) (Secondaries route)
         in (True, updated, ReplicationTargets route @ outdated)))"

section \<open>Finalizing requests\<close>

fun enqueue_all ::
  "(int \<Rightarrow> ReplicationJob \<Rightarrow> 'q \<Rightarrow> 'q \<times> (enqueue_error + ReplicationEvent)) \<Rightarrow> int \<Rightarrow>
   (string \<Rightarrow> bool) \<Rightarrow> (string \<Rightarrow> ReplicationJob) \<Rightarrow> string list \<Rightarrow> 'q \<Rightarrow> 'q \<times> coord_error option" where
  "enqueue_all enq now reached job [] q = (q, None)"
| "enqueue_all enq now reached job (secondary # rest) q =
     (let (q, err) =
            (if reached secondary then
               (case enq now (job secondary) q of
                  (q, Inl e) \<Rightarrow> (q, Some (CWrap ''enqueue replication event'' (EnqueueErr e)))
                | (q, Inr event) \<Rightarrow> (q, None))
             else (q, Some (CWrap ''enqueue replication event'' ContextErr)));
          (q, err') = enqueue_all enq now reached job rest q
      in (q, case err of None \<Rightarrow> err' | Some e \<Rightarrow> Some e))"

text \<open>The switch on the change: the new database, or an error that ends the finalizer.\<close>

definition record_change ::
  "Config \<Rightarrow> int \<Rightarrow> string \<Rightarrow> string \<Rightarrow> string \<Rightarrow> string list \<Rightarrow> string list \<Rightarrow> ChangeType \<Rightarrow> Params \<Rightarrow>
   repo_db \<Rightarrow> repo_db \<times> coord_error option" where
  "record_change cfg repositoryID virtualStorage relativePath primary updatedSecondaries outdatedSecondaries
       change params db =
     (case change of
        UpdateRepo \<Rightarrow>
          (case IncrementGeneration db virtualStorage relativePath primary updatedSecondaries of
             (db, Some err) \<Rightarrow> (db, Some (CWrap ''increment generation'' (StoreErr err)))
           | (db, None) \<Rightarrow> (db, None))
      | RenameRepo \<Rightarrow>
          (case Option.bind params (\<lambda>m. map_of m ''RelativePath'') of
             Some (ParamString newPath) \<Rightarrow>
               (case RenameRepository db virtualStorage relativePath primary newPath of
                  (db, Some (RepositoryNotExistsError v p s)) \<Rightarrow> (db, None)
                | (db, Some err) \<Rightarrow> (db, Some (CWrap ''rename repository'' (StoreErr err)))
                | (db, None) \<Rightarrow> (db, None))
           | _ \<Rightarrow> (db, Some TypeAssertion))
      | DeleteRepo \<Rightarrow>
          (case DeleteRepository db virtualStorage relativePath (updatedSecondaries @ [primary]) of
             (db, Some ErrNoRowsAffected) \<Rightarrow> (db, None)
           | (db, Some err) \<Rightarrow> (db, Some (CWrap ''delete repository'' (StoreErr err)))
           | (db, None) \<Rightarrow> (db, None))
      | CreateRepo \<Rightarrow>
          (let repositorySpecificPrimariesEnabled =
                 fo_ElectionStrategy (cfg_Failover cfg) = ElectionStrategyPerRepository;
               variableReplicationFactorEnabled = repositorySpecificPrimariesEnabled \<and>
                 0 < getz (DefaultReplicationFactors cfg) virtualStorage
           in case CreateRepository db repositoryID virtualStorage relativePath primary updatedSecondaries
                     outdatedSecondaries repositorySpecificPrimariesEnabled variableReplicationFactorEnabled of
             (db, Some (RepositoryExistsError v p s)) \<Rightarrow> (db, None)
           | (db, Some err) \<Rightarrow> (db, Some (CWrap ''create repository'' (StoreErr err)))
           | (db, None) \<Rightarrow> (db, None))
      | _ \<Rightarrow> (db, None))"

definition replication_job ::
  "int \<Rightarrow> string \<Rightarrow> string \<Rightarrow> string \<Rightarrow> ChangeType \<Rightarrow> Params \<Rightarrow> string \<Rightarrow> ReplicationJob" where
  "replication_job repositoryID virtualStorage relativePath primary change params secondary =
     \<lparr>ReplicationJob.RepositoryID = repositoryID,
      Change = (if change = CreateRepo then UpdateRepo else change),
      RelativePath = relativePath, TargetNodeStorage = secondary, SourceNodeStorage = primary,
      job_VirtualStorage = virtualStorage, job_Params = params\<rparr>"

definition newRequestFinalizer ::
  "int \<Rightarrow> (string \<Rightarrow> bool) \<Rightarrow> int \<Rightarrow> string \<Rightarrow> Repository \<Rightarrow> string \<Rightarrow> string list \<Rightarrow> string list \<Rightarrow>
   ChangeType \<Rightarrow> Params \<Rightarrow> 'q Coordinator \<Rightarrow> 'q Coordinator \<times> coord_error option" where
  "newRequestFinalizer now reached repositoryID virtualStorage target primary updatedSecondaries
       outdatedSecondaries change params c =
     (case record_change (conf c) repositoryID virtualStorage (repo_RelativePath target) primary
             updatedSecondaries outdatedSecondaries change params (rs c) of
        (db, Some err) \<Rightarrow> (c\<lparr>rs := db\<rparr>, Some err)
      | (db, None) \<Rightarrow>
          (case enqueue_all (queue_Enqueue c) now reached
                  (replication_job repositoryID virtualStorage (repo_RelativePath target) primary change params)
                  outdatedSecondaries (queue c) of
             (q, err) \<Rightarrow> (c\<lparr>rs := db, queue := q\<rparr>, err)))"

definition createTransactionFinalizer ::
  "int \<Rightarrow> (string \<Rightarrow> bool) \<Rightarrow> node_errors \<Rightarrow> nat \<Rightarrow> RepositoryMutatorRoute \<Rightarrow> string \<Rightarrow> Repository \<Rightarrow>
   ChangeType \<Rightarrow> Params \<Rightarrow> 'q Coordinator \<Rightarrow> 'q Coordinator \<times> coord_error option" where
  "createTransactionFinalizer now reached errByNode a route virtualStorage target change params c =
     (case getUpdatedAndOutdatedSecondaries route (sys_tx (heap (txMgr c) ! a)) errByNode of
        (primaryDirtied, updated, outdated) \<Rightarrow>
          (if \<not> primaryDirtied then (c, None)
           else newRequestFinalizer now reached (RepositoryMutatorRoute.RepositoryID route) virtualStorage
                  target (Storage (Primary route)) updated outdated change params c))"

fun run_finalizer ::
  "int \<Rightarrow> (string \<Rightarrow> bool) \<Rightarrow> node_errors \<Rightarrow> finalizer \<Rightarrow> 'q Coordinator \<Rightarrow> 'q Coordinator \<times> coord_error option" where
  "run_finalizer now reached errByNode (TransactionCleanup a) c =
     (c\<lparr>txMgr := fst (cancelTransaction (txMgr c) a)\<rparr>, None)"
| "run_finalizer now reached errByNode
     (TransactionFinalizer a route virtualStorage target change params) c =
     createTransactionFinalizer now reached errByNode a route virtualStorage target change params c"
| "run_finalizer now reached errByNode
     (RequestFinalizer repositoryID virtualStorage target primary updated outdated change params) c =
     newRequestFinalizer now reached repositoryID virtualStorage target primary updated outdated change params c"

text \<open>\<open>reqFinalizer\<close>: every finalizer runs, and the first error is returned.\<close>

fun reqFinalizer ::
  "int \<Rightarrow> (string \<Rightarrow> bool) \<Rightarrow> node_errors \<Rightarrow> finalizer list \<Rightarrow> 'q Coordinator \<Rightarrow> 'q Coordinator \<times> coord_error option" where
  "reqFinalizer now reached errByNode [] c = (c, None)"
| "reqFinalizer now reached errByNode (f # fs) c =
     (let (c, err) = run_finalizer now reached errByNode f c;
          (c, err') = reqFinalizer now reached errByNode fs c
      in (c, case err of None \<Rightarrow> err' | Some e \<Rightarrow> Some e))"

section \<open>Directing streams\<close>

definition accessorStorageStreamParameters ::
  "'q Coordinator \<Rightarrow> Message \<Rightarrow> string \<Rightarrow> coord_error + StreamParameters" where
  "accessorStorageStreamParameters c m virtualStorage =
     (case Router_RouteStorageAccessor (router c) virtualStorage of
        Inl err \<Rightarrow>
          Inl (if is_virtual_storage_missing (RouteErr err) then wrapError CodeInvalidArgument (RouteErr err)
               else formatError CodeInternal ''accessor storage scoped: route storage accessor'' (RouteErr err))
      | Inr node \<Rightarrow>
     (case rewrittenStorageMessage (registry c) m (Storage node) of
        Inl err \<Rightarrow> Inl (wrapError CodeInvalidArgument (CWrap ''accessor storage scoped'' err))
      | Inr b \<Rightarrow>
          Inr \<lparr>sp_primary = \<lparr>dest_Tx = None, dest_Conn = Connection node, dest_Msg = b, dest_ErrHandler = None\<rparr>,
               sp_secondaries = [], sp_finalizers = []\<rparr>))"

fun storage_destinations :: "protos \<Rightarrow> Message \<Rightarrow> RouterNode list \<Rightarrow> coord_error + Destination list" where
  "storage_destinations reg m [] = Inr []"
| "storage_destinations reg m (secondary # rest) =
     (case rewrittenStorageMessage reg m (Storage secondary) of
        Inl err \<Rightarrow> Inl (wrapError CodeInvalidArgument (CWrap ''mutator storage scoped'' err))
      | Inr b \<Rightarrow>
          (case storage_destinations reg m rest of
             Inl err \<Rightarrow> Inl err
           | Inr ds \<Rightarrow> Inr (\<lparr>dest_Tx = None, dest_Conn = Connection secondary, dest_Msg = b,
                             dest_ErrHandler = None\<rparr> # ds)))"

definition mutatorStorageStreamParameters ::
  "'q Coordinator \<Rightarrow> Message \<Rightarrow> string \<Rightarrow> coord_error + StreamParameters" where
  "mutatorStorageStreamParameters c m virtualStorage =
     (case Router_RouteStorageMutator (router c) virtualStorage of
        Inl err \<Rightarrow>
          Inl (if is_virtual_storage_missing (RouteErr err) then wrapError CodeInvalidArgument (RouteErr err)
               else formatError CodeInternal ''mutator storage scoped: get shard'' (RouteErr err))
      | Inr route \<Rightarrow>
     (case rewrittenStorageMessage (registry c) m (Storage (sm_Primary route)) of
        Inl err \<Rightarrow> Inl (wrapError CodeInvalidArgument (CWrap ''mutator storage scoped'' err))
      | Inr b \<Rightarrow>
     (case storage_destinations (registry c) m (sm_Secondaries route) of
        Inl err \<Rightarrow> Inl err
      | Inr secondaryDests \<Rightarrow>
          Inr \<lparr>sp_primary = \<lparr>dest_Tx = None, dest_Conn = Connection (sm_Primary route), dest_Msg = b,
                 dest_ErrHandler = None\<rparr>,
               sp_secondaries = secondaryDests, sp_finalizers = []\<rparr>)))"

definition directStorageScopedMessage ::
  "'q Coordinator \<Rightarrow> MethodInfo \<Rightarrow> Message \<Rightarrow> coord_error + StreamParameters" where
  "directStorageScopedMessage c mi m =
     (case msg_storage m of
        Inl err \<Rightarrow> Inl (wrapError CodeInvalidArgument (ProtoErr err))
      | Inr virtualStorage \<Rightarrow>
          (if virtualStorage = '''' then Inl (Status CodeInvalidArgument TargetStorageInvalid)
           else case Operation mi of
             OpAccessor \<Rightarrow> accessorStorageStreamParameters c m virtualStorage
           | OpMutator \<Rightarrow> mutatorStorageStreamParameters c m virtualStorage
           | OpUnknown \<Rightarrow> Inl (UnknownOperation OpUnknown)))"

text \<open>The repository is created when \<open>forceCreateRepositories\<close> is set, for tests of Gitaly.\<close>

definition force_create :: "'q Coordinator \<Rightarrow> Repository \<Rightarrow> 'q Coordinator \<times> coord_error option" where
  "force_create c repo =
     (case ReserveRepositoryID (rs c) (StorageName repo) (repo_RelativePath repo) of
        (db, Inl err) \<Rightarrow>
          (c\<lparr>rs := db\<rparr>, if err = ErrRepositoryAlreadyExists then None else Some (StoreErr err))
      | (db, Inr rid) \<Rightarrow>
          (case CreateRepository db rid (StorageName repo) (repo_RelativePath repo) (StorageName repo) [] [] True True of
             (db, Some (RepositoryExistsError v p s)) \<Rightarrow> (c\<lparr>rs := db\<rparr>, None)
           | (db, Some err) \<Rightarrow> (c\<lparr>rs := db\<rparr>, Some (StoreErr err))
           | (db, None) \<Rightarrow> (c\<lparr>rs := db\<rparr>, None)))"

definition directRepositoryScopedMessage ::
  "metadata \<Rightarrow> 'q Coordinator \<Rightarrow> grpcCall \<Rightarrow> 'q Coordinator \<times> (coord_error + StreamParameters)" where
  "directRepositoryScopedMessage ctx c call =
     (case (if forceCreateRepositories c then force_create c (targetRepo call) else (c, None)) of
        (c, Some err) \<Rightarrow> (c, Inl err)
      | (c, None) \<Rightarrow>
     (case (case Operation (methodInfo call) of
              OpAccessor \<Rightarrow> (c, accessorStreamParameters ctx c call)
            | OpMutator \<Rightarrow> mutatorStreamParameters c call
            | OpUnknown \<Rightarrow> (c, Inl (UnknownOperation OpUnknown))) of
        (c, Inl err) \<Rightarrow> (c, Inl (if is_repository_missing err then wrapError CodeNotFound err else err))
      | (c, Inr ps) \<Rightarrow> (c, Inr ps)))"

definition validateTargetRepo :: "Config \<Rightarrow> Repository \<Rightarrow> coord_error option" where
  "validateTargetRepo cfg repo =
     (if StorageName repo = '''' \<or> repo_RelativePath repo = '''' then Some ErrInvalidRepository
      else if map_of (StorageNames cfg) (StorageName repo) = None then Some ErrInvalidRepository
      else None)"

text \<open>\<open>StreamDirector\<close>; \<open>peek\<close> is what the first message of the stream reads as.\<close>

definition StreamDirector ::
  "metadata \<Rightarrow> 'q Coordinator \<Rightarrow> string \<Rightarrow> coord_error + byte list \<Rightarrow>
   'q Coordinator \<times> (coord_error + StreamParameters)" where
  "StreamDirector ctx c rpc peek =
     (case LookupMethod (registry c) rpc of
        Inl err \<Rightarrow> (c, Inl (ProtoErr err))
      | Inr mi \<Rightarrow>
     (case peek of
        Inl err \<Rightarrow> (c, Inl err)
      | Inr payload \<Rightarrow>
     (case UnmarshalRequestProto (registry c) mi payload of
        Inl err \<Rightarrow> (c, Inl (ProtoErr err))
      | Inr m \<Rightarrow>
     (case mi_Scope mi of
        ScopeRepository \<Rightarrow>
          (case msg_target m of
             Inl err \<Rightarrow> (c, Inl (wrapError CodeInvalidArgument (CWrap ''repo scoped'' (ProtoErr err))))
           | Inr repo \<Rightarrow>
               (case validateTargetRepo (conf c) repo of
                  Some err \<Rightarrow> (c, Inl (wrapError CodeInvalidArgument (CWrap ''repo scoped'' err)))
                | None \<Rightarrow>
                    (case directRepositoryScopedMessage ctx c
                            \<lparr>fullMethodName = rpc, methodInfo = mi, call_msg = m, targetRepo = repo\<rparr> of
                       (c, Inl err) \<Rightarrow>
                         (c, Inl (if is_virtual_storage_missing err then wrapError CodeInvalidArgument err
                                  else if is_repository_existing err then wrapError CodeAlreadyExists err
                                  else err))
                     | (c, Inr sp) \<Rightarrow> (c, Inr sp))))
      | ScopeStorage \<Rightarrow> (c, directStorageScopedMessage c mi m)
      | ScopeUnknown \<Rightarrow> (c, Inl (Status CodeInternal (UndefinedScope ScopeUnknown)))))))"

end
