(* ===== verification/Coordinator_Transactions.thy ===== *)
theory Coordinator_Transactions
  imports Coordinator Transaction_Manager_Props
begin

text \<open>
  What the voting strategy of the coordinator guarantees: no quorum without the primary and half of
  the secondaries, and what the coordinator concludes from a finished transaction is what the nodes
  have agreed on.
\<close>

section \<open>The registered transaction\<close>

lemma voters_names [simp]:
  "map Name (coordinator_voters primary secondaries) = Storage primary # map Storage secondaries"
  by (simp add: coordinator_voters_def)

lemma unat_secondaries:
  assumes "length secondaries < 2 ^ 60"
  shows "unat (of_nat (length secondaries) + 1 :: uint) = length secondaries + 1"
  using assms by (simp add: unat_word_ariths unat_of_nat)

lemma unat_threshold:
  assumes "length secondaries < 2 ^ 60"
  shows "unat (coordinator_threshold secondaries) =
    length secondaries + 1 + (if 1 < length secondaries then (length secondaries + 1) div 2 else 0)"
proof -
  let ?x = "of_nat (length secondaries) + 1 :: uint"
  note x = unat_secondaries [OF assms]
  have half: "unat (?x div 2) = (length secondaries + 1) div 2" by (simp only: unat_div x) simp
  have "unat (?x + ?x div 2) = (unat ?x + unat (?x div 2)) mod 2 ^ 64"
    by (simp only: unat_word_ariths(1)) simp
  also have "\<dots> = (length secondaries + 1 + (length secondaries + 1) div 2) mod 2 ^ 64"
    by (simp only: x half)
  also have "\<dots> = length secondaries + 1 + (length secondaries + 1) div 2" using assms by simp
  finally have "unat (?x + ?x div 2) = length secondaries + 1 + (length secondaries + 1) div 2" .
  with x show ?thesis by (simp add: coordinator_threshold_def Let_def)
qed

lemma votes_total:
  assumes "length secondaries < 2 ^ 60"
  shows "sum_list (map (\<lambda>x. unat (Votes x)) (coordinator_voters primary secondaries)) = 2 * length secondaries + 1"
  using unat_secondaries [OF assms] by (simp add: coordinator_voters_def comp_def sum_list_triv)

lemma coordinator_voters_ok:
  assumes "length secondaries < 2 ^ 60"
  shows "voters_ok (coordinator_voters primary secondaries)"
  using votes_total [OF assms, of primary] assms
  by (auto simp: voters_ok_def coordinator_voters_def)

text \<open>Registration succeeds for distinct nodes: the threshold is always valid.\<close>

lemma coordinator_transaction_accepted:
  assumes "length secondaries < 2 ^ 60" and "distinct (map Storage (primary # secondaries))"
  shows "\<exists>t. newTransaction tid (coordinator_voters primary secondaries) (coordinator_threshold secondaries) = Inr t"
proof -
  let ?voters = "coordinator_voters primary secondaries" and ?thr = "coordinator_threshold secondaries"
  have total: "unat (sum_list (map Votes ?voters)) = 2 * length secondaries + 1"
    using unat_Votes_sum [OF coordinator_voters_ok [OF assms(1)]] votes_total [OF assms(1)] by simp
  have "?thr \<le> sum_list (map Votes ?voters) \<and> sum_list (map Votes ?voters) < ?thr * 2"
    unfolding double_threshold total unat_threshold [OF assms(1)] using assms(1) by auto
  moreover have "?voters \<noteq> []" by (simp add: coordinator_voters_def)
  ultimately show ?thesis using assms(2) by (simp add: newTransaction_def sum_voters_eq not_less not_le)
qed

section \<open>Transactions in the manager\<close>

lemma mgr_step_heap:
  "mgr_step mgr mgr' \<Longrightarrow> b < length (heap mgr) \<Longrightarrow>
     b < length (heap mgr') \<and> tx_step\<^sup>*\<^sup>* (heap mgr ! b) (heap mgr' ! b)"
proof (induction rule: mgr_step.induct)
  case (mgr_register voters mgr thr)
  then show ?case
    by (auto simp: RegisterTransaction_def Let_def nth_append split: sum.split)
next
  case (mgr_vote mgr tid node v)
  then show ?case
  proof (cases "map_of (transactions mgr) tid")
    case (Some a)
    show ?thesis
    proof (cases "a = b")
      case True
      with Some mgr_vote show ?thesis
        using r_into_rtranclp [of tx_step, OF tx_enter [of "heap mgr ! b" node v]]
        by (simp add: voteTransaction_def)
    qed (use Some mgr_vote in \<open>simp add: voteTransaction_def\<close>)
  qed (simp add: voteTransaction_def)
next
  case (mgr_tx a mgr s)
  then show ?case by (auto simp: nth_list_update)
qed simp

lemma mgr_run_heap:
  assumes "mgr_step\<^sup>*\<^sup>* mgr mgr'" and "b < length (heap mgr)"
  shows "b < length (heap mgr') \<and> tx_step\<^sup>*\<^sup>* (heap mgr ! b) (heap mgr' ! b)"
  using assms
proof (induction rule: rtranclp_induct)
  case (step y z)
  then show ?case using mgr_step_heap [OF step.hyps(2), of b] by (auto intro: rtranclp_trans)
qed simp

lemma registered_transaction:
  assumes "registerTransaction mgr primary secondaries = (mgr1, Inr a)" and "mgr_step\<^sup>*\<^sup>* mgr1 mgr2"
  shows "\<exists>tid t0. newTransaction tid (coordinator_voters primary secondaries) (coordinator_threshold secondaries) = Inr t0 \<and>
    tx_reachable t0 (heap mgr2 ! a)"
proof -
  obtain t0 where new: "newTransaction (idSequence mgr + 1) (coordinator_voters primary secondaries)
      (coordinator_threshold secondaries) = Inr t0"
    and "heap mgr1 = heap mgr @ [start_system t0]" and "a = length (heap mgr)"
    using assms(1) by (auto simp: registerTransaction_def RegisterTransaction_def Let_def split: sum.splits if_splits)
  with mgr_run_heap [OF assms(2), of a] show ?thesis by (auto simp: nth_append)
qed

lemma mgr_tx_run:
  assumes "a < length (heap mgr)" and "tx_step\<^sup>*\<^sup>* (heap mgr ! a) s"
  shows "mgr_step\<^sup>*\<^sup>* mgr (mgr\<lparr>heap := (heap mgr)[a := s]\<rparr>)"
  using assms(2)
proof (induction rule: rtranclp_induct)
  case (step s s')
  have "mgr_step (mgr\<lparr>heap := (heap mgr)[a := s]\<rparr>)
      ((mgr\<lparr>heap := (heap mgr)[a := s]\<rparr>)\<lparr>heap := (heap (mgr\<lparr>heap := (heap mgr)[a := s]\<rparr>))[a := s']\<rparr>)"
    using assms(1) step.hyps(2) by (intro mgr_tx) simp_all
  with step.IH show ?case by (simp add: rtranclp.rtrancl_into_rtrancl)
qed simp

section \<open>Quorums of the coordinator\<close>

lemma sum_list_if: "sum_list (map (\<lambda>x. if P x then 1 else 0) xs) = length (filter P xs)"
  by (induction xs) auto

lemma coordinator_weight:
  assumes "length secondaries < 2 ^ 60"
  shows "weight_of (coordinator_voters primary secondaries) sub v =
    (if getVote sub (Storage primary) = Inr (Some v) then length secondaries + 1 else 0) +
    length (filter (\<lambda>s. getVote sub (Storage s) = Inr (Some v)) secondaries)"
  using unat_secondaries [OF assms]
  by (simp add: weight_of_def coordinator_voters_def comp_def sum_list_if [symmetric] cong: if_cong)

lemma primary_agrees:
  assumes "registerTransaction mgr primary secondaries = (mgr1, Inr a)" and "length secondaries < 2 ^ 60"
    and "mgr_step\<^sup>*\<^sup>* mgr1 mgr2" and "sub \<in> set (subtransactions (sys_tx (heap mgr2 ! a)))"
    and "getResult sub node = Inr VoteCommitted"
  obtains v where "getVote sub node = Inr (Some v)" and "getVote sub (Storage primary) = Inr (Some v)"
    and "1 < length secondaries \<longrightarrow> (length secondaries + 1) div 2 \<le>
      length (filter (\<lambda>s. getVote sub (Storage s) = Inr (Some v)) secondaries)"
proof -
  let ?voters = "coordinator_voters primary secondaries"
  obtain tid t0 where new: "newTransaction tid ?voters (coordinator_threshold secondaries) = Inr t0"
    and reach: "tx_reachable t0 (heap mgr2 ! a)"
    using registered_transaction [OF assms(1,3)] by blast
  note inv = reachable_sub_inv [OF new coordinator_voters_ok [OF assms(2)] reach assms(4)]
    and d = newTransaction_Inr(3) [OF new]
  from committed_quorum [OF inv(1) assms(5)] obtain v where
    v: "getVote sub node = Inr (Some v)" "sub_quorum sub v" by blast
  define k where "k = length (filter (\<lambda>s. getVote sub (Storage s) = Inr (Some v)) secondaries)"
  have k: "k \<le> length secondaries" by (simp add: k_def)
  have "cast_weight v (votersByNode sub) = weight_of ?voters sub v"
    using inv(1) by (intro cast_weight_of [OF d inv(2)]) (simp add: sub_inv_def sub_wf_def)
  with quorum_weight [OF inv(1) v(2)] evolves_voters(1) [OF d inv(2)]
  have "length secondaries + 1 + (if 1 < length secondaries then (length secondaries + 1) div 2 else 0) \<le>
    (if getVote sub (Storage primary) = Inr (Some v) then length secondaries + 1 else 0) + k"
    by (simp only: unat_threshold [OF assms(2)] coordinator_weight [OF assms(2)] k_def)
  with k have "getVote sub (Storage primary) = Inr (Some v)"
    and "1 < length secondaries \<longrightarrow> (length secondaries + 1) div 2 \<le> k"
    by (auto split: if_splits)
  with v(1) that show thesis unfolding k_def by blast
qed

section \<open>What the finalizer concludes\<close>

lemma fold_update_map_of:
  "gowf xs \<Longrightarrow> map_of (fold (\<lambda>(k, x) m. AList.update k x m) xs m) = map_of m ++ map_of xs"
proof (induction xs arbitrary: m)
  case (Cons p xs)
  then have "map_of xs (fst p) = None" by (simp add: map_of_eq_None_iff)
  with Cons show ?case by (cases p) (auto simp: map_add_def fun_eq_iff split: option.split)
qed simp

lemma State_committed:
  assumes "subtransactions t \<noteq> []" and "sub_inv (last (subtransactions t))"
  shows "map_of (State t) node = Some VoteCommitted \<longleftrightarrow>
    getResult (last (subtransactions t)) node = Inr VoteCommitted"
proof -
  let ?m = "votersByNode (last (subtransactions t))"
  have "gowf (sub_state (last (subtransactions t)))"
    using assms(2) by (simp add: sub_state_def sub_inv_def sub_wf_def gowf_def comp_def case_prod_unfold)
  from fold_update_map_of [OF this, of "[]"] assms(1)
  have "map_of (State t) = map_of (sub_state (last (subtransactions t)))" by (simp add: State_def)
  also have "\<dots> = (\<lambda>k. map_option voter_result (map_of ?m k))"
    by (simp add: sub_state_def map_of_map fun_eq_iff)
  finally show ?thesis by (auto simp: getResult_def split: option.split)
qed

lemma sort_secondaries_partition:
  assumes "sort_secondaries errs perr states ss = (updated, outdated)"
  shows "mset updated + mset outdated = mset (map Storage ss)"
    and "s \<in> set updated \<Longrightarrow> map_of errs s = perr \<and> map_of states s = Some VoteCommitted"
proof -
  show "mset updated + mset outdated = mset (map Storage ss)"
    using assms by (induction ss arbitrary: updated outdated)
      (auto simp: Let_def split: prod.splits if_splits)
  show "map_of errs s = perr \<and> map_of states s = Some VoteCommitted" if "s \<in> set updated"
    using assms that by (induction ss arbitrary: updated outdated)
      (auto simp: Let_def split: prod.splits if_splits)
qed

lemma updated_outdated_cases:
  assumes "getUpdatedAndOutdatedSecondaries route t errs = (True, updated, outdated)"
  obtains (replicate_all) "updated = []" "outdated = ReplicationTargets route @ map Storage (Secondaries route)"
  | (sorted_out) out where "subtransactions t \<noteq> []" "map_of (State t) (Storage (Primary route)) = Some VoteCommitted"
      "sort_secondaries errs (map_of errs (Storage (Primary route))) (State t) (Secondaries route) = (updated, out)"
      "outdated = ReplicationTargets route @ out"
  using assms by (auto simp: getUpdatedAndOutdatedSecondaries_def Let_def CountSubtransactions_def
      routerNodesToStorages_def split: if_splits prod.splits)

lemma updated_outdated_partition:
  assumes "getUpdatedAndOutdatedSecondaries route t errs = (True, updated, outdated)"
  shows "mset updated + mset outdated = mset (ReplicationTargets route @ map Storage (Secondaries route))"
  using assms
proof (cases rule: updated_outdated_cases)
  case (sorted_out out)
  then show ?thesis using sort_secondaries_partition(1) [OF sorted_out(3)] by (simp add: ac_simps)
qed simp

lemma committed_everywhere:
  assumes "registerTransaction mgr primary secondaries = (mgr1, Inr a)" and "length secondaries < 2 ^ 60"
    and "mgr_step\<^sup>*\<^sup>* mgr1 mgr2" and "subs = subtransactions (sys_tx (heap mgr2 ! a))"
    and "i < length subs" and "getResult (last subs) node = Inr VoteCommitted"
  shows "getResult (subs ! i) node = Inr VoteCommitted"
proof (cases "i = length subs - 1")
  case True
  moreover from assms(5) have "subs \<noteq> []" by auto
  ultimately show ?thesis using assms(6) by (simp add: last_conv_nth)
next
  case False
  obtain tid t0 where new: "newTransaction tid (coordinator_voters primary secondaries)
      (coordinator_threshold secondaries) = Inr t0" and reach: "tx_reachable t0 (heap mgr2 ! a)"
    using registered_transaction [OF assms(1,3)] by blast
  have "subs \<noteq> []" using assms(5) by auto
  with primary_agrees [OF assms(1-3) _ assms(6)] assms(4) have "voted (last subs) node"
    by (metis voted_def last_in_set)
  with reachable_inv [OF new coordinator_voters_ok [OF assms(2)] reach] \<open>subs \<noteq> []\<close>
  have "committed_upto subs node (length subs - 1)"
    by (simp add: tx_inv_def subs_ok_def assms(4) [symmetric] last_conv_nth)
  with False assms(5) show ?thesis by (simp add: committed_upto_def)
qed

section \<open>A transactional request with two secondaries\<close>

text \<open>The primary \<open>a\<close> and the secondary \<open>b\<close> agree, the secondary \<open>c\<close> does not.\<close>

definition cw_node :: "string \<Rightarrow> RouterNode" where
  "cw_node name = \<lparr>Storage = name, Connection = Some 0\<rparr>"

definition cw_mgr1 :: Manager where
  "cw_mgr1 = fst (registerTransaction NewManager (cw_node ''a'') [cw_node ''b'', cw_node ''c''])"

definition cw_votes :: "sched list" where
  "cw_votes = [Enter ''a'' [1], Enter ''b'' [1], Enter ''c'' [2], Move 0 False, Move 0 False,
     Move 1 False, Move 1 False, Move 2 False, Move 2 False, Move 0 False, Move 1 False, Move 2 False]"

definition cw_run :: "sched list \<Rightarrow> Manager" where
  "cw_run es = cw_mgr1\<lparr>heap := (heap cw_mgr1)[0 := exec es (heap cw_mgr1 ! 0)]\<rparr>"

definition cw_route :: RepositoryMutatorRoute where
  "cw_route = \<lparr>RepositoryMutatorRoute.RepositoryID = 1, Primary = cw_node ''a'', Secondaries = [cw_node ''b'', cw_node ''c''],
     ReplicationTargets = [''d'']\<rparr>"

lemma cw_registered:
  "registerTransaction NewManager (cw_node ''a'') [cw_node ''b'', cw_node ''c''] = (cw_mgr1, Inr 0)"
proof -
  have "snd (registerTransaction NewManager (cw_node ''a'') [cw_node ''b'', cw_node ''c'']) = Inr 0"
    by code_simp
  then show ?thesis by (metis cw_mgr1_def prod.collapse)
qed

lemma cw_reachable: "mgr_step\<^sup>*\<^sup>* cw_mgr1 (cw_run es)"
proof -
  have "length (heap cw_mgr1) = 1" by code_simp
  then show ?thesis unfolding cw_run_def by (intro mgr_tx_run exec_reachable) simp
qed

definition cw_sub :: subtransaction where
  "cw_sub = hd (subtransactions (sys_tx (heap (cw_run cw_votes) ! 0)))"

text \<open>
  C18. No node commits a session of a transaction of the coordinator unless the primary has cast the
  same vote and, with more than one secondary, at least half of the secondaries have.
\<close>

theorem quorum_needs_primary:
  assumes "registerTransaction mgr primary secondaries = (mgr1, Inr a)" and "length secondaries < 2 ^ 60"
    and "mgr_step\<^sup>*\<^sup>* mgr1 mgr2" and "sub \<in> set (subtransactions (sys_tx (heap mgr2 ! a)))"
    and "getResult sub node = Inr VoteCommitted"
  shows "\<exists>v. getVote sub node = Inr (Some v) \<and> getVote sub (Storage primary) = Inr (Some v) \<and>
    (length secondaries \<le> 1 \<or> (length secondaries + 1) div 2 \<le>
       length (filter (\<lambda>s. getVote sub (Storage s) = Inr (Some v)) secondaries))"
  using primary_agrees [OF assms] by (metis not_le)

theorem quorum_needs_primary_witness:
  "\<exists>v. getVote cw_sub ''b'' = Inr (Some v) \<and> getVote cw_sub ''a'' = Inr (Some v)"
proof -
  have "cw_sub \<in> set (subtransactions (sys_tx (heap (cw_run cw_votes) ! 0)))" by code_simp
  moreover have "getResult cw_sub ''b'' = Inr VoteCommitted" by code_simp
  ultimately show ?thesis
    using quorum_needs_primary [OF cw_registered _ cw_reachable, of cw_sub cw_votes "''b''"]
    by (auto simp: cw_node_def)
qed

text \<open>
  C19. A secondary that the coordinator counts as updated has committed every session of the
  transaction with the vote of the primary, and has returned the same error as the primary or none.
  Every other secondary and every replication target is counted as outdated.
\<close>

theorem updated_secondaries_agree:
  assumes "registerTransaction mgr (Primary route) (Secondaries route) = (mgr1, Inr a)"
    and "length (Secondaries route) < 2 ^ 60" and "mgr_step\<^sup>*\<^sup>* mgr1 mgr2"
    and "getUpdatedAndOutdatedSecondaries route (sys_tx (heap mgr2 ! a)) errs = (True, updated, outdated)"
  shows "mset updated + mset outdated = mset (ReplicationTargets route @ map Storage (Secondaries route)) \<and>
    list_all (\<lambda>s. map_of errs s = map_of errs (Storage (Primary route)) \<and>
      list_all (\<lambda>sub. getResult sub s = Inr VoteCommitted \<and> getResult sub (Storage (Primary route)) = Inr VoteCommitted \<and>
        getVote sub s = getVote sub (Storage (Primary route)))
        (subtransactions (sys_tx (heap mgr2 ! a)))) updated"
proof -
  define t where "t = sys_tx (heap mgr2 ! a)"
  define subs where "subs = subtransactions t"
  let ?p = "Storage (Primary route)"
  from assms(4) [folded t_def] show ?thesis
  proof (cases rule: updated_outdated_cases)
    case (sorted_out out)
    note 2 = sorted_out [folded subs_def]
    note part = sort_secondaries_partition [OF 2(3)]
    obtain tid t0 where new: "newTransaction tid (coordinator_voters (Primary route) (Secondaries route))
        (coordinator_threshold (Secondaries route)) = Inr t0" and reach: "tx_reachable t0 (heap mgr2 ! a)"
      using registered_transaction [OF assms(1,3)] by blast
    have "sub_inv (last subs)" using 2(1)
      by (intro reachable_sub_inv(1) [OF new coordinator_voters_ok [OF assms(2)] reach])
        (simp add: subs_def t_def)
    note committed = State_committed [of t, folded subs_def, OF 2(1) this]
    have all: "getResult sub n = Inr VoteCommitted"
      if "map_of (State t) n = Some VoteCommitted" "sub \<in> set subs" for n sub
      using that committed committed_everywhere [OF assms(1-3), of subs _ n]
      by (auto simp: subs_def t_def in_set_conv_nth)
    have same: "getVote sub n = getVote sub ?p" if "getResult sub n = Inr VoteCommitted" "sub \<in> set subs" for n sub
      using primary_agrees [OF assms(1-3) _ that(1)] that(2) by (metis subs_def t_def)
    have "getResult sub s = Inr VoteCommitted \<and> getResult sub ?p = Inr VoteCommitted \<and> getVote sub s = getVote sub ?p"
      if "s \<in> set updated" "sub \<in> set subs" for s sub
      using all [of s sub] all [OF 2(2) that(2)] same [of sub s] part(2) [OF that(1)] that(2) by blast
    moreover have "map_of errs s = map_of errs ?p" if "s \<in> set updated" for s using part(2) [OF that] by blast
    ultimately show ?thesis
      using updated_outdated_partition [OF assms(4)]
      unfolding list_all_iff t_def [symmetric] subs_def [symmetric] by blast
  qed simp
qed

theorem updated_secondaries_agree_witness:
  "getUpdatedAndOutdatedSecondaries cw_route (sys_tx (heap (cw_run cw_votes) ! 0)) [] = (True, [''b''], [''d'', ''c'']) \<and>
   getVote cw_sub ''b'' = getVote cw_sub ''a''"
proof -
  have up: "getUpdatedAndOutdatedSecondaries cw_route (sys_tx (heap (cw_run cw_votes) ! 0)) [] = (True, [''b''], [''d'', ''c''])"
    by code_simp
  have reg: "registerTransaction NewManager (Primary cw_route) (Secondaries cw_route) = (cw_mgr1, Inr 0)"
    by (simp add: cw_route_def cw_registered)
  have "cw_sub \<in> set (subtransactions (sys_tx (heap (cw_run cw_votes) ! 0)))" by code_simp
  with updated_secondaries_agree [OF reg _ cw_reachable up] up show ?thesis
    by (simp add: list_all_iff cw_route_def cw_node_def)
qed

text \<open>
  C20. When the coordinator considers the primary untouched and does not schedule any replication,
  then no node has committed anything.
\<close>

theorem untouched_means_uncommitted:
  assumes "registerTransaction mgr (Primary route) (Secondaries route) = (mgr1, Inr a)"
    and "length (Secondaries route) < 2 ^ 60" and "mgr_step\<^sup>*\<^sup>* mgr1 mgr2"
    and "getUpdatedAndOutdatedSecondaries route (sys_tx (heap mgr2 ! a)) errs = (False, updated, outdated)"
  shows "list_all (\<lambda>sub. getResult sub node \<noteq> Inr VoteCommitted) (subtransactions (sys_tx (heap mgr2 ! a)))"
proof -
  let ?t = "sys_tx (heap mgr2 ! a)"
  consider "subtransactions ?t = []"
    | sub where "subtransactions ?t = [sub]" "\<not> DidVote ?t (Storage (Primary route))"
    using assms(4) by (auto simp: getUpdatedAndOutdatedSecondaries_def Let_def CountSubtransactions_def
        length_Suc_conv split: if_splits prod.splits)
  then show ?thesis
  proof cases
    case (2 sub)
    have "getResult sub node \<noteq> Inr VoteCommitted"
    proof
      assume "getResult sub node = Inr VoteCommitted"
      from primary_agrees [OF assms(1-3) _ this] 2(1) obtain v where
        "getVote sub (Storage (Primary route)) = Inr (Some v)" by auto
      with 2 show False by (simp add: DidVote_def)
    qed
    with 2 show ?thesis by simp
  qed simp
qed

theorem untouched_means_uncommitted_witness:
  "getUpdatedAndOutdatedSecondaries cw_route (sys_tx (heap (cw_run [Enter ''b'' [1], Move 0 False, Move 0 False]) ! 0)) [(''a'', 7)]
     = (False, [], []) \<and>
   list_all (\<lambda>sub. getResult sub ''b'' \<noteq> Inr VoteCommitted)
     (subtransactions (sys_tx (heap (cw_run [Enter ''b'' [1], Move 0 False, Move 0 False]) ! 0)))"
proof -
  have un: "getUpdatedAndOutdatedSecondaries cw_route (sys_tx (heap (cw_run [Enter ''b'' [1], Move 0 False, Move 0 False]) ! 0))
      [(''a'', 7)] = (False, [], [])"
    by code_simp
  have "registerTransaction NewManager (Primary cw_route) (Secondaries cw_route) = (cw_mgr1, Inr 0)"
    by (simp add: cw_route_def cw_registered)
  from untouched_means_uncommitted [OF this _ cw_reachable un] un show ?thesis by (simp add: cw_route_def)
qed

end
