(* ===== verification/Postgres_Queue.thy ===== *)
theory Postgres_Queue
  imports Replication_Events
begin

text \<open>
  The replication queue in Postgres: \<open>internal/praefect/datastore/queue.go\<close>, on the tables of
  \<open>internal/praefect/datastore/migrations\<close>. A method runs one SQL statement and is one function on the
  three tables; \<open>NOW()\<close> is an argument, errors of the connection are left out.

  \<open>replication_queue\<close> lists its rows by identifier. Rows with equal \<open>created_at\<close>, whose order the
  queries leave open, are taken in this order. \<open>Acknowledge\<close> both deletes and updates an acknowledged
  row in one statement: \<open>deleted\<close> is read before \<open>updated\<close>, so the rows it deletes are gone when the
  update looks for them.
\<close>

section \<open>Tables\<close>

record pg_queue =
  pg_seq :: nat
  replication_queue :: "ReplicationEvent list"
  replication_queue_lock :: "(string, bool) gomap"
  replication_queue_job_lock :: "(nat \<times> string, int) gomap"

definition pg_empty :: pg_queue where
  "pg_empty = \<lparr>pg_seq = 0, replication_queue = [], replication_queue_lock = [], replication_queue_job_lock = []\<rparr>"

text \<open>
  The operator \<open>LIKE\<close>: \<open>%\<close> matches any text, \<open>_\<close> one character, and a backslash takes the next
  character literally.
\<close>

function like :: "string \<Rightarrow> string \<Rightarrow> bool" where
  "like [] t \<longleftrightarrow> t = []"
| "like (p # ps) t \<longleftrightarrow>
     (if p = CHR ''%'' then like ps t \<or> (if t = [] then False else like (p # ps) (tl t))
      else if t = [] then False
      else if p = CHR ''_'' then like ps (tl t)
      else if p = CHR 0x5C then (ps \<noteq> [] \<and> hd t = hd ps \<and> like (tl ps) (tl t))
      else hd t = p \<and> like ps (tl t))"
  by pat_completeness auto
termination
  by (relation "measure (\<lambda>(p, t). length p + length t)") (auto simp: less_Suc_eq_le neq_Nil_conv)

declare like.simps [simp del]

section \<open>Statements\<close>

definition active_delete :: "ReplicationJob \<Rightarrow> ReplicationEvent \<Rightarrow> bool" where
  "active_delete job e \<longleftrightarrow> Change (Job e) = DeleteReplica \<and>
     ev_State e \<notin> {JobStateCompleted, JobStateCancelled, JobStateDead} \<and>
     job_VirtualStorage (Job e) = job_VirtualStorage job \<and> RelativePath (Job e) = RelativePath job"

text \<open>The unique index \<open>delete_replica_unique_index\<close> allows one pending deletion per repository.\<close>

definition pg_Enqueue :: "int \<Rightarrow> ReplicationJob \<Rightarrow> pg_queue \<Rightarrow> pg_queue \<times> (enqueue_error + ReplicationEvent)" where
  "pg_Enqueue now job s =
     (if Change job = DeleteReplica \<and> list_ex (active_delete job) (replication_queue s) then (s, Inl UniqueViolation)
      else
        (let event = \<lparr>ev_ID = pg_seq s + 1, ev_State = JobStateReady, Attempt = 3, LockID = lock_id job,
                      CreatedAt = now, UpdatedAt = None, Job = job\<rparr>;
             locks = (if map_of (replication_queue_lock s) (lock_id job) = None
                      then replication_queue_lock s @ [(lock_id job, False)] else replication_queue_lock s)
         in (s\<lparr>pg_seq := pg_seq s + 1, replication_queue := replication_queue s @ [event],
               replication_queue_lock := locks\<rparr>, Inr event)))"

definition pg_start :: "int \<Rightarrow> ReplicationEvent \<Rightarrow> ReplicationEvent" where
  "pg_start now e = e\<lparr>Attempt := (if Change (Job e) = DeleteReplica then Attempt e else Attempt e - 1),
     ev_State := JobStateInProgress, UpdatedAt := Some now\<rparr>"

text \<open>The first row of its partition by lock and change.\<close>

definition first_of_partition :: "ReplicationEvent list \<Rightarrow> ReplicationEvent \<Rightarrow> bool" where
  "first_of_partition rows e \<longleftrightarrow> list_all (\<lambda>r. if LockID r = LockID e \<and> Change (Job r) = Change (Job e)
     then CreatedAt e < CreatedAt r \<or> CreatedAt e = CreatedAt r \<and> ev_ID e \<le> ev_ID r else True) rows"

definition dequeue_rows :: "string \<Rightarrow> string \<Rightarrow> pg_queue \<Rightarrow> ReplicationEvent list" where
  "dequeue_rows vs node s =
     filter (\<lambda>e. like (vs @ ''|'' @ node @ ''|%'') (LockID e) \<and>
         map_of (replication_queue_lock s) (LockID e) = Some False \<and>
         ev_State e \<in> {JobStateReady, JobStateFailed} \<and>
         \<not> list_ex (\<lambda>((job, lock), t). lock = LockID e) (replication_queue_job_lock s))
       (replication_queue s)"

definition dequeue_candidates :: "string \<Rightarrow> string \<Rightarrow> int \<Rightarrow> pg_queue \<Rightarrow> nat list" where
  "dequeue_candidates vs node limit s =
     (let rows = dequeue_rows vs node s
      in map ev_ID (take (nat limit) (sort_key CreatedAt (filter (first_of_partition rows) rows))))"

definition pg_Dequeue :: "int \<Rightarrow> string \<Rightarrow> string \<Rightarrow> int \<Rightarrow> pg_queue \<Rightarrow> pg_queue \<times> ReplicationEvent list" where
  "pg_Dequeue now vs node limit s =
     (let candidate = dequeue_candidates vs node limit s;
          queue = map (\<lambda>e. if ev_ID e \<in> set candidate then pg_start now e else e) (replication_queue s);
          job = filter (\<lambda>e. ev_ID e \<in> set candidate) queue
      in (s\<lparr>replication_queue := queue,
            replication_queue_lock := map (\<lambda>l. (fst l, snd l \<or> fst l \<in> set (map LockID job))) (replication_queue_lock s),
            replication_queue_job_lock := replication_queue_job_lock s @ map (\<lambda>e. ((ev_ID e, LockID e), now)) job\<rparr>,
          job))"

text \<open>
  Freeing the locks whose rows in \<open>replication_queue_job_lock\<close> were all removed: \<open>removed\<close> are the
  removed rows, \<open>rows\<close> all rows before the statement.
\<close>

definition release_locks ::
  "(nat \<times> string, int) gomap \<Rightarrow> (nat \<times> string, int) gomap \<Rightarrow> (string, bool) gomap \<Rightarrow> (string, bool) gomap" where
  "release_locks removed rows locks =
     (let amount = (\<lambda>l rs. length (filter (\<lambda>r. snd (fst r) = l) rs))
      in map (\<lambda>p. (fst p, if 0 < amount (fst p) removed \<and> amount (fst p) removed = amount (fst p) rows
                          then False else snd p)) locks)"

definition ack_deletes :: "JobState \<Rightarrow> ReplicationEvent list \<Rightarrow> ReplicationEvent \<Rightarrow> bool" where
  "ack_deletes st existing row \<longleftrightarrow> list_ex (\<lambda>x.
     st = JobStateDead \<and> ev_ID x = ev_ID row \<or>
     st = JobStateCompleted \<and> (ev_ID x = ev_ID row \<or>
       ev_State row = JobStateReady \<and> (case UpdatedAt x of None \<Rightarrow> False | Some t \<Rightarrow> CreatedAt row < t) \<and>
       LockID row = LockID x \<and> Change (Job row) = Change (Job x) \<and>
       SourceNodeStorage (Job row) = SourceNodeStorage (Job x))) existing"

definition pg_Acknowledge ::
  "int \<Rightarrow> JobState \<Rightarrow> nat list \<Rightarrow> pg_queue \<Rightarrow> pg_queue \<times> (ack_error + nat list)" where
  "pg_Acknowledge now st ids s =
     (if ids = [] then (s, Inr [])
      else if \<not> allowToAck st then (s, Inl EventStateNotSupported)
      else
        (let existing = filter (\<lambda>e. ev_ID e \<in> set ids \<and> ev_State e = JobStateInProgress) (replication_queue s);
             deleted = filter (ack_deletes st existing) (replication_queue s);
             kept = filter (\<lambda>e. \<not> ack_deletes st existing e) (replication_queue s);
             updates = (\<lambda>e. ev_ID e \<in> set (map ev_ID existing));
             to_release = map (\<lambda>e. (ev_ID e, LockID e)) (deleted @ filter updates kept);
             removed_job_lock = filter (\<lambda>r. fst r \<in> set to_release) (replication_queue_job_lock s)
         in (s\<lparr>replication_queue :=
                 map (\<lambda>e. if updates e then e\<lparr>ev_State := st, UpdatedAt := Some now\<rparr> else e) kept,
               replication_queue_lock :=
                 release_locks removed_job_lock (replication_queue_job_lock s) (replication_queue_lock s),
               replication_queue_job_lock :=
                 filter (\<lambda>r. fst r \<notin> set to_release) (replication_queue_job_lock s)\<rparr>,
             Inr (map ev_ID existing))))"

text \<open>One tick of \<open>StartHealthUpdate\<close>, with the number of rows it touched.\<close>

definition health_update :: "int \<Rightarrow> ReplicationEvent list \<Rightarrow> pg_queue \<Rightarrow> pg_queue \<times> nat" where
  "health_update now events s =
     (let pairs = map (\<lambda>e. (ev_ID e, LockID e)) events
      in (s\<lparr>replication_queue_job_lock := map (\<lambda>r. (fst r, if fst r \<in> set pairs then now else snd r))
               (replication_queue_job_lock s)\<rparr>,
          length (filter (\<lambda>r. fst r \<in> set pairs) (replication_queue_job_lock s))))"

definition AcknowledgeStale :: "int \<Rightarrow> int \<Rightarrow> pg_queue \<Rightarrow> pg_queue" where
  "AcknowledgeStale now staleAfter s =
     (let stale_job_lock = filter (\<lambda>r. snd r < now - staleAfter) (replication_queue_job_lock s);
          update = (\<lambda>e. ev_ID e \<in> set (map (fst \<circ> fst) stale_job_lock))
      in s\<lparr>replication_queue := map (\<lambda>e. if update e
              then e\<lparr>ev_State := (if 1 \<le> Attempt e then JobStateFailed else JobStateDead)\<rparr> else e) (replication_queue s),
           replication_queue_lock :=
             release_locks stale_job_lock (replication_queue_job_lock s) (replication_queue_lock s),
           replication_queue_job_lock :=
             filter (\<lambda>r. \<not> snd r < now - staleAfter) (replication_queue_job_lock s)\<rparr>)"

section \<open>Invariant\<close>

text \<open>
  Events in progress are exactly those with a row in \<open>replication_queue_job_lock\<close>, and a lock is
  acquired exactly when such a row holds it.
\<close>

definition in_progress :: "pg_queue \<Rightarrow> (nat \<times> string) set" where
  "in_progress s = (\<lambda>e. (ev_ID e, LockID e)) ` {e \<in> set (replication_queue s). ev_State e = JobStateInProgress}"

definition pg_inv :: "pg_queue \<Rightarrow> bool" where
  "pg_inv s \<longleftrightarrow> distinct (map ev_ID (replication_queue s)) \<and> gowf (replication_queue_lock s) \<and>
     gowf (replication_queue_job_lock s) \<and>
     list_all (\<lambda>e. ev_ID e \<le> pg_seq s \<and> map_of (replication_queue_lock s) (LockID e) \<noteq> None) (replication_queue s) \<and>
     fst ` set (replication_queue_job_lock s) = in_progress s \<and>
     (\<forall>l. map_of (replication_queue_lock s) l = Some True \<longleftrightarrow> l \<in> snd ` fst ` set (replication_queue_job_lock s))"

definition pg_lookup :: "pg_queue \<Rightarrow> nat \<Rightarrow> ReplicationEvent option" where
  "pg_lookup s i = map_of (by_id (replication_queue s)) i"

definition pg_used :: "pg_queue \<Rightarrow> nat set" where
  "pg_used s = {..pg_seq s}"

lemma in_progress_iff:
  "k \<in> in_progress s \<longleftrightarrow> (\<exists>e\<in>set (replication_queue s). ev_State e = JobStateInProgress \<and> k = (ev_ID e, LockID e))"
  by (auto simp: in_progress_def)

lemma pg_invD:
  assumes "pg_inv s"
  shows "fst ` set (replication_queue_job_lock s) = in_progress s"
    "map_of (replication_queue_lock s) l = Some True \<longleftrightarrow> (\<exists>r\<in>set (replication_queue_job_lock s). snd (fst r) = l)"
    "distinct (map ev_ID (replication_queue s))"
proof -
  show "fst ` set (replication_queue_job_lock s) = in_progress s" "distinct (map ev_ID (replication_queue s))"
    using assms unfolding pg_inv_def by blast+
  have "map_of (replication_queue_lock s) l = Some True \<longleftrightarrow> l \<in> snd ` fst ` set (replication_queue_job_lock s)"
    using assms unfolding pg_inv_def by blast
  then show "map_of (replication_queue_lock s) l = Some True \<longleftrightarrow> (\<exists>r\<in>set (replication_queue_job_lock s). snd (fst r) = l)"
    by (auto simp: image_image)
qed

lemma pg_initial: "pg_inv pg_empty"
  by (simp add: pg_inv_def pg_empty_def gowf_def in_progress_def)

lemma pg_lookup_iff:
  "pg_inv s \<Longrightarrow> pg_lookup s i = Some e \<longleftrightarrow> e \<in> set (replication_queue s) \<and> ev_ID e = i"
  using by_id_mem [of "replication_queue s" e] by_id_Some [of "replication_queue s" i e]
  by (auto simp: pg_lookup_def pg_inv_def)

lemma pg_start_simps [simp]:
  "ev_ID (pg_start now e) = ev_ID e" "Job (pg_start now e) = Job e" "ev_State (pg_start now e) = JobStateInProgress"
  "LockID (pg_start now e) = LockID e"
  by (simp_all add: pg_start_def)

lemma pg_enqueue_law:
  assumes inv: "pg_inv s" and enq: "pg_Enqueue now job s = (s', Inr e)"
  shows "pg_inv s' \<and> ev_ID e \<notin> pg_used s \<and> pg_used s' = insert (ev_ID e) (pg_used s) \<and>
    pg_lookup s' = (pg_lookup s)(ev_ID e \<mapsto> e) \<and> ev_State e = JobStateReady \<and> Attempt e = 3 \<and> Job e = job"
proof -
  have e: "ev_ID e = pg_seq s + 1" "ev_State e = JobStateReady" "Attempt e = 3" "Job e = job" "LockID e = lock_id job"
    and s': "replication_queue s' = replication_queue s @ [e]" "pg_seq s' = pg_seq s + 1"
      "replication_queue_job_lock s' = replication_queue_job_lock s"
      "replication_queue_lock s' = (if map_of (replication_queue_lock s) (lock_id job) = None
         then replication_queue_lock s @ [(lock_id job, False)] else replication_queue_lock s)"
    using enq by (auto simp: pg_Enqueue_def Let_def split: if_splits)
  have new: "ev_ID x \<noteq> pg_seq s + 1" "ev_ID x \<le> pg_seq s" if "x \<in> set (replication_queue s)" for x
    using inv that by (fastforce simp: pg_inv_def list_all_iff)+
  have locks: "map_of (replication_queue_lock s') l = (if map_of (replication_queue_lock s) l = None \<and> l = lock_id job
      then Some False else map_of (replication_queue_lock s) l)" for l
    by (auto simp: s' map_add_def split: option.split)
  have "gowf (replication_queue_lock s')"
    using inv by (auto simp: s' pg_inv_def gowf_def map_of_eq_None_iff)
  moreover have "in_progress s' = in_progress s" using e by (auto simp: in_progress_def s')
  moreover have "ev_ID e \<notin> ev_ID ` set (replication_queue s)" using new e(1) by (metis imageE)
  moreover have "list_all (\<lambda>x. ev_ID x \<le> pg_seq s' \<and> map_of (replication_queue_lock s') (LockID x) \<noteq> None) (replication_queue s')"
    using inv e by (force simp: pg_inv_def list_all_iff s'(1,2) locks)
  moreover have "map_of (replication_queue_lock s') l = Some True \<longleftrightarrow> map_of (replication_queue_lock s) l = Some True" for l
    by (auto simp: locks)
  ultimately have "pg_inv s'" using inv unfolding pg_inv_def s'(1,3) by simp
  moreover have "pg_lookup s' i = ((pg_lookup s)(ev_ID e \<mapsto> e)) i" for i
  proof (cases "i = ev_ID e")
    case True
    with new e have "map_of (by_id (replication_queue s)) i = None" by (force simp: by_id_None)
    with True show ?thesis by (simp add: pg_lookup_def s' map_add_def)
  qed (auto simp: pg_lookup_def s' map_add_def split: option.split)
  then have "pg_lookup s' = (pg_lookup s)(ev_ID e \<mapsto> e)" by blast
  ultimately show ?thesis using e s' by (auto simp: pg_used_def atMost_Suc)
qed

text \<open>What the rows that \<open>Dequeue\<close> selects are.\<close>

lemma dequeue_candidates_rows:
  assumes "i \<in> set (dequeue_candidates vs node limit s)"
  obtains e where "e \<in> set (replication_queue s)" "ev_ID e = i" "ev_State e \<in> {JobStateReady, JobStateFailed}"
    "map_of (replication_queue_lock s) (LockID e) = Some False" "like (vs @ ''|'' @ node @ ''|%'') (LockID e)"
proof -
  from assms obtain e where "e \<in> set (dequeue_rows vs node s)" "ev_ID e = i"
    by (auto simp: dequeue_candidates_def Let_def dest!: in_set_takeD)
  then show ?thesis by (intro that [of e]) (auto simp: dequeue_rows_def)
qed

lemma pg_dequeue_tables:
  assumes inv: "pg_inv s" and deq: "pg_Dequeue now vs node limit s = (s', es)"
  defines "c \<equiv> set (dequeue_candidates vs node limit s)"
  shows "replication_queue s' = map (\<lambda>e. if ev_ID e \<in> c then pg_start now e else e) (replication_queue s)"
    "es = map (pg_start now) (filter (\<lambda>e. ev_ID e \<in> c) (replication_queue s))"
    "replication_queue_job_lock s' = replication_queue_job_lock s @ map (\<lambda>e. ((ev_ID e, LockID e), now)) es"
    "replication_queue_lock s' = map (\<lambda>l. (fst l, snd l \<or> fst l \<in> set (map LockID es))) (replication_queue_lock s)"
    "pg_seq s' = pg_seq s"
    "\<And>e. e \<in> set (replication_queue s) \<Longrightarrow> ev_ID e \<in> c \<Longrightarrow>
      ev_State e \<in> {JobStateReady, JobStateFailed} \<and> map_of (replication_queue_lock s) (LockID e) = Some False"
proof -
  have start: "filter (\<lambda>e. ev_ID e \<in> c) (map (\<lambda>e. if ev_ID e \<in> c then pg_start now e else e) q) =
      map (pg_start now) (filter (\<lambda>e. ev_ID e \<in> c) q)" for q
    by (induction q) auto
  define job where "job = map (pg_start now) (filter (\<lambda>e. ev_ID e \<in> c) (replication_queue s))"
  have "pg_Dequeue now vs node limit s =
     (s\<lparr>replication_queue := map (\<lambda>e. if ev_ID e \<in> c then pg_start now e else e) (replication_queue s),
        replication_queue_lock := map (\<lambda>l. (fst l, snd l \<or> fst l \<in> set (map LockID job))) (replication_queue_lock s),
        replication_queue_job_lock := replication_queue_job_lock s @ map (\<lambda>e. ((ev_ID e, LockID e), now)) job\<rparr>, job)"
    unfolding job_def start [symmetric] by (simp only: pg_Dequeue_def Let_def c_def)
  with deq have es: "es = job" and s': "s' =
     s\<lparr>replication_queue := map (\<lambda>e. if ev_ID e \<in> c then pg_start now e else e) (replication_queue s),
        replication_queue_lock := map (\<lambda>l. (fst l, snd l \<or> fst l \<in> set (map LockID job))) (replication_queue_lock s),
        replication_queue_job_lock := replication_queue_job_lock s @ map (\<lambda>e. ((ev_ID e, LockID e), now)) job\<rparr>"
    by (simp_all only: prod.inject) (auto simp only:)
  show "es = map (pg_start now) (filter (\<lambda>e. ev_ID e \<in> c) (replication_queue s))" by (simp only: es job_def)
  show "replication_queue s' = map (\<lambda>e. if ev_ID e \<in> c then pg_start now e else e) (replication_queue s)"
    "replication_queue_job_lock s' = replication_queue_job_lock s @ map (\<lambda>e. ((ev_ID e, LockID e), now)) es"
    "replication_queue_lock s' = map (\<lambda>l. (fst l, snd l \<or> fst l \<in> set (map LockID es))) (replication_queue_lock s)"
    "pg_seq s' = pg_seq s"
    by (simp_all add: s' es)
  fix e
  assume e: "e \<in> set (replication_queue s)" "ev_ID e \<in> c"
  from e(2) obtain e0 where e0: "e0 \<in> set (replication_queue s)" "ev_ID e0 = ev_ID e"
    "ev_State e0 \<in> {JobStateReady, JobStateFailed}" "map_of (replication_queue_lock s) (LockID e0) = Some False"
    unfolding c_def by (rule dequeue_candidates_rows)
  have "e0 = e" using inv e0(1,2) e(1) by_id_unique by (auto simp: pg_inv_def)
  with e0 show "ev_State e \<in> {JobStateReady, JobStateFailed} \<and> map_of (replication_queue_lock s) (LockID e) = Some False"
    by simp
qed

lemma pg_dequeue_inv:
  assumes inv: "pg_inv s" and deq: "pg_Dequeue now vs node limit s = (s', es)"
  shows "pg_inv s'"
proof -
  define c where "c = set (dequeue_candidates vs node limit s)"
  note t = pg_dequeue_tables [OF inv deq, folded c_def]
  have ids: "map ev_ID (replication_queue s') = map ev_ID (replication_queue s)"
    "map LockID (replication_queue s') = map LockID (replication_queue s)" by (auto simp: t(1))
  have keys: "map fst (replication_queue_lock s') = map fst (replication_queue_lock s)" by (simp add: t(4) comp_def)
  have dist: "distinct (map ev_ID (replication_queue s))" using inv by (simp add: pg_inv_def)
  have jobs: "fst ` set (replication_queue_job_lock s') =
      in_progress s \<union> (\<lambda>e. (ev_ID e, LockID e)) ` {e \<in> set (replication_queue s). ev_ID e \<in> c}"
    using inv by (auto simp: t(2,3) pg_inv_def image_Un image_image)
  have prog: "in_progress s' = in_progress s \<union> (\<lambda>e. (ev_ID e, LockID e)) ` {e \<in> set (replication_queue s). ev_ID e \<in> c}"
  proof -
    let ?f = "\<lambda>e. if ev_ID e \<in> c then pg_start now e else e"
    have "{e \<in> set (replication_queue s'). ev_State e = JobStateInProgress} =
        ?f ` {e \<in> set (replication_queue s). ev_State e = JobStateInProgress \<or> ev_ID e \<in> c}"
      by (auto simp: t(1))
    moreover have "(ev_ID (?f e), LockID (?f e)) = (ev_ID e, LockID e)" for e by simp
    ultimately have "in_progress s' =
        (\<lambda>e. (ev_ID e, LockID e)) ` {e \<in> set (replication_queue s). ev_State e = JobStateInProgress \<or> ev_ID e \<in> c}"
      unfolding in_progress_def by (simp only: image_image)
    then show ?thesis by (auto simp: in_progress_def)
  qed
  have lock: "map_of (replication_queue_lock s') l = map_option (\<lambda>a. a \<or> l \<in> set (map LockID es)) (map_of (replication_queue_lock s) l)" for l
    unfolding t(4) by (subst map_of_map_entries) simp
  have es_lock: "map_of (replication_queue_lock s) (LockID e) \<noteq> None" if "e \<in> set es" for e
    using that t(6) by (auto simp: t(2))
  have "gowf (replication_queue_job_lock s')"
  proof -
    have "(ev_ID e, LockID e) \<notin> in_progress s" if "e \<in> set es" for e
    proof
      assume "(ev_ID e, LockID e) \<in> in_progress s"
      then obtain e1 where e1: "e1 \<in> set (replication_queue s)" "ev_ID e1 = ev_ID e" "ev_State e1 = JobStateInProgress"
        by (auto simp: in_progress_def)
      from that obtain e0 where "e0 \<in> set (replication_queue s)" "ev_ID e0 = ev_ID e" "ev_ID e0 \<in> c" by (auto simp: t(2))
      with t(6) [of e0] e1 by_id_unique [OF dist, of e0 e1] show False by auto
    qed
    moreover have "distinct (map (\<lambda>e. (ev_ID e, LockID e)) es)"
      using dist by (auto simp: t(2) distinct_map inj_on_def)
    ultimately show ?thesis using inv unfolding t(3) by (auto simp: pg_inv_def gowf_def comp_def)
  qed
  moreover have "map_of (replication_queue_lock s') l = Some True \<longleftrightarrow> l \<in> snd ` fst ` set (replication_queue_job_lock s')" for l
  proof -
    have "map_of (replication_queue_lock s') l = Some True \<longleftrightarrow>
        map_of (replication_queue_lock s) l = Some True \<or> l \<in> LockID ` set es"
      using es_lock by (cases "map_of (replication_queue_lock s) l") (fastforce simp: lock)+
    moreover have "map_of (replication_queue_lock s) l = Some True \<longleftrightarrow> l \<in> snd ` fst ` set (replication_queue_job_lock s)"
      using inv unfolding pg_inv_def by blast
    moreover have "snd ` fst ` set (replication_queue_job_lock s') =
        snd ` fst ` set (replication_queue_job_lock s) \<union> LockID ` set es"
      by (simp add: t(3) image_Un image_image)
    ultimately show ?thesis by simp
  qed
  moreover have "list_all (\<lambda>e. ev_ID e \<le> pg_seq s' \<and> map_of (replication_queue_lock s') (LockID e) \<noteq> None) (replication_queue s')"
    using inv by (auto simp: pg_inv_def list_all_iff t(1,5) lock)
  ultimately show ?thesis
    using inv ids keys jobs prog by (simp add: pg_inv_def gowf_def)
qed

lemma pg_dequeue_law:
  assumes inv: "pg_inv s" and deq: "pg_Dequeue now vs node limit s = (s', es)"
  shows "pg_inv s' \<and> pg_used s' = pg_used s \<and> distinct (map ev_ID es) \<and>
    (\<forall>i. pg_lookup s' i = (case map_of (by_id es) i of None \<Rightarrow> pg_lookup s i | Some e \<Rightarrow> Some e)) \<and>
    (\<forall>e\<in>set es. ev_State e = JobStateInProgress \<and> (\<exists>e0. pg_lookup s (ev_ID e) = Some e0 \<and>
       ev_State e0 \<in> {JobStateReady, JobStateFailed} \<and> Job e = Job e0))"
proof -
  define c where "c = set (dequeue_candidates vs node limit s)"
  note t = pg_dequeue_tables [OF inv deq, folded c_def]
  have dist: "distinct (map ev_ID (replication_queue s))" using inv by (simp add: pg_inv_def)
  have "pg_lookup s' i = (case map_of (by_id es) i of None \<Rightarrow> pg_lookup s i | Some e \<Rightarrow> Some e)" for i
  proof -
    have idf: "ev_ID (if ev_ID e \<in> c then pg_start now e else e) = ev_ID e" for e by simp
    have "pg_lookup s' i = map_option (\<lambda>e. if ev_ID e \<in> c then pg_start now e else e) (pg_lookup s i)"
      unfolding pg_lookup_def t(1) map_map comp_def idf by (rule map_of_map_same_key)
    moreover have "map_of (by_id es) i = (case pg_lookup s i of None \<Rightarrow> None
        | Some e \<Rightarrow> if ev_ID e \<in> c then Some (pg_start now e) else None)"
      unfolding t(2) map_map comp_def pg_start_simps
      by (subst map_of_map_same_key) (simp add: by_id_filter [OF dist] pg_lookup_def split: option.split)
    ultimately show ?thesis by (auto split: option.splits)
  qed
  moreover have "distinct (map ev_ID es)"
    using dist by (simp add: t(2) comp_def distinct_map_filter)
  moreover have "\<exists>e0. pg_lookup s (ev_ID e) = Some e0 \<and>
       ev_State e0 \<in> {JobStateReady, JobStateFailed} \<and> Job e = Job e0" if "e \<in> set es" for e
    using that t(6) by_id_mem [OF dist] by (auto simp: t(2) pg_lookup_def)
  moreover have "ev_State e = JobStateInProgress" if "e \<in> set es" for e using that by (auto simp: t(2))
  ultimately show ?thesis using pg_dequeue_inv [OF inv deq] by (simp add: pg_used_def t(5))
qed

subsection \<open>Releasing locks\<close>

lemma length_filter_eq: "length (filter P (filter Q xs)) = length (filter P xs) \<longleftrightarrow> (\<forall>x\<in>set xs. P x \<longrightarrow> Q x)"
proof (induction xs)
  case (Cons x xs)
  have "length (filter P (filter Q xs)) \<le> length (filter P xs)" by (induction xs) auto
  with Cons show ?case by auto
qed simp

lemma release_locks_keys: "map fst (release_locks removed rows locks) = map fst locks"
  by (simp add: release_locks_def Let_def comp_def)

lemma release_locks_lookup:
  "map_of (release_locks (filter Q rows) rows locks) l = map_option (\<lambda>a. a \<and>
     \<not> ((\<exists>r\<in>set rows. snd (fst r) = l) \<and> (\<forall>r\<in>set rows. snd (fst r) = l \<longrightarrow> Q r))) (map_of locks l)"
proof -
  let ?P = "\<lambda>r. snd (fst r) = l"
  have "0 < length (filter ?P (filter Q rows)) \<and> length (filter ?P (filter Q rows)) = length (filter ?P rows) \<longleftrightarrow>
      (\<exists>r\<in>set rows. ?P r) \<and> (\<forall>r\<in>set rows. ?P r \<longrightarrow> Q r)"
    unfolding length_filter_eq by (auto simp: filter_empty_conv)
  then show ?thesis
    unfolding release_locks_def Let_def map_of_map_entries
    by (cases "map_of locks l") (simp_all del: filter_filter)
qed

text \<open>Taking events \<open>K\<close> out of progress, with their rows and locks, keeps the invariant.\<close>

lemma finish_inv:
  assumes inv: "pg_inv s" and ids: "distinct (map ev_ID (replication_queue s'))" and seq: "pg_seq s' = pg_seq s"
    and sub: "\<And>e. e \<in> set (replication_queue s') \<Longrightarrow>
      \<exists>e0\<in>set (replication_queue s). ev_ID e0 = ev_ID e \<and> LockID e0 = LockID e"
    and prog: "in_progress s' = in_progress s - K"
    and jobs: "replication_queue_job_lock s' = filter (\<lambda>r. fst r \<notin> K) (replication_queue_job_lock s)"
    and locks: "replication_queue_lock s' = release_locks (filter (\<lambda>r. fst r \<in> K) (replication_queue_job_lock s))
      (replication_queue_job_lock s) (replication_queue_lock s)"
  shows "pg_inv s'"
proof -
  let ?rows = "replication_queue_job_lock s"
  have "gowf (replication_queue_lock s')" "gowf (replication_queue_job_lock s')"
    using inv by (simp_all add: pg_inv_def locks jobs gowf_def release_locks_keys distinct_map_filter)
  moreover have "fst ` set (replication_queue_job_lock s') = in_progress s'"
  proof -
    have "fst ` set (filter (\<lambda>r. fst r \<notin> K) ?rows) = fst ` set ?rows - K" by force
    then show ?thesis by (simp only: jobs prog pg_invD(1) [OF inv])
  qed
  moreover have "ev_ID e \<le> pg_seq s' \<and> map_of (replication_queue_lock s') (LockID e) \<noteq> None"
    if e: "e \<in> set (replication_queue s')" for e
  proof -
    from sub [OF e] obtain e0 where "e0 \<in> set (replication_queue s)" "ev_ID e0 = ev_ID e" "LockID e0 = LockID e" by blast
    with inv have "ev_ID e \<le> pg_seq s" "map_of (replication_queue_lock s) (LockID e) \<noteq> None"
      by (auto simp: pg_inv_def list_all_iff)
    then show ?thesis by (simp add: locks seq release_locks_lookup)
  qed
  moreover have "map_of (replication_queue_lock s') l = Some True \<longleftrightarrow> l \<in> snd ` fst ` set (replication_queue_job_lock s')" for l
  proof -
    have "l \<in> snd ` fst ` set (filter (\<lambda>r. fst r \<notin> K) ?rows) \<longleftrightarrow> (\<exists>r\<in>set ?rows. snd (fst r) = l \<and> fst r \<notin> K)"
      by (auto simp: image_image)
    with pg_invD(2) [OF inv, of l] show ?thesis unfolding locks release_locks_lookup jobs
      by (cases "map_of (replication_queue_lock s) l") auto
  qed
  ultimately show ?thesis using ids by (simp add: pg_inv_def list_all_iff)
qed

lemma pg_acknowledge_tables:
  assumes inv: "pg_inv s" and ack: "pg_Acknowledge now st ids s = (s', r)" and ok: "ids \<noteq> []" "allowToAck st"
  defines "existing \<equiv> filter (\<lambda>e. ev_ID e \<in> set ids \<and> ev_State e = JobStateInProgress) (replication_queue s)"
  shows "pg_inv s'" "pg_seq s' = pg_seq s" "r = Inr (map ev_ID existing)"
    "\<And>e'. e' \<in> set (replication_queue s') \<Longrightarrow> \<exists>e\<in>set (replication_queue s). \<not> ack_deletes st existing e \<and>
       e' = (if e \<in> set existing then e\<lparr>ev_State := st, UpdatedAt := Some now\<rparr> else e)"
proof -
  define upd where "upd e = (if ev_ID e \<in> set (map ev_ID existing) then e\<lparr>ev_State := st, UpdatedAt := Some now\<rparr> else e)"
    for e :: ReplicationEvent
  define kept where "kept = filter (\<lambda>e. \<not> ack_deletes st existing e) (replication_queue s)"
  define K where "K = (\<lambda>e. (ev_ID e, LockID e)) `
      {e \<in> set (replication_queue s). ack_deletes st existing e \<or> ev_ID e \<in> set (map ev_ID existing)}"
  have rel: "set (map (\<lambda>e. (ev_ID e, LockID e)) (filter (ack_deletes st existing) (replication_queue s) @
      filter (\<lambda>e. ev_ID e \<in> set (map ev_ID existing)) kept)) = K"
    by (auto simp: K_def kept_def)
  have ack': "pg_Acknowledge now st ids s = (s\<lparr>replication_queue := map upd kept,
      replication_queue_lock := release_locks (filter (\<lambda>r. fst r \<in> K) (replication_queue_job_lock s))
        (replication_queue_job_lock s) (replication_queue_lock s),
      replication_queue_job_lock := filter (\<lambda>r. fst r \<notin> K) (replication_queue_job_lock s)\<rparr>, Inr (map ev_ID existing))"
    unfolding rel [symmetric] kept_def upd_def existing_def using ok by (simp only: pg_Acknowledge_def Let_def if_False simp_thms)
  have s': "s' = s\<lparr>replication_queue := map upd kept,
      replication_queue_lock := release_locks (filter (\<lambda>r. fst r \<in> K) (replication_queue_job_lock s))
        (replication_queue_job_lock s) (replication_queue_lock s),
      replication_queue_job_lock := filter (\<lambda>r. fst r \<notin> K) (replication_queue_job_lock s)\<rparr>"
    and "r = Inr (map ev_ID existing)"
    using ack unfolding ack' by (simp_all only: prod.inject)
  then show "r = Inr (map ev_ID existing)" "pg_seq s' = pg_seq s" by simp_all
  have dist: "distinct (map ev_ID (replication_queue s))" by (rule pg_invD(3) [OF inv])
  have ex: "ev_ID e \<in> set (map ev_ID existing) \<longleftrightarrow> e \<in> set existing" if "e \<in> set (replication_queue s)" for e
    using that by_id_unique [OF dist] by (force simp: existing_def)
  have K: "(ev_ID e, LockID e) \<in> K \<longleftrightarrow> ack_deletes st existing e \<or> e \<in> set existing" if "e \<in> set (replication_queue s)" for e
    using that by_id_unique [OF dist] ex by (auto simp: K_def image_iff)
  have upd: "upd e = (if e \<in> set existing then e\<lparr>ev_State := st, UpdatedAt := Some now\<rparr> else e)"
    if "e \<in> set (replication_queue s)" for e
    using ex [OF that] by (simp add: upd_def)
  show rows: "\<exists>e\<in>set (replication_queue s). \<not> ack_deletes st existing e \<and>
       e' = (if e \<in> set existing then e\<lparr>ev_State := st, UpdatedAt := Some now\<rparr> else e)"
    if "e' \<in> set (replication_queue s')" for e'
    using that upd by (auto simp: s' kept_def)
  have st: "st \<noteq> JobStateInProgress" using ok by (auto simp: allowToAck_def)
  show "pg_inv s'"
  proof (rule finish_inv [OF inv])
    show "distinct (map ev_ID (replication_queue s'))"
    proof -
      have "map ev_ID (replication_queue s') = map ev_ID kept" by (simp add: s' upd_def)
      then show ?thesis using dist by (simp only: kept_def distinct_map_filter)
    qed
    show "\<exists>e0\<in>set (replication_queue s). ev_ID e0 = ev_ID e \<and> LockID e0 = LockID e"
      if "e \<in> set (replication_queue s')" for e
      using rows [OF that] by (auto split: if_splits)
    show "in_progress s' = in_progress s - K"
    proof (intro set_eqI)
      fix k
      have "k \<in> in_progress s' \<longleftrightarrow> (\<exists>e\<in>set (replication_queue s). ev_State e = JobStateInProgress \<and>
          \<not> ack_deletes st existing e \<and> e \<notin> set existing \<and> k = (ev_ID e, LockID e))"
        using st upd by (force simp: in_progress_def s' kept_def)
      also have "\<dots> \<longleftrightarrow> k \<in> in_progress s - K" using K by (auto simp: in_progress_def)
      finally show "k \<in> in_progress s' \<longleftrightarrow> k \<in> in_progress s - K" .
    qed
  qed (simp_all add: s')
qed

lemma pg_acknowledge_law:
  assumes inv: "pg_inv s" and ack: "pg_Acknowledge now st ids s = (s', r)"
  shows "pg_inv s' \<and> pg_used s' = pg_used s \<and>
      (\<forall>i. i \<in> set ids \<or> pg_lookup s' i \<in> {None, pg_lookup s i}) \<and>
      (\<forall>i e'. pg_lookup s' i = Some e' \<longrightarrow> (\<exists>e. pg_lookup s i = Some e \<and> Job e = Job e')) \<and>
      (\<forall>acked. r = Inr acked \<longrightarrow> set acked \<subseteq> set ids \<and>
         (\<forall>i\<in>set acked. (\<exists>e. pg_lookup s i = Some e \<and> ev_State e = JobStateInProgress) \<and>
            (st = JobStateCompleted \<longrightarrow> pg_lookup s' i = None)))"
proof (cases "ids \<noteq> [] \<and> allowToAck st")
  case False
  then have "s' = s" "r = Inr [] \<or> (\<exists>e. r = Inl e)" using ack by (auto simp: pg_Acknowledge_def split: if_splits)
  with inv show ?thesis by auto
next
  case True
  define existing where "existing = filter (\<lambda>e. ev_ID e \<in> set ids \<and> ev_State e = JobStateInProgress) (replication_queue s)"
  note t = pg_acknowledge_tables [OF inv ack conjunct1 [OF True] conjunct2 [OF True], folded existing_def]
  note look = pg_lookup_iff [OF inv] pg_lookup_iff [OF t(1)]
  have exist: "e \<in> set (replication_queue s) \<and> ev_ID e \<in> set ids \<and> ev_State e = JobStateInProgress" if "e \<in> set existing" for e
    using that by (simp add: existing_def)
  have job: "\<exists>e. pg_lookup s i = Some e \<and> Job e = Job e' \<and> (i \<notin> set ids \<longrightarrow> e = e')"
    if "pg_lookup s' i = Some e'" for i e'
  proof -
    from that have "e' \<in> set (replication_queue s')" "ev_ID e' = i" by (simp_all add: look)
    from t(4) [OF this(1)] obtain e where e: "e \<in> set (replication_queue s)"
      "e' = (if e \<in> set existing then e\<lparr>ev_State := st, UpdatedAt := Some now\<rparr> else e)" by blast
    then show ?thesis using \<open>ev_ID e' = i\<close> exist [of e] by (cases "e \<in> set existing") (auto simp: look)
  qed
  have "pg_lookup s' (ev_ID e) = None" if "e \<in> set existing" "st = JobStateCompleted" for e
  proof (rule ccontr)
    assume "pg_lookup s' (ev_ID e) \<noteq> None"
    then obtain e' where "e' \<in> set (replication_queue s')" "ev_ID e' = ev_ID e" by (auto simp: look)
    from t(4) [OF this(1)] obtain e0 where "\<not> ack_deletes st existing e0"
      "e' = (if e0 \<in> set existing then e0\<lparr>ev_State := st, UpdatedAt := Some now\<rparr> else e0)" by blast
    moreover from this(2) \<open>ev_ID e' = ev_ID e\<close> have "ev_ID e0 = ev_ID e" by (auto split: if_splits)
    ultimately show False using that by (auto simp: ack_deletes_def list_ex_iff)
  qed
  moreover have "i \<in> set ids \<or> pg_lookup s' i \<in> {None, pg_lookup s i}" for i
    using job [of i] by (cases "pg_lookup s' i") auto
  moreover have "\<exists>e. pg_lookup s i = Some e \<and> Job e = Job e'" if "pg_lookup s' i = Some e'" for i e'
    using job [OF that] by blast
  moreover have "\<exists>x. pg_lookup s (ev_ID e) = Some x \<and> ev_State x = JobStateInProgress" if "e \<in> set existing" for e
    using exist [OF that] by (auto simp: look)
  ultimately show ?thesis using t(1,2,3) exist by (auto simp: pg_used_def)
qed

interpretation postgres_queue: event_queue pg_inv pg_lookup pg_used pg_Enqueue pg_Dequeue pg_Acknowledge
proof
  show "i \<in> pg_used s" if "pg_inv s" "pg_lookup s i = Some e" for s i e
    using that pg_lookup_iff [OF that(1)] by (auto simp: pg_used_def pg_inv_def list_all_iff)
  show "s' = s" if "pg_Enqueue now job s = (s', Inl err)" for now job s s' err
    using that by (auto simp: pg_Enqueue_def Let_def split: if_splits)
qed (fact pg_enqueue_law pg_dequeue_law pg_acknowledge_law)+

lemma pg_health_inv:
  assumes inv: "pg_inv s"
  shows "pg_inv (fst (health_update now events s))"
proof -
  have "map fst (replication_queue_job_lock (fst (health_update now events s))) = map fst (replication_queue_job_lock s)"
    by (simp add: health_update_def Let_def comp_def)
  moreover from this have "fst ` set (replication_queue_job_lock (fst (health_update now events s))) =
      fst ` set (replication_queue_job_lock s)" by (metis list.set_map)
  moreover have "pg_seq (fst (health_update now events s)) = pg_seq s"
    "replication_queue (fst (health_update now events s)) = replication_queue s"
    "replication_queue_lock (fst (health_update now events s)) = replication_queue_lock s"
    by (simp_all add: health_update_def Let_def)
  ultimately show ?thesis using inv unfolding pg_inv_def gowf_def in_progress_def by (simp only: simp_thms)
qed

lemma pg_stale_inv:
  assumes inv: "pg_inv s"
  shows "pg_inv (AcknowledgeStale now staleAfter s)"
proof -
  define stale where "stale = filter (\<lambda>r. snd r < now - staleAfter) (replication_queue_job_lock s)"
  define K where "K = fst ` set stale"
  define upd where "upd e = (if ev_ID e \<in> set (map (fst \<circ> fst) stale)
      then e\<lparr>ev_State := (if 1 \<le> Attempt e then JobStateFailed else JobStateDead)\<rparr> else e)" for e :: ReplicationEvent
  let ?s = "AcknowledgeStale now staleAfter s"
  have gw: "gowf (replication_queue_job_lock s)" using inv by (simp add: pg_inv_def)
  have K: "fst r \<in> K \<longleftrightarrow> snd r < now - staleAfter" if "r \<in> set (replication_queue_job_lock s)" for r
    using that gw by (auto simp: K_def stale_def gowf_def distinct_map inj_on_def)
  then have split: "filter (\<lambda>r. snd r < now - staleAfter) (replication_queue_job_lock s) = filter (\<lambda>r. fst r \<in> K) (replication_queue_job_lock s)"
    "filter (\<lambda>r. \<not> snd r < now - staleAfter) (replication_queue_job_lock s) = filter (\<lambda>r. fst r \<notin> K) (replication_queue_job_lock s)"
    by (auto cong: filter_cong)
  have s': "replication_queue ?s = map upd (replication_queue s)" "pg_seq ?s = pg_seq s"
    by (simp_all add: AcknowledgeStale_def Let_def upd_def stale_def)
  have KP: "K \<subseteq> in_progress s" using pg_invD(1) [OF inv] by (auto simp: K_def stale_def)
  have dist: "distinct (map ev_ID (replication_queue s))" by (rule pg_invD(3) [OF inv])
  have in_stale: "ev_ID e \<in> set (map (fst \<circ> fst) stale) \<longleftrightarrow> (ev_ID e, LockID e) \<in> K" if e: "e \<in> set (replication_queue s)" for e
  proof
    assume "ev_ID e \<in> set (map (fst \<circ> fst) stale)"
    then obtain r where "r \<in> set stale" and id: "fst (fst r) = ev_ID e" by auto
    then have r: "fst r \<in> K" "fst (fst r) = ev_ID e" by (simp_all add: K_def)
    then obtain e1 where e1: "e1 \<in> set (replication_queue s)" "fst r = (ev_ID e1, LockID e1)"
      using KP by (auto simp: in_progress_def)
    have "e = e1" by (rule by_id_unique [OF dist e e1(1)]) (use r(2) e1(2) in simp)
    with r(1) e1(2) show "(ev_ID e, LockID e) \<in> K" by simp
  qed (force simp: K_def)
  show ?thesis
  proof (rule finish_inv [OF inv])
    show "distinct (map ev_ID (replication_queue ?s))"
    proof -
      have "map ev_ID (replication_queue ?s) = map ev_ID (replication_queue s)" by (simp add: s' upd_def)
      then show ?thesis using dist by simp
    qed
    show "\<exists>e0\<in>set (replication_queue s). ev_ID e0 = ev_ID e \<and> LockID e0 = LockID e" if "e \<in> set (replication_queue ?s)" for e
      using that by (auto simp: s' upd_def)
    show "in_progress ?s = in_progress s - K"
    proof (intro set_eqI)
      fix k
      have key: "ev_ID (upd e) = ev_ID e" "LockID (upd e) = LockID e" for e by (simp_all add: upd_def)
      have "ev_State (upd e) = JobStateInProgress \<longleftrightarrow> ev_State e = JobStateInProgress \<and> (ev_ID e, LockID e) \<notin> K"
        if "e \<in> set (replication_queue s)" for e
        unfolding upd_def in_stale [OF that] by simp
      then have "k \<in> in_progress ?s \<longleftrightarrow> (\<exists>e\<in>set (replication_queue s). ev_State e = JobStateInProgress \<and>
          (ev_ID e, LockID e) \<notin> K \<and> k = (ev_ID e, LockID e))"
        by (auto simp: in_progress_iff s' key)
      then show "k \<in> in_progress ?s \<longleftrightarrow> k \<in> in_progress s - K" by (auto simp: in_progress_def)
    qed
  qed (simp_all add: s' AcknowledgeStale_def Let_def split)
qed

end
