(* ===== verification/Postgres_Queue_Props.thy ===== *)
theory Postgres_Queue_Props
  imports Postgres_Queue
begin

text \<open>
  What the Postgres queue guarantees to the workers of all Praefect nodes: an event has one worker, a
  replica of a repository has one worker, and an event whose lock is free is found. Two examples
  show where the statement of \<open>Dequeue\<close> does not follow its description.
\<close>

section \<open>Runs\<close>

inductive pg_step :: "pg_queue \<Rightarrow> pg_queue \<Rightarrow> bool" where
  pg_enqueue: "pg_step s (fst (pg_Enqueue now job s))"
| pg_dequeue: "pg_step s (fst (pg_Dequeue now vs node limit s))"
| pg_acknowledge: "pg_step s (fst (pg_Acknowledge now st ids s))"
| pg_health: "pg_step s (fst (health_update now events s))"
| pg_stale: "pg_step s (AcknowledgeStale now staleAfter s)"

lemma pg_step_inv:
  assumes "pg_step s s'" "pg_inv s"
  shows "pg_inv s'"
  using assms
proof cases
  case (pg_enqueue now job)
  with postgres_queue.call_inv [OF assms(2), of "EnqueueCall now job"] show ?thesis by simp
next
  case (pg_dequeue now vs node limit)
  with postgres_queue.call_inv [OF assms(2), of "DequeueCall now vs node limit"] show ?thesis by simp
next
  case (pg_acknowledge now st ids)
  with postgres_queue.call_inv [OF assms(2), of "AcknowledgeCall now st ids"] show ?thesis by simp
qed (simp_all add: assms(2) pg_health_inv pg_stale_inv)

interpretation pg_run: step_invariant pg_step pg_inv
  by unfold_locales (rule pg_step_inv)

lemmas reachable_pg_inv = pg_run.run_inv [OF _ pg_initial]


definition pg_job :: "string \<Rightarrow> string \<Rightarrow> ReplicationJob" where
  "pg_job storage path = \<lparr>RepositoryID = 1, Change = UpdateRepo, RelativePath = path, TargetNodeStorage = storage,
     SourceNodeStorage = ''a'', job_VirtualStorage = ''v'', job_Params = None\<rparr>"

definition pg_s1 :: pg_queue where
  "pg_s1 = fst (pg_Enqueue 10 (pg_job ''b'' ''r'') pg_empty)"

lemma pg_s1_reachable: "pg_step\<^sup>*\<^sup>* pg_empty pg_s1"
  unfolding pg_s1_def by (rule r_into_rtranclp, rule pg_enqueue)

lemmas pg_eval = pg_empty_def pg_Enqueue_def pg_job_def lock_id_def Let_def

lemma pg_s1_eval: "pg_s1 = \<lparr>pg_seq = 1,
   replication_queue = [\<lparr>ev_ID = 1, ev_State = JobStateReady, Attempt = 3, LockID = ''v|b|r'', CreatedAt = 10,
     UpdatedAt = None, Job = pg_job ''b'' ''r''\<rparr>],
   replication_queue_lock = [(''v|b|r'', False)], replication_queue_job_lock = []\<rparr>"
  by (simp add: pg_s1_def pg_eval)

definition pg_e1 :: ReplicationEvent where
  "pg_e1 = \<lparr>ev_ID = 1, ev_State = JobStateInProgress, Attempt = 2, LockID = ''v|b|r'', CreatedAt = 10,
     UpdatedAt = Some 20, Job = pg_job ''b'' ''r''\<rparr>"

lemmas pg_dequeue_eval = pg_Dequeue_def dequeue_candidates_def dequeue_rows_def first_of_partition_def
  pg_start_def like.simps Let_def

lemma pg_s1_dequeue: "snd (pg_Dequeue 20 ''v'' ''b'' 5 pg_s1) = [pg_e1]"
  by (simp add: pg_s1_eval pg_dequeue_eval pg_e1_def) (simp add: pg_job_def)


text \<open>
  C16. Only one batch of work is out for a replica of a repository: when \<open>Dequeue\<close> hands out an event,
  no other event with the same lock, that is for the same virtual storage, target storage and
  repository, was in progress.
\<close>

theorem postgres_replica_exclusive:
  assumes "pg_step\<^sup>*\<^sup>* pg_empty s" and "pg_Dequeue now vs node n s = (s', es)" and "e \<in> set es"
    and "x \<in> set (replication_queue s)" and "LockID x = LockID e"
  shows "ev_State x \<noteq> JobStateInProgress"
proof
  have inv: "pg_inv s" by (rule reachable_pg_inv [OF assms(1)])
  assume "ev_State x = JobStateInProgress"
  with assms(4) have "(ev_ID x, LockID x) \<in> fst ` set (replication_queue_job_lock s)"
    unfolding pg_invD(1) [OF inv] by (auto simp: in_progress_iff)
  then have "map_of (replication_queue_lock s) (LockID x) = Some True"
    unfolding pg_invD(2) [OF inv] by force
  moreover have "map_of (replication_queue_lock s) (LockID e) = Some False"
    using pg_dequeue_tables(2,6) [OF inv assms(2)] assms(3) by auto
  ultimately show False using assms(5) by simp
qed

definition pg_s2 :: pg_queue where
  "pg_s2 = fst (pg_Enqueue 11 (pg_job ''b'' ''r'') pg_s1)"

lemma pg_s2_reachable: "pg_step\<^sup>*\<^sup>* pg_empty pg_s2"
  unfolding pg_s2_def using pg_s1_reachable pg_enqueue by (rule rtranclp.rtrancl_into_rtrancl)

theorem postgres_replica_exclusive_witness:
  "list_all (\<lambda>x. ev_State x \<noteq> JobStateInProgress) (replication_queue pg_s2) \<and>
   pg_e1 \<in> set (snd (pg_Dequeue 20 ''v'' ''b'' 5 pg_s2))"
proof -
  have s2: "replication_queue pg_s2 = replication_queue pg_s1 @ [\<lparr>ev_ID = 2, ev_State = JobStateReady, Attempt = 3,
      LockID = ''v|b|r'', CreatedAt = 11, UpdatedAt = None, Job = pg_job ''b'' ''r''\<rparr>]"
    "replication_queue_lock pg_s2 = [(''v|b|r'', False)]" "replication_queue_job_lock pg_s2 = []"
    by (simp_all add: pg_s2_def pg_s1_eval pg_eval)
  have mem: "pg_e1 \<in> set (snd (pg_Dequeue 20 ''v'' ''b'' 5 pg_s2))"
    by (simp add: pg_dequeue_eval s2 pg_s1_eval pg_e1_def) (simp add: pg_job_def)
  have "LockID x = LockID pg_e1" if "x \<in> set (replication_queue pg_s2)" for x
    using that by (auto simp: s2 pg_s1_eval pg_e1_def)
  with postgres_replica_exclusive [OF pg_s2_reachable prod.collapse [symmetric] mem] mem
  show ?thesis by (auto simp: list_all_iff)
qed

section \<open>Finding work\<close>

definition plain :: "string \<Rightarrow> bool" where
  "plain s \<longleftrightarrow> list_all (\<lambda>c. c \<noteq> CHR ''%'' \<and> c \<noteq> CHR ''_'' \<and> c \<noteq> CHR 0x5C) s"

lemma like_any: "like ''%'' t"
  by (induction t) (simp_all add: like.simps)

lemma like_plain: "plain p \<Longrightarrow> like (p @ q) (p @ t) = like q t"
  by (induction p) (auto simp: plain_def like.simps(2) split: if_splits)

lemma like_lock: 
  assumes "plain vs" "plain node"
  shows "like (vs @ ''|'' @ node @ ''|%'') (vs @ ''|'' @ node @ ''|'' @ path)"
proof -
  have "plain (vs @ ''|'' @ node @ ''|'')" using assms by (simp add: plain_def)
  from like_plain [OF this, of "''%''" path] show ?thesis by (simp add: like_any)
qed

lemma partition_has_first:
  assumes "e \<in> set rows"
  obtains x where "x \<in> set (filter (first_of_partition rows) rows)" "LockID x = LockID e" "Change (Job x) = Change (Job e)"
proof -
  define S where "S = {x \<in> set rows. LockID x = LockID e \<and> Change (Job x) = Change (Job e)}"
  define T where "T = {x \<in> S. CreatedAt x = Min (CreatedAt ` S)}"
  have S: "finite S" "S \<noteq> {}" using assms by (auto simp: S_def)
  then have "Min (CreatedAt ` S) \<in> CreatedAt ` S" by (intro Min_in) auto
  then have T: "finite T" "T \<noteq> {}" using S(1) by (auto simp: T_def)
  then have "Min (ev_ID ` T) \<in> ev_ID ` T" by (intro Min_in) auto
  then obtain x where x: "x \<in> T" "ev_ID x = Min (ev_ID ` T)" by auto
  have "CreatedAt x < CreatedAt r \<or> CreatedAt x = CreatedAt r \<and> ev_ID x \<le> ev_ID r"
    if r: "r \<in> set rows" "LockID r = LockID x" "Change (Job r) = Change (Job x)" for r
  proof -
    have rS: "r \<in> S" using r x(1) by (auto simp: S_def T_def)
    then have "Min (CreatedAt ` S) \<le> CreatedAt r" using S(1) by simp
    moreover have "CreatedAt x = Min (CreatedAt ` S)" using x(1) by (simp add: T_def)
    moreover have "ev_ID x \<le> ev_ID r" if "CreatedAt r = CreatedAt x"
      using that rS x T(1) by (simp add: T_def)
    ultimately show ?thesis by fastforce
  qed
  then show ?thesis
    using x(1) by (intro that [of x]) (auto simp: first_of_partition_def list_all_iff T_def S_def)
qed

text \<open>
  A job that was enqueued for a storage, whose lock is free, gives the next worker for that storage
  work on the same replica and of the same kind, if it asks for enough events. The names of the
  virtual storage and the storage must not contain the characters \<open>%\<close>, \<open>_\<close> and backslash.
\<close>

theorem postgres_enqueued_is_found:
  assumes "pg_step\<^sup>*\<^sup>* pg_empty s" and "pg_Enqueue now job s = (s1, Inr e)"
    and "plain (job_VirtualStorage job)" and "plain (TargetNodeStorage job)"
    and "map_of (replication_queue_lock s1) (LockID e) = Some False"
    and "int (length (replication_queue s1)) \<le> limit"
    and "pg_Dequeue later (job_VirtualStorage job) (TargetNodeStorage job) limit s1 = (s2, es)"
  shows "\<exists>x\<in>set es. LockID x = LockID e \<and> Change (Job x) = Change job"
proof -
  let ?vs = "job_VirtualStorage job" and ?node = "TargetNodeStorage job"
  have inv0: "pg_inv s" by (rule reachable_pg_inv [OF assms(1)])
  have inv: "pg_inv s1" using pg_enqueue_law [OF inv0 assms(2)] by blast
  have e: "e \<in> set (replication_queue s1)" "ev_State e = JobStateReady" "LockID e = lock_id job" "Job e = job"
    using assms(2) by (auto simp: pg_Enqueue_def Let_def split: if_splits)
  have "\<not> (\<exists>r\<in>set (replication_queue_job_lock s1). snd (fst r) = LockID e)"
    using pg_invD(2) [OF inv, of "LockID e"] assms(5) by simp
  then have "e \<in> set (dequeue_rows ?vs ?node s1)"
    using e assms(5) like_lock [OF assms(3,4), of "RelativePath job"]
    by (fastforce simp: dequeue_rows_def list_ex_iff lock_id_def)
  then obtain x where x: "x \<in> set (filter (first_of_partition (dequeue_rows ?vs ?node s1)) (dequeue_rows ?vs ?node s1))"
    "LockID x = LockID e" "Change (Job x) = Change (Job e)" by (rule partition_has_first)
  have "length (filter (first_of_partition (dequeue_rows ?vs ?node s1)) (dequeue_rows ?vs ?node s1)) \<le>
      length (replication_queue s1)"
    using length_filter_le [of "first_of_partition (dequeue_rows ?vs ?node s1)" "dequeue_rows ?vs ?node s1"]
      length_filter_le [of _ "replication_queue s1"] unfolding dequeue_rows_def by (rule order.trans)
  then have "ev_ID x \<in> set (dequeue_candidates ?vs ?node limit s1)"
    using x(1) assms(6) by (simp add: dequeue_candidates_def Let_def nat_le_iff)
  moreover have "x \<in> set (replication_queue s1)" using x(1) by (simp add: dequeue_rows_def)
  ultimately have "pg_start later x \<in> set es" using pg_dequeue_tables(2) [OF inv assms(7)] by auto
  then show ?thesis using x e(4) by (intro bexI [of _ "pg_start later x"]) simp_all
qed

theorem postgres_enqueued_is_found_witness:
  "\<exists>x\<in>set (snd (pg_Dequeue 20 ''v'' ''b'' 5 pg_s1)). LockID x = ''v|b|r'' \<and> Change (Job x) = UpdateRepo"
proof -
  have enq: "pg_Enqueue 10 (pg_job ''b'' ''r'') pg_empty = (pg_s1, Inr \<lparr>ev_ID = 1, ev_State = JobStateReady, Attempt = 3,
      LockID = ''v|b|r'', CreatedAt = 10, UpdatedAt = None, Job = pg_job ''b'' ''r''\<rparr>)"
    by (simp add: pg_s1_eval) (simp add: pg_eval)
  have job: "job_VirtualStorage (pg_job ''b'' ''r'') = ''v''" "TargetNodeStorage (pg_job ''b'' ''r'') = ''b''"
    "Change (pg_job ''b'' ''r'') = UpdateRepo" by (simp_all add: pg_job_def)
  from postgres_enqueued_is_found [OF rtranclp.rtrancl_refl enq, unfolded job, OF _ _ _ _ prod.collapse [symmetric], of 5 20]
  show ?thesis by (simp add: plain_def pg_s1_eval)
qed

section \<open>Two surprises\<close>

text \<open>
  The name of a storage is used as a pattern: a worker for the storage \<open>a_1\<close> is handed an event for
  the storage \<open>a-1\<close>.
\<close>

lemma dequeue_matches_other_storage:
  "map (\<lambda>e. TargetNodeStorage (Job e))
     (snd (pg_Dequeue 20 ''v'' ''a_1'' 5 (fst (pg_Enqueue 10 (pg_job ''a-1'' ''r'') pg_empty)))) = [''a-1'']"
  by (simp add: pg_eval pg_dequeue_eval)

text \<open>
  The number of attempts left is not looked at: an event that was acknowledged as failed three times
  is dequeued a fourth time.
\<close>

definition retry :: "int \<Rightarrow> pg_queue \<Rightarrow> pg_queue" where
  "retry t s = fst (pg_Acknowledge (t + 1) JobStateFailed [1] (fst (pg_Dequeue t ''v'' ''b'' 1 s)))"

lemma dequeue_without_attempts:
  "map Attempt (snd (pg_Dequeue 50 ''v'' ''b'' 1 (retry 40 (retry 30 (retry 20 pg_s1))))) = [- 1]"
  by code_simp

end
