(* ===== verification/Coordinator_Props.thy ===== *)
theory Coordinator_Props
  imports Coordinator_Transactions Repository_Store_Props Postgres_Queue_Props Nodes_Props
begin

text \<open>
  The coordinator together with the repository store and the Postgres queue: after a request no
  replica is left behind without a replication job, and a created repository is recorded with its
  replicas and assignments.
\<close>

section \<open>Enqueueing\<close>

context event_queue
begin

lemma enqueue_all_jobs:
  assumes "inv q" and "enqueue_all enqueue now reached job ss q = (q', None)"
  shows "inv q' \<and> (\<forall>i e. lookup q i = Some e \<longrightarrow> lookup q' i = Some e) \<and>
    (\<forall>s\<in>set ss. \<exists>i e. lookup q' i = Some e \<and> Job e = job s \<and> ev_State e = JobStateReady)"
  using assms
proof (induction ss arbitrary: q)
  case (Cons s ss)
  obtain q1 e where enq: "enqueue now (job s) q = (q1, Inr e)"
    and rest: "enqueue_all enqueue now reached job ss q1 = (q', None)"
    using Cons.prems(2) by (auto simp: Let_def split: prod.splits sum.splits if_splits option.splits)
  note law = enqueue_law [OF Cons.prems(1) enq]
  have keep: "lookup q1 i = Some x" if "lookup q i = Some x" for i x
    using law lookup_used [OF Cons.prems(1) that] that by auto
  have new: "lookup q1 (ev_ID e) = Some e" using law by simp
  from law have "inv q1" by simp
  from Cons.IH [OF this rest] keep new law show ?case by (metis set_ConsD)
qed simp

end

lemma pg_lookup_set: "pg_lookup q i = Some e \<Longrightarrow> e \<in> set (replication_queue q)"
  by (auto simp: pg_lookup_def dest!: map_of_SomeD)

lemma enqueue_all_postgres:
  assumes "pg_inv q" and "enqueue_all pg_Enqueue now reached job ss q = (q', None)"
  shows "list_all (\<lambda>s. list_ex (\<lambda>e. Job e = job s \<and> ev_State e = JobStateReady) (replication_queue q')) ss"
  using postgres_queue.enqueue_all_jobs [OF assms] by (fastforce simp: list_all_iff list_ex_iff dest: pg_lookup_set)

section \<open>Finalizers\<close>

lemma newRequestFinalizer_None:
  assumes "newRequestFinalizer now reached rid vs repo primary updated outdated change params c = (c', None)"
  obtains "record_change (conf c) rid vs (repo_RelativePath repo) primary updated outdated change params (rs c) = (rs c', None)"
    and "enqueue_all (queue_Enqueue c) now reached (replication_job rid vs (repo_RelativePath repo) primary change params)
      outdated (queue c) = (queue c', None)"
  using assms by (auto simp: newRequestFinalizer_def split: prod.splits option.splits)


definition cw_protos :: protos where
  "cw_protos = \<lparr>LookupMethod = (\<lambda>m. Inl (MethodNotFound m)), UnmarshalRequestProto = (\<lambda>mi b. Inl Malformed),
     Marshal = (\<lambda>m. Inr [])\<rparr>"

definition cw_coordinator :: "repo_db \<Rightarrow> pg_queue Coordinator" where
  "cw_coordinator db = \<lparr>router = PerRepository wit_router, txMgr = cw_run cw_votes, queue = pg_empty,
     queue_Enqueue = pg_Enqueue, rs = db, registry = cw_protos, conf = wit_config, forceCreateRepositories = False\<rparr>"

definition cw_repo :: Repository where
  "cw_repo = \<lparr>StorageName = ''vs'', repo_RelativePath = ''repo''\<rparr>"

definition cw_after :: "pg_queue Coordinator" where
  "cw_after = fst (createTransactionFinalizer 10 (\<lambda>s. True) [] 0 cw_route ''vs'' cw_repo UpdateRepo None
     (cw_coordinator wit_db1))"


section \<open>Creating repositories\<close>

lemma CreateRepository_created:
  assumes "store_inv db" and "\<not> RepositoryExists db vs path" and "no_replicas db vs path"
    and "CreateRepository db rid vs path primary updated outdated storePrimary storeAssignments = (db', e)"
  shows "e = None \<or> e = Some (RepositoryIDInUse rid)"
proof -
  have "map_of (storage_repositories db) (vs, path, s) = None" for s
    using assms(1,3) by (simp add: store_inv_def db_wf_def no_replicas_iff)
  moreover have "map_of (repository_assignments db) (vs, path, s) = None" for s
    using assms(1,2) by (cases "map_of (repository_assignments db) (vs, path, s)")
      (auto simp: store_inv_def assignments_exist_def list_all_iff dest!: map_of_SomeD)
  ultimately show ?thesis
    using assms(2,4) by (auto simp: CreateRepository_def Let_def RepositoryExists_def list_ex_iff split: if_splits)
qed

lemma CreateRepository_assigns:
  assumes "assignments_exist db" and "\<not> RepositoryExists db vs path"
    and "CreateRepository db rid vs path primary updated outdated storePrimary True = (db', None)"
  shows "set (assigned_storages db' vs path configured) = set (primary # updated @ outdated) \<inter> set configured"
proof -
  have "filter (\<lambda>((v, p, s), r). v = vs \<and> p = path \<and> s \<in> set configured) (repository_assignments db) = []"
    using assms(1,2) by (auto simp: assignments_exist_def list_all_iff filter_empty_conv)
  moreover have "repository_assignments db' = repository_assignments db @
      map (\<lambda>s. ((vs, path, s), Some rid)) (remdups (primary # updated @ outdated))"
    using assms(3) by (auto simp: CreateRepository_def Let_def split: if_splits)
  ultimately show ?thesis by (auto simp: assigned_storages_def filter_map comp_def)
qed

lemma CreateRepository_id:
  assumes "\<not> RepositoryExists db vs path"
    and "CreateRepository db rid vs path primary updated outdated storePrimary storeAssignments = (db', None)"
  shows "GetRepositoryID db' vs path = Inr rid"
  using assms by (auto simp: CreateRepository_def Let_def GetRepositoryID_def RepositoryExists_def map_add_def split: if_splits)

text \<open>
  A successful creation with repository specific primaries and a replication factor records the
  repository under the reserved identifier, with the primary and the updated secondaries as its
  consistent storages, and assigns the configured ones among the primary and all secondaries to it.
\<close>

theorem created_repository_is_recorded:
  assumes "store_step\<^sup>*\<^sup>* empty_db (rs c)" and "\<not> RepositoryExists (rs c) vs (repo_RelativePath repo)"
    and "no_replicas (rs c) vs (repo_RelativePath repo)"
    and "fo_ElectionStrategy (cfg_Failover (conf c)) = ElectionStrategyPerRepository"
    and "0 < getz (DefaultReplicationFactors (conf c)) vs"
    and "map_of storages vs = Some configured" and "primary \<in> set configured"
    and "newRequestFinalizer now reached rid vs repo primary updated outdated CreateRepo params c = (c', None)"
  shows "GetRepositoryID (rs c') vs (repo_RelativePath repo) = Inr rid \<and>
    (\<exists>consistent. GetConsistentStorages (rs c') vs (repo_RelativePath repo) = Inr consistent \<and>
       set consistent = set (primary # updated)) \<and>
    (\<exists>assigned. GetHostAssignments storages (rs c') vs (repo_RelativePath repo) = Inr assigned \<and>
       set assigned = set (primary # updated @ outdated) \<inter> set configured)"
proof -
  let ?path = "repo_RelativePath repo"
  note inv = reachable_store_inv [OF assms(1)]
  obtain db' e where cr: "CreateRepository (rs c) rid vs ?path primary updated outdated True True = (db', e)"
    by (metis prod.collapse)
  have rec: "record_change (conf c) rid vs ?path primary updated outdated CreateRepo params (rs c) = (rs c', None)"
    by (rule newRequestFinalizer_None [OF assms(8)])
  have ok: "CreateRepository (rs c) rid vs ?path primary updated outdated True True = (rs c', None)"
    using CreateRepository_created [OF inv assms(2,3) cr] rec cr assms(4,5) by (auto simp: record_change_def)
  note tab = CreateRepository_tables [OF ok]
  have none: "replica_gen (rs c) vs ?path s = None" for s
    using inv assms(3) by (simp add: store_inv_def db_wf_def no_replicas_iff replica_gen_def)
  have gen: "replica_gen (rs c') vs ?path s = (if s \<in> set (primary # updated) then Some 0 else None)" for s
    using tab(3) [of vs ?path s] none [of s] by simp
  have "gowf (storage_repositories (rs c'))"
    using CreateRepository_wf [OF _ ok] inv by (simp add: store_inv_def db_wf_def)
  then have "\<exists>cs. GetConsistentStorages (rs c') vs ?path = Inr cs \<and> set cs = {s. replica_gen (rs c') vs ?path s = Some 0}"
    by (rule consistent_storages [where ?s0.0 = primary])
      (use tab(1) gen in \<open>simp_all split: if_splits\<close>)
  then have "\<exists>cs. GetConsistentStorages (rs c') vs ?path = Inr cs \<and> set cs = set (primary # updated)"
    by (simp only: gen) auto
  moreover have as: "set (assigned_storages (rs c') vs ?path configured) = set (primary # updated @ outdated) \<inter> set configured"
    using CreateRepository_assigns [OF _ assms(2) ok] inv by (simp add: store_inv_def)
  moreover have "assigned_storages (rs c') vs ?path configured \<noteq> []" using as assms(7) by auto
  ultimately show ?thesis
    using CreateRepository_id [OF assms(2) ok] assms(6) by (auto simp: GetHostAssignments_def Let_def)
qed

definition cw_created :: "pg_queue Coordinator" where
  "cw_created = fst (newRequestFinalizer 10 (\<lambda>s. True) 1 ''v'' cw_repo ''a'' [''b''] [''c''] CreateRepo None
     (cw_coordinator empty_db))"

theorem created_repository_is_recorded_witness:
  "GetRepositoryID (rs cw_created) ''v'' ''repo'' = Inr 1 \<and>
   (\<exists>assigned. GetHostAssignments (StorageNames wit_config) (rs cw_created) ''v'' ''repo'' = Inr assigned \<and>
      set assigned = {''a'', ''b'', ''c''})"
proof -
  let ?c = "cw_coordinator empty_db"
  have "snd (newRequestFinalizer 10 (\<lambda>s. True) 1 ''v'' cw_repo ''a'' [''b''] [''c''] CreateRepo None ?c) = None"
    by code_simp
  then have fin: "newRequestFinalizer 10 (\<lambda>s. True) 1 ''v'' cw_repo ''a'' [''b''] [''c''] CreateRepo None ?c = (cw_created, None)"
    by (metis cw_created_def prod.collapse)
  have names: "map_of (StorageNames wit_config) ''v'' = Some [''a'', ''b'', ''c'']" by code_simp
  have rs: "rs ?c = empty_db" "conf ?c = wit_config" by (simp_all add: cw_coordinator_def)
  have "\<not> RepositoryExists empty_db ''v'' ''repo''" "no_replicas empty_db ''v'' ''repo''"
    "fo_ElectionStrategy (cfg_Failover wit_config) = ElectionStrategyPerRepository"
    "0 < getz (DefaultReplicationFactors wit_config) ''v''" by code_simp+
  with created_repository_is_recorded [OF _ _ _ _ _ names _ fin] rs show ?thesis
    by (simp add: cw_repo_def insert_commute)
qed

text \<open>
  With the node manager's router every creation has the identifier zero: once a repository is
  recorded under it, the finalizer of the next creation fails although the repository was created.
\<close>

lemma node_manager_creation_id:
  assumes "router c = NodeManager r" and "route_change c CreateRepo vs path = (c', Inr route)"
  shows "RepositoryMutatorRoute.RepositoryID route = 0 \<and> rs c' = rs c"
  using assms by (auto simp: route_change_def Router_RouteRepositoryCreation_def nm_RouteRepositoryCreation_def
      split: sum.splits)

lemma node_manager_second_creation_fails:
  assumes "router c = NodeManager r" and "route_change c CreateRepo vs path = (c1, Inr route)"
    and "map_of (repositories (rs c)) (vs', path') = Some row" and "rr_id row = 0"
  shows "\<exists>c2. newRequestFinalizer now reached (RepositoryMutatorRoute.RepositoryID route) vs repo primary updated outdated
    CreateRepo params c1 = (c2, Some (CWrap ''create repository'' (StoreErr (RepositoryIDInUse 0))))"
proof -
  note route = node_manager_creation_id [OF assms(1,2)]
  have "list_ex (\<lambda>(k, row). rr_id row = 0) (repositories (rs c))"
    using assms(3,4) by (force simp: list_ex_iff dest: map_of_SomeD)
  with route show ?thesis by (simp add: newRequestFinalizer_def record_change_def CreateRepository_def Let_def)
qed

end
