(* ===== verification/Replicator.thy ===== *)
theory Replicator
  imports Coordinator
begin

text \<open>
  The replication manager, \<open>internal/praefect/replicator.go\<close>: it takes replication events from the
  queue, has the target node of each event apply its change, records the result in the repository
  store and acknowledges the events.

  The RPCs of the Gitaly nodes are calls of the datatype \<open>gitaly_call\<close>, which the argument \<open>gitaly\<close>
  answers; every operation returns the database, the calls it made and its error. The health update
  that runs beside a batch only touches the time stamps of its locks. The loop of \<open>processBacklog\<close>
  has one iteration per element of a list: the healthy nodes, the answers of the nodes and the clock
  in that iteration; the context is done when the list ends. Metrics and logging are left out, except
  for the identifiers that \<open>handleNode\<close> reports as not acknowledged.
\<close>

section \<open>Calls of Gitaly nodes\<close>

datatype gitaly_call =
    ReplicateRepository Repository Repository
  | GetObjectPool Repository
  | LinkRepositoryToObjectPool Repository Repository
  | RemoveRepositoryCall Repository
  | RenameRepositoryCall Repository string
  | GarbageCollectCall Repository bool bool
  | RepackFullCall Repository bool
  | RepackIncrementalCall Repository
  | CleanupCall Repository
  | PackRefsCall Repository bool
  | WriteCommitGraphCall Repository int
  | MidxRepackCall Repository
  | OptimizeRepositoryCall Repository

datatype rpc_failure = ErrInvalidSourceRepository | RpcFailure nat

record gitaly =
  rpc :: "gitaly_call \<Rightarrow> rpc_failure option"
  object_pool :: "Repository \<Rightarrow> Repository option"

datatype repl_error =
    RpcErr rpc_failure
  | ReplStoreErr store_error
  | ParamErr param_error
  | UnknownChange ChangeType
  | NoSourceConnection string string

type_synonym repl_result = "repo_db \<times> gitaly_call list \<times> repl_error option"

definition target_repository :: "ReplicationJob \<Rightarrow> Repository" where
  "target_repository job = \<lparr>StorageName = TargetNodeStorage job, repo_RelativePath = RelativePath job\<rparr>"

definition source_repository :: "ReplicationJob \<Rightarrow> Repository" where
  "source_repository job = \<lparr>StorageName = SourceNodeStorage job, repo_RelativePath = RelativePath job\<rparr>"

text \<open>A single call without a trace in the database.\<close>

definition only_call :: "gitaly \<Rightarrow> gitaly_call \<Rightarrow> repo_db \<Rightarrow> repl_result" where
  "only_call g c db = (db, [c], map_option RpcErr (rpc g c))"

section \<open>The replicator\<close>

definition Replicate :: "gitaly \<Rightarrow> ReplicationJob \<Rightarrow> repo_db \<Rightarrow> repl_result" where
  "Replicate g job db =
     (let vs = job_VirtualStorage job; path = RelativePath job;
          source = source_repository job; target = target_repository job;
          replicate = ReplicateRepository source target; get = GetObjectPool source
      in case GetReplicatedGeneration db vs path (SourceNodeStorage job) (TargetNodeStorage job) of
           Inl (DowngradeAttemptedError v p s current attempted) \<Rightarrow> (db, [], None)
         | Inl err \<Rightarrow> (db, [], Some (ReplStoreErr err))
         | Inr generation \<Rightarrow>
             (let recorded = (if generation \<noteq> GenerationUnknown
                then SetGeneration db vs path (TargetNodeStorage job) generation else db)
              in case rpc g replicate of
                   Some ErrInvalidSourceRepository \<Rightarrow>
                     (DeleteInvalidRepository db vs path (SourceNodeStorage job), [replicate], None)
                 | Some err \<Rightarrow> (db, [replicate], Some (RpcErr err))
                 | None \<Rightarrow>
                     (case rpc g get of
                        Some err \<Rightarrow> (db, [replicate, get], Some (RpcErr err))
                      | None \<Rightarrow>
                          (case object_pool g source of
                             None \<Rightarrow> (recorded, [replicate, get], None)
                           | Some pool \<Rightarrow>
                               (let link = LinkRepositoryToObjectPool
                                      (pool\<lparr>StorageName := StorageName target\<rparr>) target
                                in case rpc g link of
                                     Some err \<Rightarrow> (db, [replicate, get, link], Some (RpcErr err))
                                   | None \<Rightarrow> (recorded, [replicate, get, link], None))))))"

definition Destroy :: "gitaly \<Rightarrow> ReplicationJob \<Rightarrow> repo_db \<Rightarrow> repl_result" where
  "Destroy g job db =
     (let vs = job_VirtualStorage job; path = RelativePath job; storage = TargetNodeStorage job;
          remove = RemoveRepositoryCall (target_repository job)
      in case rpc g remove of
           Some err \<Rightarrow> (db, [remove], Some (RpcErr err))
         | None \<Rightarrow>
             (if Change job \<notin> {DeleteRepo, ChangeType.DeleteReplica}
              then (db, [remove], Some (UnknownChange (Change job)))
              else
                (case (if Change job = DeleteRepo then DeleteRepository db vs path [storage]
                       else Repository_Store.DeleteReplica db vs path storage) of
                   (db, Some err) \<Rightarrow>
                     (db, [remove], if err = ErrNoRowsAffected then None else Some (ReplStoreErr err))
                 | (db, None) \<Rightarrow> (db, [remove], None))))"

definition Rename :: "gitaly \<Rightarrow> ReplicationJob \<Rightarrow> repo_db \<Rightarrow> repl_result" where
  "Rename g job db =
     (case Option.bind (job_Params job) (\<lambda>m. map_of m ''RelativePath'') of
        None \<Rightarrow> (db, [], Some (ParamErr KeyDoesNotExist))
      | Some (ParamString relativePath) \<Rightarrow>
          (let rename = RenameRepositoryCall (target_repository job) relativePath
           in case rpc g rename of
                Some err \<Rightarrow> (db, [rename], Some (RpcErr err))
              | None \<Rightarrow>
                  (case RenameRepository db (job_VirtualStorage job) (RelativePath job)
                          (TargetNodeStorage job) relativePath of
                     (db, Some (RepositoryNotExistsError v p s)) \<Rightarrow> (db, [rename], None)
                   | (db, Some err) \<Rightarrow> (db, [rename], Some (ReplStoreErr err))
                   | (db, None) \<Rightarrow> (db, [rename], None)))
      | Some _ \<Rightarrow> (db, [], Some (ParamErr UnexpectedType)))"

definition dr_GarbageCollect :: "gitaly \<Rightarrow> ReplicationJob \<Rightarrow> repo_db \<Rightarrow> repl_result" where
  "dr_GarbageCollect g job db =
     (case GetBool (job_Params job) ''CreateBitmap'' of
        Inl err \<Rightarrow> (db, [], Some (ParamErr err))
      | Inr createBitmap \<Rightarrow>
     (case GetBool (job_Params job) ''Prune'' of
        Inl err \<Rightarrow> (db, [], Some (ParamErr err))
      | Inr prune \<Rightarrow> only_call g (GarbageCollectCall (target_repository job) createBitmap prune) db))"

definition dr_RepackIncremental :: "gitaly \<Rightarrow> ReplicationJob \<Rightarrow> repo_db \<Rightarrow> repl_result" where
  "dr_RepackIncremental g job db = only_call g (RepackIncrementalCall (target_repository job)) db"

definition dr_Cleanup :: "gitaly \<Rightarrow> ReplicationJob \<Rightarrow> repo_db \<Rightarrow> repl_result" where
  "dr_Cleanup g job db = only_call g (CleanupCall (target_repository job)) db"

definition dr_PackRefs :: "gitaly \<Rightarrow> ReplicationJob \<Rightarrow> repo_db \<Rightarrow> repl_result" where
  "dr_PackRefs g job db =
     (case GetBool (job_Params job) ''AllRefs'' of
        Inl err \<Rightarrow> (db, [], Some (ParamErr err))
      | Inr allRefs \<Rightarrow> only_call g (PackRefsCall (target_repository job) allRefs) db)"

definition dr_WriteCommitGraph :: "gitaly \<Rightarrow> ReplicationJob \<Rightarrow> repo_db \<Rightarrow> repl_result" where
  "dr_WriteCommitGraph g job db =
     (case Option.bind (job_Params job) (\<lambda>m. map_of m ''SplitStrategy'') of
        None \<Rightarrow> (db, [], Some (ParamErr KeyDoesNotExist))
      | Some (ParamNumber splitStrategy) \<Rightarrow>
          only_call g (WriteCommitGraphCall (target_repository job) splitStrategy) db
      | Some _ \<Rightarrow> (db, [], Some (ParamErr UnexpectedType)))"

definition dr_MidxRepack :: "gitaly \<Rightarrow> ReplicationJob \<Rightarrow> repo_db \<Rightarrow> repl_result" where
  "dr_MidxRepack g job db = only_call g (MidxRepackCall (target_repository job)) db"

definition dr_OptimizeRepository :: "gitaly \<Rightarrow> ReplicationJob \<Rightarrow> repo_db \<Rightarrow> repl_result" where
  "dr_OptimizeRepository g job db = only_call g (OptimizeRepositoryCall (target_repository job)) db"

definition dr_RepackFull :: "gitaly \<Rightarrow> ReplicationJob \<Rightarrow> repo_db \<Rightarrow> repl_result" where
  "dr_RepackFull g job db =
     (case GetBool (job_Params job) ''CreateBitmap'' of
        Inl err \<Rightarrow> (db, [], Some (ParamErr err))
      | Inr createBitmap \<Rightarrow> only_call g (RepackFullCall (target_repository job) createBitmap) db)"

section \<open>The replication manager\<close>

record 'q ReplMgr =
  repl_Dequeue :: "int \<Rightarrow> string \<Rightarrow> string \<Rightarrow> int \<Rightarrow> 'q \<Rightarrow> 'q \<times> ReplicationEvent list"
  repl_Acknowledge :: "int \<Rightarrow> JobState \<Rightarrow> nat list \<Rightarrow> 'q \<Rightarrow> 'q \<times> (ack_error + nat list)"
  repl_nodes :: "(string, (string, conn) gomap) gomap"
  repl_virtualStorages :: "string list"
  dequeueBatchSize :: int

definition node_of :: "(string, (string, conn) gomap) gomap \<Rightarrow> string \<Rightarrow> string \<Rightarrow> conn option" where
  "node_of ns vs storage = Option.bind (map_of ns vs) (\<lambda>m. map_of m storage)"

definition processReplicationEvent ::
  "(string, (string, conn) gomap) gomap \<Rightarrow> gitaly \<Rightarrow> ReplicationEvent \<Rightarrow> repo_db \<Rightarrow> repl_result" where
  "processReplicationEvent ns g event db =
     (let job = Job event in
      case Change job of
        UpdateRepo \<Rightarrow>
          (if node_of ns (job_VirtualStorage job) (SourceNodeStorage job) = None
           then (db, [], Some (NoSourceConnection (job_VirtualStorage job) (SourceNodeStorage job)))
           else Replicate g job db)
      | DeleteRepo \<Rightarrow> Destroy g job db
      | ChangeType.DeleteReplica \<Rightarrow> Destroy g job db
      | RenameRepo \<Rightarrow> Rename g job db
      | GarbageCollect \<Rightarrow> dr_GarbageCollect g job db
      | RepackFull \<Rightarrow> dr_RepackFull g job db
      | RepackIncremental \<Rightarrow> dr_RepackIncremental g job db
      | Cleanup \<Rightarrow> dr_Cleanup g job db
      | PackRefs \<Rightarrow> dr_PackRefs g job db
      | WriteCommitGraph \<Rightarrow> dr_WriteCommitGraph g job db
      | MidxRepack \<Rightarrow> dr_MidxRepack g job db
      | OptimizeRepository \<Rightarrow> dr_OptimizeRepository g job db
      | CreateRepo \<Rightarrow> (db, [], Some (UnknownChange CreateRepo)))"

definition handleNodeEvent ::
  "(string, (string, conn) gomap) gomap \<Rightarrow> gitaly \<Rightarrow> ReplicationEvent \<Rightarrow> repo_db \<Rightarrow>
   repo_db \<times> gitaly_call list \<times> JobState" where
  "handleNodeEvent ns g event db =
     (case processReplicationEvent ns g event db of
        (db, calls, Some err) \<Rightarrow> (db, calls, if Attempt event \<le> 0 then JobStateDead else JobStateFailed)
      | (db, calls, None) \<Rightarrow> (db, calls, JobStateCompleted))"

definition subtractUint64 :: "nat list \<Rightarrow> nat list \<Rightarrow> nat list" where
  "subtractUint64 l r =
     (if l = [] then [] else if r = [] then l else filter (\<lambda>v. v \<notin> set r) l)"

text \<open>The loop over the events: their identifiers by the state they end in.\<close>

fun handle_events ::
  "(string, (string, conn) gomap) gomap \<Rightarrow> gitaly \<Rightarrow> ReplicationEvent list \<Rightarrow> repo_db \<Rightarrow>
   (JobState, nat list) gomap \<Rightarrow> repo_db \<times> (JobState, nat list) gomap" where
  "handle_events ns g [] db eventIDsByState = (db, eventIDsByState)"
| "handle_events ns g (event # events) db eventIDsByState =
     (case handleNodeEvent ns g event db of
        (db, calls, state) \<Rightarrow>
          handle_events ns g events db (AList.update state
            ((case map_of eventIDsByState state of None \<Rightarrow> [] | Some ids \<Rightarrow> ids) @ [ev_ID event]) eventIDsByState))"

text \<open>The loop over the states: the queue, and the identifiers that are reported as not acknowledged.\<close>

fun acknowledge_all ::
  "(int \<Rightarrow> JobState \<Rightarrow> nat list \<Rightarrow> 'q \<Rightarrow> 'q \<times> (ack_error + nat list)) \<Rightarrow> int \<Rightarrow> (JobState, nat list) gomap \<Rightarrow>
   'q \<Rightarrow> 'q \<times> nat list" where
  "acknowledge_all ack now [] q = (q, [])"
| "acknowledge_all ack now ((state, eventIDs) # rest) q =
     (case ack now state eventIDs q of
        (q, Inl err) \<Rightarrow> acknowledge_all ack now rest q
      | (q, Inr ackIDs) \<Rightarrow>
          (let (q, reported) = acknowledge_all ack now rest q in (q, subtractUint64 ackIDs eventIDs @ reported)))"

text \<open>\<open>order\<close> is the order in which Go iterates over the map.\<close>

definition handleNode ::
  "'q ReplMgr \<Rightarrow> int \<Rightarrow> gitaly \<Rightarrow> ((JobState, nat list) gomap \<Rightarrow> (JobState, nat list) gomap) \<Rightarrow>
   string \<Rightarrow> string \<Rightarrow> repo_db \<times> 'q \<Rightarrow> (repo_db \<times> 'q) \<times> nat \<times> nat list" where
  "handleNode r now g order virtualStorage storage st =
     (case st of (db, q) \<Rightarrow>
     (case repl_Dequeue r now virtualStorage storage (dequeueBatchSize r) q of
        (q, events) \<Rightarrow>
          (if events = [] then ((db, q), 0, [])
           else
             (case handle_events (repl_nodes r) g events db [] of
                (db, eventIDsByState) \<Rightarrow>
             (case acknowledge_all (repl_Acknowledge r) now (order eventIDsByState) q of
                (q, reported) \<Rightarrow> ((db, q), length events, reported))))))"

section \<open>Backoff\<close>

type_synonym duration = "64 word"

text \<open>The two functions of \<open>ExpBackoffFunc\<close> on the captured \<open>duration\<close>.\<close>

definition backoff :: "duration \<Rightarrow> duration \<Rightarrow> duration \<times> duration" where
  "backoff maximum d =
     (d, let doubled = d * 2 in if sint maximum \<le> sint doubled then maximum else doubled)"

definition backoff_reset :: "duration \<Rightarrow> duration" where
  "backoff_reset start = start"

section \<open>Processing the backlog\<close>

record iteration =
  it_now :: int
  it_healthy :: "string list"
  it_gitaly :: gitaly
  it_order :: "(JobState, nat list) gomap \<Rightarrow> (JobState, nat list) gomap"

fun backlog_nodes ::
  "'q ReplMgr \<Rightarrow> iteration \<Rightarrow> string \<Rightarrow> string list \<Rightarrow> repo_db \<times> 'q \<Rightarrow> (repo_db \<times> 'q) \<times> nat" where
  "backlog_nodes r it virtualStorage [] st = (st, 0)"
| "backlog_nodes r it virtualStorage (storage # rest) st =
     (if node_of (repl_nodes r) virtualStorage storage = None then backlog_nodes r it virtualStorage rest st
      else
        (case handleNode r (it_now it) (it_gitaly it) (it_order it) virtualStorage storage st of
           (st, n, reported) \<Rightarrow>
             (case backlog_nodes r it virtualStorage rest st of (st, m) \<Rightarrow> (st, n + m))))"

text \<open>The durations that the loop waits for are collected.\<close>

fun processBacklog ::
  "'q ReplMgr \<Rightarrow> duration \<Rightarrow> duration \<Rightarrow> string \<Rightarrow> iteration list \<Rightarrow> duration \<Rightarrow> repo_db \<times> 'q \<Rightarrow>
   (repo_db \<times> 'q) \<times> duration list" where
  "processBacklog r start maximum virtualStorage [] d st = (st, [])"
| "processBacklog r start maximum virtualStorage (it # its) d st =
     (case backlog_nodes r it virtualStorage (it_healthy it) st of
        (st, totalEvents) \<Rightarrow>
          (if totalEvents = 0 then
             (case backoff maximum d of (wait, d) \<Rightarrow>
               (case processBacklog r start maximum virtualStorage its d st of (st, waits) \<Rightarrow> (st, wait # waits)))
           else processBacklog r start maximum virtualStorage its (backoff_reset start) st))"

end
