(* ===== verification/Replicator_Props.thy ===== *)
theory Replicator_Props
  imports Replicator Repository_Store_Props Postgres_Queue_Props
begin

text \<open>
  What the replication manager achieves together with the repository store and the Postgres queue:
  a replicated target is consistent, a batch is settled completely, an event is tried at most three
  times, and the time between two looks at an empty queue doubles up to a maximum.
\<close>

section \<open>Replicating\<close>

lemma consistent_set:
  assumes "store_inv db" and "GetConsistentStorages db vs path = Inr old"
    and "repo_gen db vs path = Some g" and "replica_gen db vs path s = Some g"
  shows "set old = {s. replica_gen db vs path s = Some g}"
  using consistent_at_generation [OF assms(1,3,4)] assms(2) by auto

lemma Replicate_None:
  assumes "Replicate g job db = (db', calls, None)"
    and "rpc g (ReplicateRepository (source_repository job) (target_repository job)) = None"
  obtains (skipped) v p s cur att where
      "GetReplicatedGeneration db (job_VirtualStorage job) (RelativePath job) (SourceNodeStorage job) (TargetNodeStorage job)
        = Inl (DowngradeAttemptedError v p s cur att)" "db' = db" "calls = []"
  | (applied) n where
      "GetReplicatedGeneration db (job_VirtualStorage job) (RelativePath job) (SourceNodeStorage job) (TargetNodeStorage job) = Inr n"
      "db' = (if n \<noteq> GenerationUnknown
        then SetGeneration db (job_VirtualStorage job) (RelativePath job) (TargetNodeStorage job) n else db)"
  using assms by (auto simp: Replicate_def Let_def split: sum.splits store_error.splits option.splits)

text \<open>
  When a replication job from a consistent storage succeeds, the target joins the consistent
  storages and no other storage leaves them; a target that is not behind is left alone.
\<close>

theorem replication_catches_up:
  assumes "store_step\<^sup>*\<^sup>* empty_db db" and "SourceNodeStorage job \<noteq> TargetNodeStorage job"
    and "GetConsistentStorages db (job_VirtualStorage job) (RelativePath job) = Inr old"
    and "SourceNodeStorage job \<in> set old"
    and "map_of (repositories db) (job_VirtualStorage job, RelativePath job) = Some repo"
    and "rr_generation repo = Some (GetGeneration db (job_VirtualStorage job) (RelativePath job) (SourceNodeStorage job))"
    and "GetGeneration db (job_VirtualStorage job) (RelativePath job) (SourceNodeStorage job) \<noteq> GenerationUnknown"
    and "rpc g (ReplicateRepository (source_repository job) (target_repository job)) = None"
    and "Replicate g job db = (db', calls, None)"
  shows "\<exists>new. GetConsistentStorages db' (job_VirtualStorage job) (RelativePath job) = Inr new \<and>
    set new = insert (TargetNodeStorage job) (set old)"
  using assms(9,8)
proof (cases rule: Replicate_None)
  case (skipped v p s cur att)
  let ?vs = "job_VirtualStorage job" and ?path = "RelativePath job"
  let ?g = "GetGeneration db ?vs ?path (SourceNodeStorage job)" and ?t = "GetGeneration db ?vs ?path (TargetNodeStorage job)"
  have le: "?t \<noteq> GenerationUnknown" "?g \<le> ?t"
    using skipped(1) assms(2) by (auto simp: GetReplicatedGeneration_def Let_def split: if_splits)
  have inv: "store_inv db" by (rule reachable_store_inv [OF assms(1)])
  have repo: "repo_gen db ?vs ?path = Some ?g" using assms(5,6) by (simp add: repo_gen_def)
  have gen: "replica_gen db ?vs ?path s = Some (GetGeneration db ?vs ?path s)"
    if "GetGeneration db ?vs ?path s \<noteq> GenerationUnknown" for s
    using that by (auto simp: GetGeneration_def replica_gen_def split: option.splits)
  have "replicas_bounded db" using inv by (simp add: store_inv_def)
  from this repo_gen_exists [OF repo] obtain h where "bounded_at db ?vs ?path h" by (rule replicas_boundedE)
  with repo gen [OF le(1)] have "?t \<le> ?g" by (simp add: bounded_at_def)
  with le gen [OF le(1)] have "replica_gen db ?vs ?path (TargetNodeStorage job) = Some ?g" by simp
  with consistent_set [OF inv assms(3) repo gen [OF assms(7)]] assms(3) skipped(2) show ?thesis
    by (auto simp: insert_absorb)
next
  case (applied n)
  have "n = GetGeneration db (job_VirtualStorage job) (RelativePath job) (SourceNodeStorage job)"
    using applied(1) by (auto simp: GetReplicatedGeneration_def Let_def split: if_splits)
  with replication_adds_target [OF assms(1-6) applied(1)] applied(2) assms(7) show ?thesis by simp
qed

section \<open>Settling a batch\<close>

definition busy :: "pg_queue \<Rightarrow> nat list" where
  "busy q = map ev_ID (filter (\<lambda>e. ev_State e = JobStateInProgress) (replication_queue q))"

lemma acknowledge_busy:
  assumes "pg_inv q" and "allowToAck st" and "pg_Acknowledge now st ids q = (q', r)"
  shows "pg_inv q' \<and> set (busy q') \<subseteq> set (busy q) - set ids \<and> (\<exists>acked. r = Inr acked \<and> set acked \<subseteq> set ids)"
proof (cases "ids = []")
  case False
  note tab = pg_acknowledge_tables [OF assms(1,3) False assms(2)]
  have "i \<in> set (busy q) - set ids" if i: "i \<in> set (busy q')" for i
  proof -
    obtain e' where e': "e' \<in> set (replication_queue q')" "ev_State e' = JobStateInProgress" "ev_ID e' = i"
      using i by (auto simp: busy_def)
    from tab(4) [OF e'(1)] obtain e where e: "e \<in> set (replication_queue q)"
      "e' = (if e \<in> set (filter (\<lambda>e. ev_ID e \<in> set ids \<and> ev_State e = JobStateInProgress) (replication_queue q))
        then e\<lparr>ev_State := st, UpdatedAt := Some now\<rparr> else e)" by blast
    have "st \<noteq> JobStateInProgress" using assms(2) by (auto simp: allowToAck_def)
    with e e' show ?thesis by (auto simp: busy_def split: if_splits)
  qed
  with tab(1,3) show ?thesis by auto
qed (use assms in \<open>simp add: pg_Acknowledge_def\<close>)

lemma subtract_subset: "set l \<subseteq> set r \<Longrightarrow> subtractUint64 l r = []"
  by (auto simp: subtractUint64_def filter_empty_conv)

lemma acknowledge_all_busy:
  assumes "pg_inv q" and "list_all (\<lambda>(st, ids). allowToAck st) groups"
    and "acknowledge_all pg_Acknowledge now groups q = (q', reported)"
  shows "pg_inv q' \<and> set (busy q') \<subseteq> set (busy q) - (\<Union>(st, ids)\<in>set groups. set ids) \<and> reported = []"
  using assms
proof (induction groups arbitrary: q reported)
  case (Cons p groups)
  obtain st ids where p: "p = (st, ids)" by (cases p)
  obtain q1 r where ack: "pg_Acknowledge now st ids q = (q1, r)" by (metis prod.collapse)
  have ok: "allowToAck st" using Cons.prems(2) p by simp
  from acknowledge_busy [OF Cons.prems(1) ok ack] obtain acked where
    a: "pg_inv q1" "set (busy q1) \<subseteq> set (busy q) - set ids" "r = Inr acked" "set acked \<subseteq> set ids" by blast
  obtain q2 rep where rest: "acknowledge_all pg_Acknowledge now groups q1 = (q2, rep)" by (metis prod.collapse)
  have "acknowledge_all pg_Acknowledge now groups q1 = (q', reported)"
    using Cons.prems(3) p ack a(3) rest subtract_subset [OF a(4)] by auto
  from Cons.IH [OF a(1) _ this] Cons.prems(2) a(2) p show ?case by auto
qed simp

lemma set_update_gowf:
  assumes "gowf m"
  shows "set (AList.update k v m) = insert (k, v) {p \<in> set m. fst p \<noteq> k}"
proof -
  have mem: "p \<in> set m' \<longleftrightarrow> map_of m' (fst p) = Some (snd p)" if "gowf m'" for p and m' :: "('a \<times> 'b) list"
    using that by (cases p) (auto dest: map_of_SomeD intro: gowf_lookup)
  show ?thesis
    using assms by (intro set_eqI) (simp add: mem [OF gowf_update [OF assms]] mem [OF assms] prod_eq_iff, blast)
qed

lemma handle_events_groups:
  assumes "handle_events ns g events db groups = (db', groups')" and "gowf groups"
    and "list_all (\<lambda>(st, ids). allowToAck st) groups"
  shows "(\<Union>p\<in>set groups'. set (snd p)) = (\<Union>p\<in>set groups. set (snd p)) \<union> set (map ev_ID events) \<and>
    list_all (\<lambda>(st, ids). allowToAck st) groups'"
  using assms
proof (induction events arbitrary: db groups)
  case (Cons event events)
  obtain db1 calls st where ev: "handleNodeEvent ns g event db = (db1, calls, st)" by (metis prod_cases3)
  define ids where "ids = (case map_of groups st of None \<Rightarrow> [] | Some ids \<Rightarrow> ids)"
  let ?groups = "AList.update st (ids @ [ev_ID event]) groups"
  note upd = set_update_gowf [OF Cons.prems(2), of st "ids @ [ev_ID event]"]
  have st: "allowToAck st"
    using ev by (auto simp: handleNodeEvent_def allowToAck_def split: prod.splits option.splits if_splits)
  then have ok: "list_all (\<lambda>(st, ids). allowToAck st) ?groups"
    using Cons.prems(3) by (simp add: list_all_iff upd)
  have same: "snd p = ids" if "p \<in> set groups" "fst p = st" for p
    using gowf_lookup [OF Cons.prems(2), of "fst p" "snd p"] that by (cases p) (simp add: ids_def)
  have ids: "set ids \<subseteq> (\<Union>p\<in>set groups. set (snd p))"
    by (cases "map_of groups st") (force simp: ids_def dest: map_of_SomeD)+
  have "(\<Union>p\<in>set ?groups. set (snd p)) = set (ids @ [ev_ID event]) \<union> (\<Union>p\<in>{p \<in> set groups. fst p \<noteq> st}. set (snd p))"
    by (simp add: upd)
  also have "\<dots> = (\<Union>p\<in>set groups. set (snd p)) \<union> {ev_ID event}" using same ids by fastforce
  finally have un: "(\<Union>p\<in>set ?groups. set (snd p)) = (\<Union>p\<in>set groups. set (snd p)) \<union> {ev_ID event}" .
  have "handle_events ns g events db1 ?groups = (db', groups')"
    using Cons.prems(1) ev by (simp add: ids_def)
  from Cons.IH [OF this gowf_update [OF Cons.prems(2)] ok] un show ?case by simp
qed simp

lemma handleNode_settles:
  assumes "pg_inv q" and "repl_Dequeue r = pg_Dequeue" and "repl_Acknowledge r = pg_Acknowledge"
    and "\<And>m. set (order m) = set m"
    and "handleNode r now g order vs storage (db, q) = ((db', q'), n, reported)"
  shows "set (busy q') \<subseteq> set (busy q) \<and> reported = []"
proof -
  obtain q1 events where deq: "pg_Dequeue now vs storage (dequeueBatchSize r) q = (q1, events)" by (metis prod.collapse)
  note tab = pg_dequeue_tables [OF assms(1) deq]
  have inv1: "pg_inv q1" by (rule pg_dequeue_inv [OF assms(1) deq])
  have busy: "set (busy q1) \<subseteq> set (busy q) \<union> set (map ev_ID events)"
    by (auto simp: busy_def tab(1,2))
  show ?thesis
  proof (cases "events = []")
    case True
    with assms(2,5) deq busy show ?thesis by (simp add: handleNode_def)
  next
    case False
    obtain groups where he: "handle_events (repl_nodes r) g events db [] = (db', groups)"
      and ack: "acknowledge_all pg_Acknowledge now (order groups) q1 = (q', reported)"
      using assms(2,3,5) deq False by (auto simp: handleNode_def split: prod.splits)
    have gr: "(\<Union>p\<in>set groups. set (snd p)) = set (map ev_ID events)" "list_all (\<lambda>(st, ids). allowToAck st) groups"
      using handle_events_groups [OF he] by simp_all
    then have "list_all (\<lambda>(st, ids). allowToAck st) (order groups)" by (simp add: list_all_iff assms(4))
    from acknowledge_all_busy [OF inv1 this ack] gr(1) busy show ?thesis
      by (auto simp: assms(4) case_prod_unfold)
  qed
qed


text \<open>Events that were not acknowledged are never reported: the arguments of the difference are swapped.\<close>

lemma nothing_is_reported:
  assumes "pg_inv q" and "repl_Dequeue r = pg_Dequeue" and "repl_Acknowledge r = pg_Acknowledge"
    and "\<And>m. set (order m) = set m"
    and "handleNode r now g order vs storage (db, q) = ((db', q'), n, reported)"
  shows "reported = []"
  using handleNode_settles [OF assms] by blast

section \<open>Retries\<close>

text \<open>
  The calls of any number of workers on one queue. A worker acknowledges an event as completed, or
  as \<open>handleNodeEvent\<close> decides from the attempts left; an acknowledgement that does not follow this
  rule for the events as they are is not a worker's and is skipped.
\<close>

datatype worker_call =
    WorkerEnqueue int ReplicationJob
  | WorkerDequeue int string string int
  | WorkerAcknowledge int JobState "nat list"
  | WorkerHealth int "ReplicationEvent list"
  | WorkerStale int int

definition decided :: "JobState \<Rightarrow> ReplicationEvent \<Rightarrow> bool" where
  "decided st e \<longleftrightarrow> st = JobStateCompleted \<or> st = (if Attempt e \<le> 0 then JobStateDead else JobStateFailed)"

definition follows_rule :: "JobState \<Rightarrow> nat list \<Rightarrow> pg_queue \<Rightarrow> bool" where
  "follows_rule st ids q \<longleftrightarrow> list_all (\<lambda>e. if ev_ID e \<in> set ids then decided st e else True) (replication_queue q)"

fun worker_exec :: "worker_call \<Rightarrow> pg_queue \<Rightarrow> pg_queue \<times> ReplicationEvent list" where
  "worker_exec (WorkerEnqueue now job) q = (fst (pg_Enqueue now job q), [])"
| "worker_exec (WorkerDequeue now vs node n) q = pg_Dequeue now vs node n q"
| "worker_exec (WorkerAcknowledge now st ids) q =
     (if follows_rule st ids q then fst (pg_Acknowledge now st ids q) else q, [])"
| "worker_exec (WorkerHealth now events) q = (fst (health_update now events q), [])"
| "worker_exec (WorkerStale now staleAfter) q = (AcknowledgeStale now staleAfter q, [])"

text \<open>How often the event \<open>i\<close> is handed out; deletions of replicas are retried without limit.\<close>

definition counts :: "nat \<Rightarrow> ReplicationEvent list \<Rightarrow> nat" where
  "counts i es = length (filter (\<lambda>e. ev_ID e = i \<and> Change (Job e) \<noteq> ChangeType.DeleteReplica) es)"

fun handed_out :: "nat \<Rightarrow> worker_call list \<Rightarrow> pg_queue \<Rightarrow> nat" where
  "handed_out i [] q = 0"
| "handed_out i (c # cs) q = (case worker_exec c q of (q', es) \<Rightarrow> counts i es + handed_out i cs q')"

definition active :: "JobState \<Rightarrow> bool" where
  "active st \<longleftrightarrow> st \<in> {JobStateReady, JobStateFailed, JobStateInProgress}"

definition attempts_left :: "ReplicationEvent \<Rightarrow> nat" where
  "attempts_left e = (if active (ev_State e) \<and> Change (Job e) \<noteq> ChangeType.DeleteReplica then nat (Attempt e) else 0)"

definition budget :: "nat \<Rightarrow> pg_queue \<Rightarrow> nat" where
  "budget i q = (if pg_seq q < i then 3 else case pg_lookup q i of None \<Rightarrow> 0 | Some e \<Rightarrow> attempts_left e)"

definition attempts_ok :: "pg_queue \<Rightarrow> bool" where
  "attempts_ok q \<longleftrightarrow> (\<forall>e\<in>set (replication_queue q). ev_State e \<in> {JobStateReady, JobStateFailed} \<longrightarrow>
     Change (Job e) \<noteq> ChangeType.DeleteReplica \<longrightarrow> 1 \<le> Attempt e)"

text \<open>Statements that only end events do not add to the budget.\<close>

lemma budget_mono:
  assumes "pg_inv q" and "pg_inv q'" and "pg_seq q' = pg_seq q"
    and "\<And>e'. e' \<in> set (replication_queue q') \<Longrightarrow> \<exists>e\<in>set (replication_queue q).
      ev_ID e = ev_ID e' \<and> attempts_left e' \<le> attempts_left e"
  shows "budget i q' \<le> budget i q"
proof (cases "pg_seq q < i")
  case False
  show ?thesis
  proof (cases "pg_lookup q' i")
    case (Some e')
    then obtain e where "pg_lookup q i = Some e" "attempts_left e' \<le> attempts_left e"
      using assms(4) [of e'] pg_lookup_iff [OF assms(1)] pg_lookup_iff [OF assms(2)] by metis
    with Some False assms(3) show ?thesis by (simp add: budget_def)
  qed (use False assms(3) in \<open>simp add: budget_def\<close>)
qed (use assms(3) in \<open>simp add: budget_def\<close>)

definition good_step :: "nat \<Rightarrow> pg_queue \<Rightarrow> pg_queue \<Rightarrow> ReplicationEvent list \<Rightarrow> bool" where
  "good_step i q q' es \<longleftrightarrow> pg_inv q' \<and> attempts_ok q' \<and> counts i es + budget i q' \<le> budget i q"

lemma good_idle: "pg_inv q \<Longrightarrow> attempts_ok q \<Longrightarrow> good_step i q q []"
  by (simp add: good_step_def counts_def)

lemma good_enqueue:
  assumes "pg_inv q" and "attempts_ok q"
  shows "good_step i q (fst (pg_Enqueue now job q)) []"
proof (cases "pg_Enqueue now job q")
  case (Pair q' r)
  show ?thesis
  proof (cases r)
    case (Inl err)
    with Pair have "q' = q" by (auto simp: pg_Enqueue_def Let_def split: if_splits)
    with Pair assms show ?thesis by (simp add: good_idle)
  next
    case (Inr e)
    note law = pg_enqueue_law [OF assms(1) Pair [unfolded Inr]]
    have q': "pg_seq q' = pg_seq q + 1" "replication_queue q' = replication_queue q @ [e]" "ev_ID e = pg_seq q + 1"
      "Attempt e = 3"
      using Pair Inr by (auto simp: pg_Enqueue_def Let_def split: if_splits)
    have "attempts_ok q'" using assms(2) q'(2,4) by (auto simp: attempts_ok_def)
    moreover have "budget i q' \<le> budget i q"
      using law q' by (auto simp: budget_def attempts_left_def)
    ultimately show ?thesis using law Pair by (simp add: good_step_def counts_def)
  qed
qed

lemma counts_dequeued:
  assumes "distinct (map ev_ID es)" and "e \<in> set es"
  shows "counts (ev_ID e) es = (if Change (Job e) = ChangeType.DeleteReplica then 0 else 1)"
  using assms
proof (induction es)
  case (Cons x es)
  show ?case
  proof (cases "e = x")
    case True
    with Cons.prems(1) have "counts (ev_ID e) es = 0"
      by (simp add: counts_def filter_empty_conv) (metis image_eqI)
    with True show ?thesis by (auto simp: counts_def)
  next
    case False
    with Cons.prems have "e \<in> set es" "ev_ID x \<noteq> ev_ID e" by force+
    with Cons show ?thesis by (simp add: counts_def)
  qed
qed simp

lemma good_dequeue:
  assumes "pg_inv q" and "attempts_ok q" and deq: "pg_Dequeue now vs node n q = (q', es)"
  shows "good_step i q q' es"
proof -
  note tab = pg_dequeue_tables [OF assms(1) deq] and law = pg_dequeue_law [OF assms(1) deq]
  have "attempts_ok q'" using assms(2) by (auto simp: attempts_ok_def tab(1))
  moreover have "counts i es + budget i q' \<le> budget i q"
  proof (cases "map_of (by_id es) i")
    case None
    then have "i \<notin> ev_ID ` set es" by (simp add: map_of_eq_None_iff image_image)
    then have "counts i es = 0" by (auto simp: counts_def filter_empty_conv)
    with None law tab(5) show ?thesis by (simp add: budget_def)
  next
    case (Some e)
    then have e: "e \<in> set es" "ev_ID e = i" by (auto dest: map_of_SomeD)
    from e(1) obtain e0 where e0: "e0 \<in> set (replication_queue q)" "e = pg_start now e0"
      "ev_State e0 \<in> {JobStateReady, JobStateFailed}"
      using tab(2,6) by auto
    have look: "pg_lookup q i = Some e0" "pg_lookup q' i = Some e"
      using pg_lookup_iff [OF assms(1)] e0 e(2) law Some by auto
    have "i \<le> pg_seq q" using assms(1) e0(1,2) e(2) by (auto simp: pg_inv_def list_all_iff)
    moreover have "counts i es = (if Change (Job e0) = ChangeType.DeleteReplica then 0 else 1)"
      using counts_dequeued [OF _ e(1)] law e(2) e0(2) by simp
    moreover have "attempts_left e + (if Change (Job e0) = ChangeType.DeleteReplica then 0 else 1) = attempts_left e0"
      using assms(2) e0 by (auto simp: attempts_ok_def attempts_left_def active_def pg_start_def)
    ultimately show ?thesis using look tab(5) by (simp add: budget_def)
  qed
  ultimately show ?thesis using law by (simp add: good_step_def)
qed

lemma good_acknowledge:
  assumes "pg_inv q" and "attempts_ok q" and "follows_rule st ids q"
  shows "good_step i q (fst (pg_Acknowledge now st ids q)) []"
proof (cases "ids = [] \<or> \<not> allowToAck st")
  case True
  then have "fst (pg_Acknowledge now st ids q) = q" by (auto simp: pg_Acknowledge_def)
  with assms show ?thesis by (simp add: good_idle)
next
  case False
  obtain q' r where ack: "pg_Acknowledge now st ids q = (q', r)" by (metis prod.collapse)
  note tab = pg_acknowledge_tables [OF assms(1) ack]
  let ?ex = "filter (\<lambda>e. ev_ID e \<in> set ids \<and> ev_State e = JobStateInProgress) (replication_queue q)"
  have row: "\<exists>e\<in>set (replication_queue q). e' = e \<or>
      e' = e\<lparr>ev_State := st, UpdatedAt := Some now\<rparr> \<and> ev_State e = JobStateInProgress \<and> decided st e"
    if "e' \<in> set (replication_queue q')" for e'
    using tab(4) [OF _ _ that] False assms(3) by (auto simp: follows_rule_def list_all_iff split: if_splits)
  have "attempts_ok q'"
    unfolding attempts_ok_def
  proof (intro ballI impI)
    fix e' assume e': "e' \<in> set (replication_queue q')" "ev_State e' \<in> {JobStateReady, JobStateFailed}"
      "Change (Job e') \<noteq> ChangeType.DeleteReplica"
    from row [OF e'(1)] e'(2,3) assms(2) show "1 \<le> Attempt e'"
      by (auto simp: attempts_ok_def decided_def split: if_splits)
  qed
  moreover have "budget i q' \<le> budget i q"
  proof (rule budget_mono [OF assms(1)])
    show "pg_inv q'" "pg_seq q' = pg_seq q" using tab False by blast+
    show "\<exists>e\<in>set (replication_queue q). ev_ID e = ev_ID e' \<and> attempts_left e' \<le> attempts_left e"
      if "e' \<in> set (replication_queue q')" for e'
      using row [OF that] by (force simp: attempts_left_def active_def)
  qed
  ultimately show ?thesis using tab(1) False ack by (simp add: good_step_def counts_def)
qed

lemma good_health:
  assumes "pg_inv q" and "attempts_ok q"
  shows "good_step i q (fst (health_update now events q)) []"
proof -
  have "replication_queue (fst (health_update now events q)) = replication_queue q"
    "pg_seq (fst (health_update now events q)) = pg_seq q" by (simp_all add: health_update_def Let_def)
  with assms pg_health_inv [OF assms(1)] show ?thesis
    by (simp add: good_step_def counts_def attempts_ok_def budget_def pg_lookup_def)
qed

lemma good_stale:
  assumes "pg_inv q" and "attempts_ok q"
  shows "good_step i q (AcknowledgeStale now staleAfter q) []"
proof -
  let ?q = "AcknowledgeStale now staleAfter q"
  let ?st = "\<lambda>e. if 1 \<le> Attempt e then JobStateFailed else JobStateDead"
  have inv: "pg_inv ?q" by (rule pg_stale_inv [OF assms(1)])
  have row: "\<exists>e\<in>set (replication_queue q). e' = e \<or> e' = e\<lparr>ev_State := ?st e\<rparr> \<and> ev_State e = JobStateInProgress"
    if "e' \<in> set (replication_queue ?q)" for e'
  proof -
    define stale where "stale e \<longleftrightarrow> ev_ID e \<in> set (map (fst \<circ> fst)
      (filter (\<lambda>r. snd r < now - staleAfter) (replication_queue_job_lock q)))" for e :: ReplicationEvent
    have "replication_queue ?q = map (\<lambda>e. if stale e then e\<lparr>ev_State := ?st e\<rparr> else e) (replication_queue q)"
      by (simp add: AcknowledgeStale_def Let_def stale_def)
    from that [unfolded this set_map] obtain e where e': "e' = (if stale e then e\<lparr>ev_State := ?st e\<rparr> else e)"
      and e: "e \<in> set (replication_queue q)" by (rule imageE)
    show ?thesis
    proof (cases "e' = e")
      case False
      then have st: "stale e" "e' = e\<lparr>ev_State := ?st e\<rparr>" using e' by (cases "stale e"; simp)+
      from st(1) obtain l where "l \<in> set (replication_queue_job_lock q)" and l: "fst (fst l) = ev_ID e"
        by (auto simp: stale_def)
      then have k: "fst l \<in> in_progress q" unfolding pg_invD(1) [OF assms(1), symmetric] by blast
      then obtain x where x: "x \<in> set (replication_queue q)" "ev_State x = JobStateInProgress" "ev_ID x = ev_ID e"
        using l by (auto simp: in_progress_iff)
      have "x = e" by (rule by_id_unique [OF pg_invD(3) [OF assms(1)] x(1) e x(3)])
      with e st(2) x(2) show ?thesis by blast
    qed (use e in blast)
  qed
  have "attempts_ok ?q"
    unfolding attempts_ok_def
  proof (intro ballI impI)
    fix e' assume e': "e' \<in> set (replication_queue ?q)" "ev_State e' \<in> {JobStateReady, JobStateFailed}"
      "Change (Job e') \<noteq> ChangeType.DeleteReplica"
    from row [OF e'(1)] obtain e where e: "e \<in> set (replication_queue q)" "e' = e \<or> e' = e\<lparr>ev_State := ?st e\<rparr>" by blast
    from e(2) show "1 \<le> Attempt e'"
    proof
      assume "e' = e"
      with e(1) e'(2,3) assms(2) show ?thesis unfolding attempts_ok_def by blast
    next
      assume "e' = e\<lparr>ev_State := ?st e\<rparr>"
      with e'(2) show ?thesis by (cases "1 \<le> Attempt e") simp_all
    qed
  qed
  moreover have "budget i ?q \<le> budget i q"
  proof (rule budget_mono [OF assms(1) inv])
    show "pg_seq ?q = pg_seq q" by (simp add: AcknowledgeStale_def Let_def)
    show "\<exists>e\<in>set (replication_queue q). ev_ID e = ev_ID e' \<and> attempts_left e' \<le> attempts_left e"
      if "e' \<in> set (replication_queue ?q)" for e'
      using row [OF that] by (force simp: attempts_left_def active_def)
  qed
  ultimately show ?thesis using inv by (simp add: good_step_def counts_def)
qed

lemma worker_good:
  assumes "pg_inv q" and "attempts_ok q" and "worker_exec c q = (q', es)"
  shows "good_step i q q' es"
  using assms
  by (cases c) (auto simp: good_enqueue good_acknowledge good_health good_stale good_idle
      intro: good_dequeue split: if_splits)

lemma handed_out_budget:
  assumes "pg_inv q" and "attempts_ok q"
  shows "handed_out i cs q \<le> budget i q"
  using assms
proof (induction cs arbitrary: q)
  case (Cons c cs)
  obtain q' es where c: "worker_exec c q = (q', es)" by (metis prod.collapse)
  with worker_good [OF Cons.prems c, of i] Cons.IH [of q'] show ?case by (simp add: good_step_def)
qed simp


section \<open>Backoff\<close>

lemma sint_double:
  fixes d :: duration
  assumes "0 \<le> sint d" and "sint d < 2 ^ 62"
  shows "sint (d * 2) = sint d * 2"
proof -
  have "sint (d * 2) = signed_take_bit 63 (sint d * 2)"
    by (simp add: sint_word_ariths)
  also have "\<dots> = sint d * 2"
    using assms by (intro signed_take_bit_int_eq_self) simp_all
  finally show ?thesis .
qed

lemma idle_waits:
  assumes "0 < sint start" and "sint maximum < 2 ^ 62" and "list_all (\<lambda>it. it_healthy it = []) its"
    and "sint d = min (sint start * 2 ^ k) (sint maximum)" and "sint start \<le> sint maximum"
  shows "map sint (snd (processBacklog r start maximum vs its d st)) =
    map (\<lambda>j. min (sint start * 2 ^ j) (sint maximum)) [k..<k + length its]"
  using assms(3,4)
proof (induction its arbitrary: d k st)
  case (Cons it its)
  let ?next = "snd (backoff maximum d)"
  have pos: "0 < sint d" using Cons.prems(2) assms(1,5) by (simp add: min_def)
  have next_d: "sint ?next = min (sint start * 2 ^ Suc k) (sint maximum)"
  proof -
    have "sint d < 2 ^ 62" using Cons.prems(2) assms(2) by simp
    from sint_double [OF _ this] pos Cons.prems(2) show ?thesis by (auto simp: backoff_def Let_def min_def)
  qed
  have "snd (processBacklog r start maximum vs (it # its) d st) =
      d # snd (processBacklog r start maximum vs its ?next st)"
    using Cons.prems(1) by (simp add: backoff_def split: prod.split)
  moreover have "map sint (snd (processBacklog r start maximum vs its ?next st)) =
      map (\<lambda>j. min (sint start * 2 ^ j) (sint maximum)) [Suc k..<Suc k + length its]"
    using Cons.prems(1) next_d by (intro Cons.IH) simp_all
  moreover have "[k..<k + length (it # its)] = k # [Suc k..<Suc k + length its]"
    by (subst upt_conv_Cons) (simp_all del: upt_Suc)
  ultimately show ?case using Cons.prems(2) by (simp only: list.map)
qed simp

text \<open>
  While there is nothing to do, the loop waits for the start duration first and twice as long
  each further time, up to the maximum; the 64-bit durations do not overflow.
\<close>

theorem backoff_doubles:
  assumes "0 < sint start" and "sint start \<le> sint maximum" and "sint maximum < 2 ^ 62"
    and "list_all (\<lambda>it. it_healthy it = []) its"
  shows "map sint (snd (processBacklog r start maximum vs its (backoff_reset start) st)) =
    map (\<lambda>j. min (sint start * 2 ^ j) (sint maximum)) [0..<length its]"
  using idle_waits [OF assms(1,3,4) _ assms(2), where k = 0 and d = "backoff_reset start"] assms(2)
  by (simp add: backoff_reset_def)

section \<open>Witnesses\<close>

definition rw_gitaly :: gitaly where
  "rw_gitaly = \<lparr>rpc = (\<lambda>c. None), object_pool = (\<lambda>r. None)\<rparr>"

definition rw_mgr :: "pg_queue ReplMgr" where
  "rw_mgr = \<lparr>repl_Dequeue = pg_Dequeue, repl_Acknowledge = pg_Acknowledge,
     repl_nodes = [(''v'', [(''a'', Some 0), (''b'', Some 1)])], repl_virtualStorages = [''v''], dequeueBatchSize = 10\<rparr>"

definition rw_idle :: iteration where
  "rw_idle = \<lparr>it_now = 0, it_healthy = [], it_gitaly = rw_gitaly, it_order = (\<lambda>m. m)\<rparr>"

definition rw_job :: ReplicationJob where
  "rw_job = \<lparr>ReplicationJob.RepositoryID = 1, Change = UpdateRepo, RelativePath = ''repo'', TargetNodeStorage = ''b'',
     SourceNodeStorage = ''a'', job_VirtualStorage = ''vs'', job_Params = None\<rparr>"

definition rw_db :: repo_db where
  "rw_db = fst (Replicate rw_gitaly rw_job wit_db2)"

theorem replication_catches_up_witness:
  "\<exists>new. GetConsistentStorages rw_db ''vs'' ''repo'' = Inr new \<and> set new = {''b'', ''a''}"
proof -
  have "snd (snd (Replicate rw_gitaly rw_job wit_db2)) = None" by code_simp
  then obtain calls where rep: "Replicate rw_gitaly rw_job wit_db2 = (rw_db, calls, None)"
    by (metis rw_db_def prod.collapse)
  have old: "GetConsistentStorages wit_db2 (job_VirtualStorage rw_job) (RelativePath rw_job) = Inr [''a'']" by code_simp
  have repo: "map_of (repositories wit_db2) (job_VirtualStorage rw_job, RelativePath rw_job) = Some
      \<lparr>rr_id = 1, rr_generation = Some 1, rr_primary = Some ''a'', rr_replica_path = Some ''repo''\<rparr>"
    by code_simp
  have gen: "GetGeneration wit_db2 (job_VirtualStorage rw_job) (RelativePath rw_job) (SourceNodeStorage rw_job) = 1"
    by code_simp
  have "\<exists>new. GetConsistentStorages rw_db (job_VirtualStorage rw_job) (RelativePath rw_job) = Inr new \<and>
      set new = insert (TargetNodeStorage rw_job) (set [''a''])"
    by (rule replication_catches_up [OF wit_db2_reachable _ old _ repo _ _ _ rep])
      (simp_all add: gen, simp_all add: rw_job_def rw_gitaly_def GenerationUnknown_def)
  then show ?thesis by (simp add: rw_job_def)
qed

definition rw_settled :: "repo_db \<times> pg_queue" where
  "rw_settled = fst (handleNode rw_mgr 20 rw_gitaly (\<lambda>m. m) ''v'' ''b'' (wit_db2, pg_s1))"


theorem backoff_doubles_witness:
  "map sint (snd (processBacklog rw_mgr 3 10 ''v'' [rw_idle, rw_idle, rw_idle] (backoff_reset 3) (wit_db2, pg_s1))) = [3, 6, 10]"
proof -
  have "sint (3 :: duration) = 3" "sint (10 :: duration) = 10" by simp_all
  with backoff_doubles [of "3 :: duration" "10 :: duration" "[rw_idle, rw_idle, rw_idle]" rw_mgr "''v''" "(wit_db2, pg_s1)"]
  show ?thesis by (simp add: rw_idle_def upt_rec)
qed

end
