(* ===== verification/Concurrency_Limiter.thy ===== *)
theory Concurrency_Limiter
  imports Praefect_Prelude
begin

text \<open>
  The limiter of concurrent calls per repository and RPC,
  \<open>internal/middleware/limithandler/concurrency_limiter.go\<close>, with the Prometheus monitor of
  \<open>metrics.go\<close> and the interceptors of \<open>limithandler.go\<close>.

  A \<open>*semaphoreReference\<close> is an index into a heap of semaphores, because the map may drop a
  semaphore and later hold another one for the same key while calls still hold pointers. The
  channel \<open>tokens\<close> carries empty structs, so it is the number of values in it; its capacity is
  \<open>max\<close>. A call of \<open>Limit\<close> is a program counter: every operation on shared memory is one step,
  a step that would block is not enabled, and the deferred calls run in Go's order, last one first.
  What the limited function does is not modelled: it may end at any time, by a return or a panic,
  and in both cases the deferred calls run.
\<close>

section \<open>Semaphores\<close>

record semaphoreReference =
  tokens :: nat
  count :: int

record ConcurrencyLimiter =
  semaphores :: "(string, nat) gomap"
  max_calls :: int

record promMonitor =
  queuedGauge :: int
  inprogressGauge :: int

datatype put_panic = SemaphoreMissing | BadRefCount int

type_synonym sem_heap = "semaphoreReference list"

text \<open>\<open>acquire\<close> sends into the channel; \<open>None\<close> is a send that blocks.\<close>

definition acquire :: "int \<Rightarrow> semaphoreReference \<Rightarrow> semaphoreReference option" where
  "acquire cap sem = (if int (tokens sem) < cap then Some (sem\<lparr>tokens := tokens sem + 1\<rparr>) else None)"

text \<open>\<open>release\<close> receives from the channel; \<open>None\<close> is a receive that blocks.\<close>

definition release :: "semaphoreReference \<Rightarrow> semaphoreReference option" where
  "release sem = (if tokens sem = 0 then None else Some (sem\<lparr>tokens := tokens sem - 1\<rparr>))"

definition getSemaphore ::
  "string \<Rightarrow> ConcurrencyLimiter \<Rightarrow> sem_heap \<Rightarrow> nat \<times> ConcurrencyLimiter \<times> sem_heap" where
  "getSemaphore lockKey c h =
     (case map_of (semaphores c) lockKey of
        None \<Rightarrow> (length h, c\<lparr>semaphores := AList.update lockKey (length h) (semaphores c)\<rparr>,
                 h @ [\<lparr>tokens = 0, count = 1\<rparr>])
      | Some p \<Rightarrow> (p, c, h[p := (h ! p)\<lparr>count := count (h ! p) + 1\<rparr>]))"

definition putSemaphore ::
  "string \<Rightarrow> ConcurrencyLimiter \<Rightarrow> sem_heap \<Rightarrow> put_panic + ConcurrencyLimiter \<times> sem_heap" where
  "putSemaphore lockKey c h =
     (case map_of (semaphores c) lockKey of
        None \<Rightarrow> Inl SemaphoreMissing
      | Some p \<Rightarrow>
          if count (h ! p) \<le> 0 then Inl (BadRefCount (count (h ! p)))
          else Inr (if count (h ! p) - 1 = 0
                    then c\<lparr>semaphores := AList.delete lockKey (semaphores c)\<rparr> else c,
                    h[p := (h ! p)\<lparr>count := count (h ! p) - 1\<rparr>]))"

definition countSemaphores :: "ConcurrencyLimiter \<Rightarrow> nat" where
  "countSemaphores c = length (semaphores c)"

definition NewLimiter :: "int \<Rightarrow> ConcurrencyLimiter" where
  "NewLimiter m = \<lparr>semaphores = [], max_calls = m\<rparr>"

section \<open>The monitor\<close>

definition Queued :: "promMonitor \<Rightarrow> promMonitor" where
  "Queued m = m\<lparr>queuedGauge := queuedGauge m + 1\<rparr>"

definition Dequeued :: "promMonitor \<Rightarrow> promMonitor" where
  "Dequeued m = m\<lparr>queuedGauge := queuedGauge m - 1\<rparr>"

definition Enter :: "promMonitor \<Rightarrow> promMonitor" where
  "Enter m = m\<lparr>inprogressGauge := inprogressGauge m + 1\<rparr>"

definition Exit :: "promMonitor \<Rightarrow> promMonitor" where
  "Exit m = m\<lparr>inprogressGauge := inprogressGauge m - 1\<rparr>"

definition NewPromMonitor :: promMonitor where
  "NewPromMonitor = \<lparr>queuedGauge = 0, inprogressGauge = 0\<rparr>"

text \<open>The label values of a method's gauges.\<close>

definition splitMethodName :: "string \<Rightarrow> string \<times> string" where
  "splitMethodName fullMethodName =
     (let name = (case fullMethodName of [] \<Rightarrow> [] | c # cs \<Rightarrow> if c = CHR ''/'' then cs else c # cs)
      in if CHR ''/'' \<in> set name
         then (takeWhile (\<lambda>c. c \<noteq> CHR ''/'') name, tl (dropWhile (\<lambda>c. c \<noteq> CHR ''/'') name))
         else (''unknown'', ''unknown''))"

section \<open>Calls of Limit\<close>

text \<open>
  The control points of \<open>Limit\<close>: \<open>Called\<close> before the first line, \<open>InQueue\<close> after
  \<open>monitor.Queued\<close>, \<open>Acquiring\<close> after \<open>getSemaphore\<close>, \<open>Acquired\<close> and \<open>Cancelled\<close> after
  \<open>acquire\<close>, \<open>Entering\<close> after \<open>monitor.Dequeued\<close>, \<open>Running\<close> after \<open>monitor.Enter\<close>, \<open>Exited\<close>
  after the deferred \<open>monitor.Exit\<close>, \<open>Leaving\<close> after the deferred \<open>release\<close> (or after an error),
  \<open>Returned\<close> after the deferred \<open>putSemaphore\<close>. \<open>Unlimited\<close> runs the function without a limit.
\<close>

datatype phase =
  Called | Unlimited | InQueue | Acquiring nat | Acquired nat | Cancelled nat | Entering nat
  | Running nat | Exited nat | Leaving nat | Returned | Panicked put_panic

record limit_call =
  lockKey :: string
  phase :: phase

record limit_sys =
  limiter :: ConcurrencyLimiter
  sems :: sem_heap
  monitor :: promMonitor
  calls :: "limit_call list"

definition goto :: "nat \<Rightarrow> phase \<Rightarrow> limit_sys \<Rightarrow> limit_sys" where
  "goto i ph s = s\<lparr>calls := (calls s)[i := (calls s ! i)\<lparr>phase := ph\<rparr>]\<rparr>"

text \<open>
  The next step of call \<open>i\<close>. The flag is the choice of the \<open>select\<close> in \<open>acquire\<close>: true takes
  \<open>ctx.Done()\<close>, which may be ready at any time.
\<close>

definition Limit_step :: "bool \<Rightarrow> nat \<Rightarrow> limit_sys \<Rightarrow> limit_sys option" where
  "Limit_step ctxDone i s =
     (let c = limiter s; h = sems s; m = monitor s; key = lockKey (calls s ! i) in
      case phase (calls s ! i) of
        Called \<Rightarrow>
          if max_calls c \<le> 0 then Some (goto i Unlimited s)
          else Some (goto i InQueue (s\<lparr>monitor := Queued m\<rparr>))
      | Unlimited \<Rightarrow> Some (goto i Returned s)
      | InQueue \<Rightarrow>
          (case getSemaphore key c h of
             (p, c', h') \<Rightarrow> Some (goto i (Acquiring p) (s\<lparr>limiter := c', sems := h'\<rparr>)))
      | Acquiring p \<Rightarrow>
          if ctxDone then Some (goto i (Cancelled p) s)
          else (case acquire (max_calls c) (h ! p) of
                  None \<Rightarrow> None
                | Some sem \<Rightarrow> Some (goto i (Acquired p) (s\<lparr>sems := h[p := sem]\<rparr>)))
      | Acquired p \<Rightarrow> Some (goto i (Entering p) (s\<lparr>monitor := Dequeued m\<rparr>))
      | Cancelled p \<Rightarrow> Some (goto i (Leaving p) (s\<lparr>monitor := Dequeued m\<rparr>))
      | Entering p \<Rightarrow> Some (goto i (Running p) (s\<lparr>monitor := Enter m\<rparr>))
      | Running p \<Rightarrow> Some (goto i (Exited p) (s\<lparr>monitor := Exit m\<rparr>))
      | Exited p \<Rightarrow>
          (case release (h ! p) of
             None \<Rightarrow> None
           | Some sem \<Rightarrow> Some (goto i (Leaving p) (s\<lparr>sems := h[p := sem]\<rparr>)))
      | Leaving p \<Rightarrow>
          (case putSemaphore key c h of
             Inl panic \<Rightarrow> Some (goto i (Panicked panic) s)
           | Inr (c', h') \<Rightarrow> Some (goto i Returned (s\<lparr>limiter := c', sems := h'\<rparr>)))
      | Returned \<Rightarrow> None
      | Panicked panic \<Rightarrow> None)"

text \<open>Any number of calls, interleaved in any way.\<close>

inductive limit_run_step :: "limit_sys \<Rightarrow> limit_sys \<Rightarrow> bool" where
  call: "limit_run_step s (s\<lparr>calls := calls s @ [\<lparr>lockKey = key, phase = Called\<rparr>]\<rparr>)"
| advance: "i < length (calls s) \<Longrightarrow> Limit_step ctxDone i s = Some s' \<Longrightarrow> limit_run_step s s'"

definition limit_start :: "int \<Rightarrow> limit_sys" where
  "limit_start m = \<lparr>limiter = NewLimiter m, sems = [], monitor = NewPromMonitor, calls = []\<rparr>"

section \<open>The interceptors\<close>

text \<open>What an interceptor does with a request: run the handler, or run it through a limiter.\<close>

datatype interception = Direct | ThroughLimiter string string

type_synonym methodLimiters = "(string, ConcurrencyLimiter) gomap"

definition createLimiterConfig :: "(string, int) gomap \<Rightarrow> methodLimiters" where
  "createLimiterConfig maxConcurrency = map (\<lambda>(fullMethodName, m). (fullMethodName, NewLimiter m)) maxConcurrency"

definition UnaryInterceptor :: "methodLimiters \<Rightarrow> string \<Rightarrow> string \<Rightarrow> interception" where
  "UnaryInterceptor limiters fullMethod lock =
     (if lock = '''' then Direct
      else case map_of limiters fullMethod of
             None \<Rightarrow> Direct
           | Some _ \<Rightarrow> ThroughLimiter fullMethod lock)"

text \<open>
  \<open>RecvMsg\<close> of a stream: the first message goes through the limiter, whose function signals
  \<open>ready\<close> and holds its token until the context of the stream is done.
\<close>

datatype recv_result = RecvErr | RecvOk | AwaitReady string string

record wrappedStream =
  stream_method :: string
  initial :: bool

definition RecvMsg ::
  "methodLimiters \<Rightarrow> string \<Rightarrow> bool \<Rightarrow> wrappedStream \<Rightarrow> wrappedStream \<times> recv_result" where
  "RecvMsg limiters lock recvFails w =
     (if recvFails then (w, RecvErr)
      else if \<not> initial w then (w, RecvOk)
      else (w\<lparr>initial := False\<rparr>,
            (case UnaryInterceptor limiters (stream_method w) lock of
               Direct \<Rightarrow> RecvOk
             | ThroughLimiter method key \<Rightarrow> AwaitReady method key)))"

section \<open>The invariant\<close>

text \<open>How many elements of a list have a property.\<close>

definition cnt :: "('a \<Rightarrow> bool) \<Rightarrow> 'a list \<Rightarrow> int" where
  "cnt P xs = int (length (filter P xs))"

lemma cnt_simps [simp]:
  "cnt P [] = 0"
  "cnt P (x # xs) = (if P x then 1 else 0) + cnt P xs"
  "cnt P (xs @ ys) = cnt P xs + cnt P ys"
  by (simp_all add: cnt_def)

lemma cnt_update:
  "i < length xs \<Longrightarrow> cnt P (xs[i := y]) = cnt P xs - (if P (xs ! i) then 1 else 0) + (if P y then 1 else 0)"
proof (induction xs arbitrary: i)
  case (Cons x xs)
  then show ?case by (cases i) auto
qed simp

lemma cnt_nonneg [simp]: "0 \<le> cnt P xs"
  by (simp add: cnt_def)

lemma cnt_pos_iff: "0 < cnt P xs \<longleftrightarrow> list_ex P xs"
  by (induction xs) (auto simp: add_pos_nonneg intro: add_nonneg_pos)

lemma cnt_nth: "i < length xs \<Longrightarrow> P (xs ! i) \<Longrightarrow> 0 < cnt P xs"
  by (auto simp: cnt_pos_iff list_ex_iff)

lemma cnt_mono: "(\<And>x. P x \<Longrightarrow> Q x) \<Longrightarrow> cnt P xs \<le> cnt Q xs"
  by (induction xs) (auto simp: add_increasing)

fun pointer :: "phase \<Rightarrow> nat option" where
  "pointer (Acquiring p) = Some p"
| "pointer (Acquired p) = Some p"
| "pointer (Cancelled p) = Some p"
| "pointer (Entering p) = Some p"
| "pointer (Running p) = Some p"
| "pointer (Exited p) = Some p"
| "pointer (Leaving p) = Some p"
| "pointer ph = None"

fun token_of :: "phase \<Rightarrow> nat option" where
  "token_of (Acquired p) = Some p"
| "token_of (Entering p) = Some p"
| "token_of (Running p) = Some p"
| "token_of (Exited p) = Some p"
| "token_of ph = None"

fun queued :: "phase \<Rightarrow> bool" where
  "queued InQueue = True"
| "queued (Acquiring p) = True"
| "queued (Acquired p) = True"
| "queued (Cancelled p) = True"
| "queued ph = False"

fun running :: "phase \<Rightarrow> bool" where
  "running (Running p) = True"
| "running ph = False"

fun panicked :: "phase \<Rightarrow> bool" where
  "panicked (Panicked e) = True"
| "panicked ph = False"

definition sem_ok :: "limit_sys \<Rightarrow> nat \<Rightarrow> bool" where
  "sem_ok s p \<longleftrightarrow>
     count (sems s ! p) = cnt (\<lambda>c. pointer (phase c) = Some p) (calls s) \<and>
     int (tokens (sems s ! p)) = cnt (\<lambda>c. token_of (phase c) = Some p) (calls s) \<and>
     int (tokens (sems s ! p)) \<le> max 0 (max_calls (limiter s))"

definition call_mapped :: "limit_sys \<Rightarrow> limit_call \<Rightarrow> bool" where
  "call_mapped s c \<longleftrightarrow>
     (case pointer (phase c) of None \<Rightarrow> True | Some p \<Rightarrow> map_of (semaphores (limiter s)) (lockKey c) = Some p)"

definition limit_inv :: "int \<Rightarrow> limit_sys \<Rightarrow> bool" where
  "limit_inv m s \<longleftrightarrow>
     max_calls (limiter s) = m \<and>
     gowf (semaphores (limiter s)) \<and>
     distinct (map snd (semaphores (limiter s))) \<and>
     (\<forall>p < length (sems s). sem_ok s p) \<and>
     (\<forall>(k, p) \<in> set (semaphores (limiter s)). p < length (sems s) \<and> 0 < count (sems s ! p)) \<and>
     (\<forall>c \<in> set (calls s). call_mapped s c \<and> \<not> panicked (phase c)) \<and>
     queuedGauge (monitor s) = cnt (\<lambda>c. queued (phase c)) (calls s) \<and>
     inprogressGauge (monitor s) = cnt (\<lambda>c. running (phase c)) (calls s)"

lemma limit_invD:
  assumes "limit_inv m s"
  shows "max_calls (limiter s) = m" "gowf (semaphores (limiter s))"
    "distinct (map snd (semaphores (limiter s)))"
    "p < length (sems s) \<Longrightarrow> sem_ok s p"
    "(k, p) \<in> set (semaphores (limiter s)) \<Longrightarrow> p < length (sems s)"
    "(k, p) \<in> set (semaphores (limiter s)) \<Longrightarrow> 0 < count (sems s ! p)"
    "c \<in> set (calls s) \<Longrightarrow> call_mapped s c"
    "c \<in> set (calls s) \<Longrightarrow> \<not> panicked (phase c)"
    "queuedGauge (monitor s) = cnt (\<lambda>c. queued (phase c)) (calls s)"
    "inprogressGauge (monitor s) = cnt (\<lambda>c. running (phase c)) (calls s)"
  using assms unfolding limit_inv_def by auto

text \<open>A call that has a semaphore finds that semaphore in the map, under its own key.\<close>

lemma pointer_mapped:
  assumes "limit_inv m s" and "c \<in> set (calls s)" and "pointer (phase c) = Some p"
  shows "(lockKey c, p) \<in> set (semaphores (limiter s))" "p < length (sems s)"
proof -
  from limit_invD(7) [OF assms(1,2)] assms(3)
  show "(lockKey c, p) \<in> set (semaphores (limiter s))"
    by (auto simp: call_mapped_def dest: map_of_SomeD)
  then show "p < length (sems s)" by (rule limit_invD(5) [OF assms(1)])
qed

lemma same_pointer_same_key:
  assumes "limit_inv m s" "(k, p) \<in> set (semaphores (limiter s))" "(k', p) \<in> set (semaphores (limiter s))"
  shows "k = k'"
  using limit_invD(3) [OF assms(1)] assms(2,3)
  by (fastforce simp: distinct_map inj_on_def)

lemma goto_simps [simp]:
  "limiter (goto i ph s) = limiter s" "sems (goto i ph s) = sems s" "monitor (goto i ph s) = monitor s"
  "calls (goto i ph s) = (calls s)[i := (calls s ! i)\<lparr>phase := ph\<rparr>]"
  by (simp_all add: goto_def)

lemma call_mapped_alt:
  "call_mapped s c \<longleftrightarrow>
     (\<forall>p. pointer (phase c) = Some p \<longrightarrow> map_of (semaphores (limiter s)) (lockKey c) = Some p)"
  by (simp add: call_mapped_def split: option.split)

text \<open>Steps that neither take nor give back a semaphore or a token.\<close>

lemma goto_inv:
  assumes inv: "limit_inv m s" and i: "i < length (calls s)"
    and same: "pointer ph = pointer (phase (calls s ! i))" "token_of ph = token_of (phase (calls s ! i))"
    and ok: "\<not> panicked ph"
    and q: "queuedGauge mon = queuedGauge (monitor s) - of_bool (queued (phase (calls s ! i))) + of_bool (queued ph)"
    and r: "inprogressGauge mon =
      inprogressGauge (monitor s) - of_bool (running (phase (calls s ! i))) + of_bool (running ph)"
  shows "limit_inv m (goto i ph (s\<lparr>monitor := mon\<rparr>))"
proof -
  note D = limit_invD [OF inv]
  have sem: "sem_ok (goto i ph (s\<lparr>monitor := mon\<rparr>)) p" if "p < length (sems s)" for p
    using D(4) [OF that] i same by (simp add: sem_ok_def cnt_update)
  have "call_mapped (goto i ph (s\<lparr>monitor := mon\<rparr>)) c \<and> \<not> panicked (phase c)"
    if "c \<in> set ((calls s)[i := (calls s ! i)\<lparr>phase := ph\<rparr>])" for c
  proof (cases "c \<in> set (calls s)")
    case True
    with D(7,8) [OF True] show ?thesis by (simp add: call_mapped_alt)
  next
    case False
    with that have "c = (calls s ! i)\<lparr>phase := ph\<rparr>"
      using set_update_subset_insert by fastforce
    with D(7) [OF nth_mem [OF i]] same ok show ?thesis by (simp add: call_mapped_alt)
  qed
  with D(1,2,3,5,6,9,10) sem i q r show ?thesis
    by (auto simp: limit_inv_def cnt_update)
qed

text \<open>Taking a token and giving it back.\<close>

lemma token_inv:
  assumes inv: "limit_inv m s" and i: "i < length (calls s)"
    and p: "pointer (phase (calls s ! i)) = Some p" "pointer ph = Some p" and ok: "\<not> panicked ph"
    and sem: "count sem = count (sems s ! p)"
    and tok: "int (tokens sem) = int (tokens (sems s ! p)) -
      of_bool (token_of (phase (calls s ! i)) = Some p) + of_bool (token_of ph = Some p)"
    and other: "token_of (phase (calls s ! i)) \<in> {None, Some p}" "token_of ph \<in> {None, Some p}"
    and bound: "int (tokens sem) \<le> max 0 m"
    and gauges: "queued ph = queued (phase (calls s ! i))" "running ph = running (phase (calls s ! i))"
  shows "limit_inv m (goto i ph (s\<lparr>sems := (sems s)[p := sem]\<rparr>))"
proof -
  let ?s = "goto i ph (s\<lparr>sems := (sems s)[p := sem]\<rparr>)"
  note D = limit_invD [OF inv]
  from pointer_mapped(2) [OF inv nth_mem [OF i] p(1)] have pl: "p < length (sems s)" .
  have sem': "sem_ok ?s q" if "q < length (sems s)" for q
    using D(4) [OF that] i p sem tok other bound D(1) pl
    by (cases "q = p") (auto simp: sem_ok_def cnt_update)
  have call: "call_mapped ?s c \<and> \<not> panicked (phase c)"
    if "c \<in> set ((calls s)[i := (calls s ! i)\<lparr>phase := ph\<rparr>])" for c
  proof (cases "c \<in> set (calls s)")
    case True
    with D(7,8) [OF True] show ?thesis by (simp add: call_mapped_alt)
  next
    case False
    with that have "c = (calls s ! i)\<lparr>phase := ph\<rparr>"
      using set_update_subset_insert by fastforce
    with D(7) [OF nth_mem [OF i]] p ok show ?thesis by (simp add: call_mapped_alt)
  qed
  have "q < length (sems s) \<and> 0 < count ((sems s)[p := sem] ! q)"
    if "(k, q) \<in> set (semaphores (limiter s))" for k q
    using D(5,6) [OF that] sem by (cases "q = p") auto
  with D(1,2,3,9,10) sem' call i gauges show ?thesis
    by (auto simp: limit_inv_def cnt_update)
qed

lemma set_list_update_cases:
  assumes "y \<in> set (xs[i := x])"
  obtains "y = x" | "y \<in> set xs"
  using assms set_update_subset_insert by fastforce

lemma unmapped_pointer:
  assumes inv: "limit_inv m s" and free: "length (sems s) \<le> p"
  shows "cnt (\<lambda>c. pointer (phase c) = Some p) (calls s) = 0"
    "cnt (\<lambda>c. token_of (phase c) = Some p) (calls s) = 0"
proof -
  have ptr: "pointer (phase c) \<noteq> Some p" if "c \<in> set (calls s)" for c
    using pointer_mapped(2) [OF inv that] free by (meson linorder_not_le)
  have "token_of (phase c) \<noteq> Some p" if "c \<in> set (calls s)" for c
    using ptr [OF that] by (cases "phase c") auto
  with ptr show "cnt (\<lambda>c. pointer (phase c) = Some p) (calls s) = 0"
    "cnt (\<lambda>c. token_of (phase c) = Some p) (calls s) = 0"
    by (simp_all add: cnt_def filter_False)
qed

lemma getSemaphore_inv:
  assumes inv: "limit_inv m s" and i: "i < length (calls s)" and ph: "phase (calls s ! i) = InQueue"
    and get: "getSemaphore (lockKey (calls s ! i)) (limiter s) (sems s) = (p, c', h')"
  shows "limit_inv m (goto i (Acquiring p) (s\<lparr>limiter := c', sems := h'\<rparr>))"
proof -
  let ?s = "goto i (Acquiring p) (s\<lparr>limiter := c', sems := h'\<rparr>)"
  let ?k = "lockKey (calls s ! i)"
  note D = limit_invD [OF inv]
  have calls: "call_mapped ?s c \<and> \<not> panicked (phase c)" if ext: "map_of (semaphores c') ?k = Some p"
    "\<And>k q. map_of (semaphores (limiter s)) k = Some q \<Longrightarrow> map_of (semaphores c') k = Some q"
    and "c \<in> set ((calls s)[i := (calls s ! i)\<lparr>phase := Acquiring p\<rparr>])" for c
    using that(3)
  proof (cases rule: set_list_update_cases)
    case 1
    with ext(1) show ?thesis by (simp add: call_mapped_alt)
  next
    case 2
    with D(7,8) [OF 2] ext(2) show ?thesis by (auto simp: call_mapped_alt)
  qed
  show ?thesis
  proof (cases "map_of (semaphores (limiter s)) ?k")
    case None
    with get have eqs: "p = length (sems s)" "h' = sems s @ [\<lparr>tokens = 0, count = 1\<rparr>]"
      "c' = limiter s\<lparr>semaphores := AList.update ?k (length (sems s)) (semaphores (limiter s))\<rparr>"
      by (auto simp: getSemaphore_def)
    from None have upd: "AList.update ?k (length (sems s)) (semaphores (limiter s)) =
      semaphores (limiter s) @ [(?k, length (sems s))]"
      by (intro update_new) (simp add: map_of_eq_None_iff)
    have sem: "sem_ok ?s q" if "q < Suc (length (sems s))" for q
    proof (cases "q = length (sems s)")
      case True
      then show ?thesis using unmapped_pointer [OF inv, of "length (sems s)"] i ph
        by (simp add: sem_ok_def eqs cnt_update)
    next
      case False
      with that have "q < length (sems s)" by simp
      with D(4) [OF this] i ph show ?thesis by (simp add: sem_ok_def eqs cnt_update nth_append)
    qed
    have maps: "q < Suc (length (sems s)) \<and> 0 < count (h' ! q)"
      if "(k, q) \<in> set (semaphores (limiter s)) \<or> q = length (sems s)" for k q
      using that D(5,6) [of k q] by (auto simp: eqs nth_append)
    have fresh: "length (sems s) \<notin> snd ` set (semaphores (limiter s))"
      by (auto dest: D(5))
    have new: "map_of (semaphores c') ?k = Some p" by (simp add: eqs)
    have old: "map_of (semaphores c') k = Some q" if "map_of (semaphores (limiter s)) k = Some q" for k q
      using that None by (auto simp: eqs)
    from calls [OF new old] have calls': "\<forall>c \<in> set (calls ?s). call_mapped ?s c \<and> \<not> panicked (phase c)"
      by simp
    from D(2,3) fresh have "gowf (semaphores c')" "distinct (map snd (semaphores c'))"
      by (simp_all add: eqs upd [symmetric]) (simp add: upd)
    then show ?thesis
      unfolding limit_inv_def
      using D(1,9,10) calls' sem maps i ph
      by (auto simp: eqs upd cnt_update)
  next
    case (Some q)
    with get have eqs: "p = q" "c' = limiter s"
      "h' = (sems s)[q := (sems s ! q)\<lparr>count := count (sems s ! q) + 1\<rparr>]"
      by (auto simp: getSemaphore_def)
    from Some have q: "q < length (sems s)" by (blast intro: D(5) dest: map_of_SomeD)
    have sem: "sem_ok ?s r" if "r < length (sems s)" for r
      using D(4) [OF that] i ph that by (cases "r = q") (auto simp: sem_ok_def eqs cnt_update)
    have maps: "r < length (sems s) \<and> 0 < count (h' ! r)" if "(k, r) \<in> set (semaphores (limiter s))" for k r
      using D(5,6) [OF that] by (cases "r = q") (auto simp: eqs)
    have "\<forall>c \<in> set (calls ?s). call_mapped ?s c \<and> \<not> panicked (phase c)"
      using calls Some by (simp add: eqs)
    then show ?thesis
      unfolding limit_inv_def
      using D(1,2,3,9,10) sem maps i ph by (auto simp: eqs cnt_update)
  qed
qed

lemma putSemaphore_inv:
  assumes inv: "limit_inv m s" and i: "i < length (calls s)" and ph: "phase (calls s ! i) = Leaving p"
  obtains c' h' where "putSemaphore (lockKey (calls s ! i)) (limiter s) (sems s) = Inr (c', h')"
    and "limit_inv m (goto i Returned (s\<lparr>limiter := c', sems := h'\<rparr>))"
proof -
  let ?k = "lockKey (calls s ! i)"
  note D = limit_invD [OF inv]
  define n where "n = count (sems s ! p)"
  from pointer_mapped [OF inv nth_mem [OF i]] ph
  have kp: "(?k, p) \<in> set (semaphores (limiter s))" and p: "p < length (sems s)" by auto
  with D(2) have look: "map_of (semaphores (limiter s)) ?k = Some p" by (simp add: gowf_def)
  have n: "0 < n" unfolding n_def by (rule D(6) [OF kp])
  define c' where "c' = (if n - 1 = 0
    then limiter s\<lparr>semaphores := AList.delete ?k (semaphores (limiter s))\<rparr> else limiter s)"
  define h' where "h' = (sems s)[p := (sems s ! p)\<lparr>count := n - 1\<rparr>]"
  let ?s = "goto i Returned (s\<lparr>limiter := c', sems := h'\<rparr>)"
  have put: "putSemaphore ?k (limiter s) (sems s) = Inr (c', h')"
    using n look by (simp add: putSemaphore_def c'_def h'_def n_def)
  have sub: "set (semaphores c') \<subseteq> set (semaphores (limiter s))"
    by (simp add: c'_def AList.delete_eq)
  have wf: "gowf (semaphores c')" "distinct (map snd (semaphores c'))"
    using D(2,3) by (auto simp: c'_def AList.delete_eq gowf_filter distinct_map_filter)
  have mc: "max_calls c' = m" using D(1) by (simp add: c'_def)
  have sem: "sem_ok ?s q" if "q < length (sems s)" for q
    using D(1) D(4) [OF that] i ph p mc by (cases "q = p") (auto simp: sem_ok_def cnt_update h'_def n_def)
  have maps: "q < length (sems s) \<and> 0 < count (h' ! q)" if kq: "(k, q) \<in> set (semaphores c')" for k q
  proof -
    from kq sub have old: "(k, q) \<in> set (semaphores (limiter s))" by blast
    have "n - 1 \<noteq> 0" if "q = p"
    proof
      assume "n - 1 = 0"
      with kq have "k \<noteq> ?k" by (auto simp: c'_def AList.delete_eq)
      with same_pointer_same_key [OF inv old] kp that show False by blast
    qed
    with D(5,6) [OF old] n p show ?thesis by (cases "q = p") (auto simp: h'_def)
  qed
  have call: "call_mapped ?s c \<and> \<not> panicked (phase c)"
    if "c \<in> set ((calls s)[i := (calls s ! i)\<lparr>phase := Returned\<rparr>])" for c
    using that
  proof (cases rule: set_list_update_cases)
    case 1
    then show ?thesis by (simp add: call_mapped_alt)
  next
    case 2
    have "map_of (semaphores c') (lockKey c) = Some q" if q: "pointer (phase c) = Some q" for q
    proof (cases "n - 1 = 0 \<and> lockKey c = ?k")
      case True
      with D(7) [OF 2] q look have "q = p" by (simp add: call_mapped_alt)
      with q that have "list_ex (\<lambda>c. pointer (phase c) = Some p) ((calls s)[i := (calls s ! i)\<lparr>phase := Returned\<rparr>])"
        using \<open>c \<in> set ((calls s)[i := _])\<close> by (auto simp: list_ex_iff)
      then have "0 < cnt (\<lambda>c. pointer (phase c) = Some p) (calls ?s)" by (simp add: cnt_pos_iff)
      with sem [OF p] True p show ?thesis by (simp add: sem_ok_def h'_def)
    next
      case False
      with D(7) [OF 2] q show ?thesis by (auto simp: call_mapped_alt c'_def delete_conv')
    qed
    with D(8) [OF 2] show ?thesis by (simp add: call_mapped_alt)
  qed
  have "limit_inv m ?s"
    unfolding limit_inv_def using wf mc sem maps call D(9,10) i ph by (auto simp: cnt_update h'_def)
  with put show ?thesis by (rule that)
qed

lemma new_call_inv:
  assumes "limit_inv m s"
  shows "limit_inv m (s\<lparr>calls := calls s @ [\<lparr>lockKey = key, phase = Called\<rparr>]\<rparr>)"
  using assms by (auto simp: limit_inv_def sem_ok_def call_mapped_alt)

lemma token_pointer: "token_of ph = Some p \<Longrightarrow> pointer ph = Some p"
  by (cases ph) auto

text \<open>A call that has a token can give it back, since the channel holds one value per such call.\<close>

lemma token_available:
  assumes "limit_inv m s" "i < length (calls s)" "token_of (phase (calls s ! i)) = Some p"
  shows "0 < tokens (sems s ! p)" "int (tokens (sems s ! p)) \<le> max 0 m"
proof -
  from pointer_mapped(2) [OF assms(1) nth_mem [OF assms(2)] token_pointer [OF assms(3)]]
  have "sem_ok s p" by (rule limit_invD(4) [OF assms(1)])
  with cnt_nth [of i "calls s" "\<lambda>c. token_of (phase c) = Some p"] assms limit_invD(1) [OF assms(1)]
  show "0 < tokens (sems s ! p)" "int (tokens (sems s ! p)) \<le> max 0 m"
    by (auto simp: sem_ok_def)
qed

lemma Limit_step_inv:
  assumes inv: "limit_inv m s" and i: "i < length (calls s)" and st: "Limit_step ctxDone i s = Some s'"
  shows "limit_inv m s'"
proof (cases "phase (calls s ! i)")
  case Called
  with st goto_inv [OF inv i, of Unlimited "monitor s"] goto_inv [OF inv i, of InQueue "Queued (monitor s)"]
  show ?thesis by (auto simp: Limit_step_def Let_def Queued_def split: if_splits)
next
  case Unlimited
  with st goto_inv [OF inv i, of Returned "monitor s"] show ?thesis by (auto simp: Limit_step_def Let_def)
next
  case InQueue
  with st getSemaphore_inv [OF inv i InQueue] show ?thesis
    by (auto simp: Limit_step_def Let_def split: prod.splits)
next
  case (Acquiring p)
  from pointer_mapped(2) [OF inv nth_mem [OF i]] Acquiring have "sem_ok s p"
    by (auto intro: limit_invD(4) [OF inv])
  with st Acquiring goto_inv [OF inv i, of "Cancelled p" "monitor s"]
    token_inv [OF inv i, of p "Acquired p" "(sems s ! p)\<lparr>tokens := tokens (sems s ! p) + 1\<rparr>"] limit_invD(1) [OF inv]
  show ?thesis by (auto simp: Limit_step_def Let_def acquire_def split: if_splits)
next
  case (Acquired p)
  with st goto_inv [OF inv i, of "Entering p" "Dequeued (monitor s)"] show ?thesis
    by (auto simp: Limit_step_def Let_def Dequeued_def)
next
  case (Cancelled p)
  with st goto_inv [OF inv i, of "Leaving p" "Dequeued (monitor s)"] show ?thesis
    by (auto simp: Limit_step_def Let_def Dequeued_def)
next
  case (Entering p)
  with st goto_inv [OF inv i, of "Running p" "Enter (monitor s)"] show ?thesis
    by (auto simp: Limit_step_def Let_def Enter_def)
next
  case (Running p)
  with st goto_inv [OF inv i, of "Exited p" "Exit (monitor s)"] show ?thesis
    by (auto simp: Limit_step_def Let_def Exit_def)
next
  case (Exited p)
  then have tok: "0 < tokens (sems s ! p)" "int (tokens (sems s ! p)) \<le> max 0 m"
    using token_available [OF inv i, of p] by simp_all
  have "limit_inv m (goto i (Leaving p) (s\<lparr>sems := (sems s)[p := (sems s ! p)\<lparr>tokens := tokens (sems s ! p) - 1\<rparr>]\<rparr>))"
    by (rule token_inv [OF inv i]) (use Exited tok in \<open>simp_all add: of_nat_diff\<close>)
  with st Exited tok show ?thesis by (simp add: Limit_step_def Let_def release_def)
next
  case (Leaving p)
  from putSemaphore_inv [OF inv i this] obtain c' h' where
    "putSemaphore (lockKey (calls s ! i)) (limiter s) (sems s) = Inr (c', h')"
    and res: "limit_inv m (goto i Returned (s\<lparr>limiter := c', sems := h'\<rparr>))" .
  with st Leaving have "s' = goto i Returned (s\<lparr>limiter := c', sems := h'\<rparr>)"
    by (simp add: Limit_step_def Let_def)
  with res show ?thesis by simp
qed (use st in \<open>simp_all add: Limit_step_def Let_def\<close>)

interpretation limiter: step_invariant limit_run_step "limit_inv m"
  by unfold_locales (auto elim!: limit_run_step.cases intro: new_call_inv Limit_step_inv)

lemma limit_start_inv: "limit_inv m (limit_start m)"
  by (simp add: limit_inv_def limit_start_def NewLimiter_def NewPromMonitor_def)

lemma limit_reachable_inv: "limit_run_step\<^sup>*\<^sup>* (limit_start m) s \<Longrightarrow> limit_inv m s"
  by (rule limiter.run_inv [OF _ limit_start_inv])

section \<open>Properties\<close>

text \<open>Two calls with the same key that hold semaphores hold the same one.\<close>

lemma key_pointer:
  assumes "limit_inv m s" and "c \<in> set (calls s)" "c' \<in> set (calls s)" and "lockKey c = lockKey c'"
    and "pointer (phase c) = Some p" "pointer (phase c') = Some q"
  shows "p = q"
  using limit_invD(7) [OF assms(1,2)] limit_invD(7) [OF assms(1,3)] assms(4-6)
  by (simp add: call_mapped_alt)

definition running_calls :: "string \<Rightarrow> limit_sys \<Rightarrow> nat" where
  "running_calls key s = length (filter (\<lambda>c. lockKey c = key \<and> running (phase c)) (calls s))"

lemma running_token: "running ph \<Longrightarrow> token_of ph \<noteq> None \<and> pointer ph = token_of ph"
  by (cases ph) auto

lemma filter_imp_length: "(\<And>x. x \<in> set xs \<Longrightarrow> P x \<Longrightarrow> Q x) \<Longrightarrow> length (filter P xs) \<le> length (filter Q xs)"
  by (induction xs) (auto simp: le_SucI)

text \<open>
  C24. However many calls arrive and however they interleave, and whatever becomes of their contexts,
  at most \<open>max\<close> calls with the same lock key run their function at the same time, when the limit is
  positive.
\<close>

theorem limit_bounds_calls:
  assumes "limit_run_step\<^sup>*\<^sup>* (limit_start m) s" and "0 < m"
  shows "int (running_calls key s) \<le> m"
proof (cases "list_ex (\<lambda>c. lockKey c = key \<and> running (phase c)) (calls s)")
  case True
  from assms(1) have inv: "limit_inv m s" by (rule limit_reachable_inv)
  from True obtain c where c: "c \<in> set (calls s)" "lockKey c = key" "running (phase c)"
    by (auto simp: list_ex_iff)
  then obtain p where p: "pointer (phase c) = Some p" using running_token [OF c(3)] by auto
  from pointer_mapped(2) [OF inv c(1) p] have ok: "sem_ok s p" by (rule limit_invD(4) [OF inv])
  have "running_calls key s \<le> length (filter (\<lambda>c. token_of (phase c) = Some p) (calls s))"
    unfolding running_calls_def
  proof (rule filter_imp_length)
    fix c' assume "c' \<in> set (calls s)" "lockKey c' = key \<and> running (phase c')"
    with running_token [of "phase c'"] key_pointer [OF inv c(1), of c'] c(2) p
    show "token_of (phase c') = Some p" by auto
  qed
  with ok assms(2) limit_invD(1) [OF inv] show ?thesis by (simp add: sem_ok_def cnt_def)
qed (use assms in \<open>auto simp: running_calls_def list_ex_iff filter_empty_conv\<close>)

fun finished :: "phase \<Rightarrow> bool" where
  "finished Returned = True"
| "finished (Panicked e) = True"
| "finished ph = False"

text \<open>
  No call of \<open>Limit\<close> panics in \<open>putSemaphore\<close>, and once all calls have returned, the map holds no
  semaphore and both gauges of the monitor are back at zero.
\<close>

theorem limiter_leaves_nothing:
  assumes "limit_run_step\<^sup>*\<^sup>* (limit_start m) s"
  shows "list_all (\<lambda>c. \<not> panicked (phase c)) (calls s) \<and>
    (list_all (\<lambda>c. finished (phase c)) (calls s) \<longrightarrow>
     countSemaphores (limiter s) = 0 \<and> queuedGauge (monitor s) = 0 \<and> inprogressGauge (monitor s) = 0)"
proof -
  from assms have inv: "limit_inv m s" by (rule limit_reachable_inv)
  note D = limit_invD [OF inv]
  have ok: "list_all (\<lambda>c. \<not> panicked (phase c)) (calls s)" using D(8) by (simp add: list_all_iff)
  have "countSemaphores (limiter s) = 0 \<and> queuedGauge (monitor s) = 0 \<and> inprogressGauge (monitor s) = 0"
    if all: "list_all (\<lambda>c. finished (phase c)) (calls s)"
  proof -
    have fin: "pointer (phase c) = None \<and> \<not> queued (phase c) \<and> \<not> running (phase c)"
      if "c \<in> set (calls s)" for c
      using all that by (cases "phase c") (auto simp: list_all_iff)
    have "count (sems s ! p) = 0" if "p < length (sems s)" for p
      using D(4) [OF that] fin by (simp add: sem_ok_def cnt_def filter_False)
    then have "semaphores (limiter s) = []"
      using D(5,6) by (metis less_irrefl list.set_intros(1) neq_Nil_conv surj_pair)
    with D(9,10) fin show ?thesis by (simp add: countSemaphores_def cnt_def filter_False)
  qed
  with ok show ?thesis by blast
qed


section \<open>Concrete runs\<close>

text \<open>A schedule: \<open>Inl key\<close> starts a call, \<open>Inr (ctxDone, i)\<close> advances call \<open>i\<close>.\<close>

fun limit_exec :: "(string + bool \<times> nat) list \<Rightarrow> limit_sys \<Rightarrow> limit_sys option" where
  "limit_exec [] s = Some s"
| "limit_exec (Inl key # xs) s = limit_exec xs (s\<lparr>calls := calls s @ [\<lparr>lockKey = key, phase = Called\<rparr>]\<rparr>)"
| "limit_exec (Inr (ctxDone, i) # xs) s =
     (if i < length (calls s)
      then (case Limit_step ctxDone i s of None \<Rightarrow> None | Some s' \<Rightarrow> limit_exec xs s') else None)"

lemma limit_exec_reachable: "limit_exec xs s = Some s' \<Longrightarrow> limit_run_step\<^sup>*\<^sup>* s s'"
  by (induction xs s rule: limit_exec.induct)
    (auto split: if_splits option.splits intro: limit_run_step.intros converse_rtranclp_into_rtranclp)

definition two_calls :: "(string + bool \<times> nat) list" where
  "two_calls = [Inl ''repo'', Inl ''repo'', Inr (False, 0), Inr (False, 1), Inr (False, 0), Inr (False, 1),
     Inr (False, 0), Inr (False, 0), Inr (False, 0)]"

definition both_leave :: "(string + bool \<times> nat) list" where
  "both_leave = [Inr (True, 1), Inr (False, 0), Inr (False, 0), Inr (False, 0), Inr (False, 1), Inr (False, 1)]"

definition wit_busy :: limit_sys where
  "wit_busy = the (limit_exec two_calls (limit_start 1))"

definition wit_idle :: limit_sys where
  "wit_idle = the (limit_exec both_leave wit_busy)"

lemma wit_busy_run: "limit_run_step\<^sup>*\<^sup>* (limit_start 1) wit_busy"
proof (rule limit_exec_reachable)
  show "limit_exec two_calls (limit_start 1) = Some wit_busy" by code_simp
qed

lemma wit_idle_run: "limit_run_step\<^sup>*\<^sup>* (limit_start 1) wit_idle"
proof (rule rtranclp_trans [OF wit_busy_run limit_exec_reachable])
  show "limit_exec both_leave wit_busy = Some wit_idle" by code_simp
qed

theorem limit_bounds_calls_witness:
  "running_calls ''repo'' wit_busy = 1 \<and> int (running_calls ''repo'' wit_busy) \<le> 1"
  using limit_bounds_calls [OF wit_busy_run, of "''repo''"] by simp code_simp

theorem limiter_leaves_nothing_witness:
  "length (calls wit_idle) = 2 \<and> countSemaphores (limiter wit_idle) = 0 \<and>
   queuedGauge (monitor wit_idle) = 0 \<and> inprogressGauge (monitor wit_idle) = 0"
proof -
  have "list_all (\<lambda>c. finished (phase c)) (calls wit_idle)" "length (calls wit_idle) = 2" by code_simp+
  with limiter_leaves_nothing [OF wit_idle_run] show ?thesis by blast
qed


end
