(* ===== verification/Storage_Cache.thy ===== *)
theory Storage_Cache
  imports Praefect_Prelude
begin

text \<open>
  The cache of consistent storages, \<open>internal/praefect/datastore/storage_provider.go\<close>. The LRU cache
  is a third-party package: its four operations are a record of functions, and \<open>lru_ok\<close> states what
  the package documents of them. The database behind \<open>csg\<close> is a function from a virtual storage and a
  relative path to the reply it would give now; every change of it is announced on the notification
  channel while the listener is connected.

  A call of \<open>GetConsistentStorages\<close> is a program counter; every access to shared memory is a step.
  The flags \<open>overtaken\<close> and the list \<open>tainted\<close> are not part of the program: they record which calls
  had their cache cleared behind their back, and which entries such calls stored.
\<close>

section \<open>The LRU cache\<close>

type_synonym storages = "string list"

record 'c LRU =
  Get :: "'c \<Rightarrow> string \<Rightarrow> 'c \<times> storages option"
  Add :: "'c \<Rightarrow> string \<Rightarrow> storages \<Rightarrow> 'c"
  Remove :: "'c \<Rightarrow> string \<Rightarrow> 'c"
  Purge :: "'c \<Rightarrow> 'c"

definition cached :: "'c LRU \<Rightarrow> 'c \<Rightarrow> string \<Rightarrow> storages option" where
  "cached L c k = snd (Get L c k)"

text \<open>
  Looking up a key changes no entry; an addition stores its value and may evict others; a removal
  removes; a purge removes everything.
\<close>

definition lru_ok :: "'c LRU \<Rightarrow> bool" where
  "lru_ok L \<longleftrightarrow>
     (\<forall>c k k'. cached L (fst (Get L c k)) k' = cached L c k') \<and>
     (\<forall>c k v x. cached L (Add L c k v) k = Some x \<longrightarrow> x = v) \<and>
     (\<forall>c k v k' x. k' \<noteq> k \<longrightarrow> cached L (Add L c k v) k' = Some x \<longrightarrow> cached L c k' = Some x) \<and>
     (\<forall>c k. cached L (Remove L c k) k = None) \<and>
     (\<forall>c k k' x. cached L (Remove L c k) k' = Some x \<longrightarrow> cached L c k' = Some x) \<and>
     (\<forall>c k. cached L (Purge L c) k = None)"

section \<open>The getter\<close>

text \<open>
  A channel of the syncer is an index; \<open>closed\<close> tells for every channel made whether it is closed.
\<close>

record 'c Getter =
  caches :: "(string, 'c) gomap"
  access :: bool
  inflight :: "(string, nat) gomap"
  closed :: "bool list"

record notificationEntry =
  VirtualStorage :: string
  RelativePaths :: "string list"

definition NewCachingConsistentStoragesGetter :: "'c \<Rightarrow> string list \<Rightarrow> 'c Getter" where
  "NewCachingConsistentStoragesGetter fresh virtualStorages =
     \<lparr>caches = fold (\<lambda>vs m. AList.update vs fresh m) virtualStorages [], access = False, inflight = [], closed = []\<rparr>"

definition enableCaching :: "'c Getter \<Rightarrow> 'c Getter" where
  "enableCaching g = g\<lparr>access := True\<rparr>"

definition disableCaching :: "'c LRU \<Rightarrow> 'c Getter \<Rightarrow> 'c Getter" where
  "disableCaching L g = g\<lparr>access := False, caches := map (\<lambda>p. (fst p, Purge L (snd p))) (caches g)\<rparr>"

definition getCache :: "'c Getter \<Rightarrow> string \<Rightarrow> 'c option" where
  "getCache g virtualStorage = map_of (caches g) virtualStorage"

definition remove_paths :: "'c LRU \<Rightarrow> notificationEntry \<Rightarrow> 'c Getter \<Rightarrow> 'c Getter" where
  "remove_paths L entry g =
     (case getCache g (VirtualStorage entry) of
        None \<Rightarrow> g
      | Some c \<Rightarrow>
          g\<lparr>caches := AList.update (VirtualStorage entry) (fold (\<lambda>path c. Remove L c path) (RelativePaths entry) c) (caches g)\<rparr>)"

text \<open>\<open>None\<close> is a payload that does not decode.\<close>

definition Notification :: "'c LRU \<Rightarrow> notificationEntry list option \<Rightarrow> 'c Getter \<Rightarrow> 'c Getter" where
  "Notification L payload g =
     (case payload of
        None \<Rightarrow> disableCaching L g
      | Some changes \<Rightarrow> fold (remove_paths L) changes g)"

definition Connected :: "'c Getter \<Rightarrow> 'c Getter" where
  "Connected g = enableCaching g"

definition Disconnect :: "'c LRU \<Rightarrow> 'c Getter \<Rightarrow> 'c Getter" where
  "Disconnect L g = disableCaching L g"

text \<open>\<open>getKey\<close>, with the use of the key that the cache notes.\<close>

definition getKey :: "'c LRU \<Rightarrow> string \<Rightarrow> string \<Rightarrow> 'c Getter \<Rightarrow> 'c Getter \<times> storages option" where
  "getKey L vs path g =
     (case getCache g vs of
        None \<Rightarrow> (g, None)
      | Some c \<Rightarrow> (g\<lparr>caches := AList.update vs (fst (Get L c path)) (caches g)\<rparr>, snd (Get L c path)))"

definition addKey :: "'c LRU \<Rightarrow> string \<Rightarrow> string \<Rightarrow> storages \<Rightarrow> 'c Getter \<Rightarrow> 'c Getter" where
  "addKey L vs path v g =
     (case getCache g vs of
        None \<Rightarrow> g
      | Some c \<Rightarrow> g\<lparr>caches := AList.update vs (Add L c path v) (caches g)\<rparr>)"

text \<open>
  \<open>await\<close>: \<open>Inl\<close> is the channel to wait for, \<open>Inr\<close> the channel of the key that is now acquired.
\<close>

definition await :: "string \<Rightarrow> 'c Getter \<Rightarrow> 'c Getter \<times> (nat + nat)" where
  "await key g =
     (case map_of (inflight g) key of
        Some cond \<Rightarrow> (g, Inl cond)
      | None \<Rightarrow>
          (g\<lparr>inflight := AList.update key (length (closed g)) (inflight g), closed := closed g @ [False]\<rparr>,
           Inr (length (closed g))))"

definition release_key :: "string \<Rightarrow> nat \<Rightarrow> 'c Getter \<Rightarrow> 'c Getter" where
  "release_key key cond g = g\<lparr>inflight := AList.delete key (inflight g), closed := (closed g)[cond := True]\<rparr>"

section \<open>Calls\<close>

datatype csg_err = RepositoryNotFound | DatabaseErr

type_synonym reply = "csg_err + storages"

text \<open>
  The control points of \<open>GetConsistentStorages\<close>. An optional channel is the key that \<open>populateDone\<close>
  releases; \<open>Reading False\<close> is a call without a cache.
\<close>

datatype get_phase =
  Begin | Trying | Awaiting | Waiting nat | Checking "nat option" | Reading bool "nat option"
  | Populating storages "nat option" | Releasing reply "nat option" | Done reply

record get_call =
  call_vs :: string
  call_path :: string
  at :: get_phase
  overtaken :: bool

datatype connection = Up | Lost | Down

record 'c cache_sys =
  getter :: "'c Getter"
  db :: "string \<times> string \<Rightarrow> reply"
  announced :: "notificationEntry list list"
  conn :: connection
  gets :: "get_call list"
  tainted :: "(string \<times> string) list"

definition move :: "nat \<Rightarrow> get_phase \<Rightarrow> 'c cache_sys \<Rightarrow> 'c cache_sys" where
  "move i ph s = s\<lparr>gets := (gets s)[i := (gets s ! i)\<lparr>at := ph\<rparr>]\<rparr>"

definition get_step :: "'c LRU \<Rightarrow> nat \<Rightarrow> 'c cache_sys \<Rightarrow> 'c cache_sys option" where
  "get_step L i s =
     (let g = getter s; c = gets s ! i; vs = call_vs c; path = call_path c in
      case at c of
        Begin \<Rightarrow> Some (move i (if access g then Trying else Reading False None) s)
      | Trying \<Rightarrow>
          (if getCache g vs = None then Some (move i (Reading False None) s)
           else case getKey L vs path g of
                  (g', Some v) \<Rightarrow> Some (move i (Releasing (Inr v) None) (s\<lparr>getter := g'\<rparr>))
                | (g', None) \<Rightarrow> Some (move i Awaiting (s\<lparr>getter := g'\<rparr>)))
      | Awaiting \<Rightarrow>
          (case await path g of
             (g', Inl cond) \<Rightarrow> Some (move i (Waiting cond) (s\<lparr>getter := g'\<rparr>))
           | (g', Inr cond) \<Rightarrow> Some (move i (Checking (Some cond)) (s\<lparr>getter := g'\<rparr>)))
      | Waiting cond \<Rightarrow> if closed g ! cond then Some (move i (Checking None) s) else None
      | Checking own \<Rightarrow>
          (case getKey L vs path g of
             (g', Some v) \<Rightarrow> Some (move i (Releasing (Inr v) own) (s\<lparr>getter := g'\<rparr>))
           | (g', None) \<Rightarrow> Some (move i (Reading True own) (s\<lparr>getter := g'\<rparr>)))
      | Reading useCache own \<Rightarrow>
          (case db s (vs, path) of
             Inl err \<Rightarrow> Some (move i (Releasing (Inl err) own) s)
           | Inr v \<Rightarrow> Some (move i (if useCache then Populating v own else Releasing (Inr v) own) s))
      | Populating v own \<Rightarrow>
          Some (move i (Releasing (Inr v) own)
            (s\<lparr>getter := addKey L vs path v g,
               tainted := if overtaken c then (vs, path) # tainted s else tainted s\<rparr>))
      | Releasing r own \<Rightarrow>
          (case own of
             None \<Rightarrow> Some (move i (Done r) s)
           | Some cond \<Rightarrow> Some (move i (Done r) (s\<lparr>getter := release_key path cond g\<rparr>)))
      | Done r \<Rightarrow> None)"

section \<open>The system\<close>

fun uses_cache :: "get_phase \<Rightarrow> bool" where
  "uses_cache Begin = False"
| "uses_cache (Reading useCache own) = useCache"
| "uses_cache (Releasing r own) = False"
| "uses_cache (Done r) = False"
| "uses_cache ph = True"

fun populating :: "get_phase \<Rightarrow> bool" where
  "populating (Populating v own) = True"
| "populating ph = False"

definition covers :: "notificationEntry list \<Rightarrow> string \<times> string \<Rightarrow> bool" where
  "covers changes key \<longleftrightarrow> list_ex (\<lambda>e. VirtualStorage e = fst key \<and> snd key \<in> set (RelativePaths e)) changes"

definition call_key :: "get_call \<Rightarrow> string \<times> string" where
  "call_key c = (call_vs c, call_path c)"

definition overtake :: "(get_call \<Rightarrow> bool) \<Rightarrow> 'c cache_sys \<Rightarrow> 'c cache_sys" where
  "overtake P s = s\<lparr>gets := map (\<lambda>c. if P c then c\<lparr>overtaken := True\<rparr> else c) (gets s)\<rparr>"

text \<open>
  The steps of the system: a new call, a step of a call, a change of the database, the delivery of
  the next notification, a payload that does not decode, the loss of the connection, the callback
  \<open>Disconnect\<close>, a new connection, and the callback \<open>Connected\<close>.
\<close>

inductive cache_step :: "'c LRU \<Rightarrow> 'c cache_sys \<Rightarrow> 'c cache_sys \<Rightarrow> bool" for L where
  get: "cache_step L s (s\<lparr>gets := gets s @ [\<lparr>call_vs = vs, call_path = path, at = Begin, overtaken = False\<rparr>]\<rparr>)"
| advance: "i < length (gets s) \<Longrightarrow> get_step L i s = Some s' \<Longrightarrow> cache_step L s s'"
| change: "cache_step L s (s\<lparr>db := (db s)(key := r),
    announced := if conn s = Up then announced s @ [[\<lparr>VirtualStorage = fst key, RelativePaths = [snd key]\<rparr>]]
                 else announced s\<rparr>)"
| deliver: "announced s = changes # rest \<Longrightarrow>
    cache_step L s (overtake (\<lambda>c. populating (at c) \<and> covers changes (call_key c))
      (s\<lparr>getter := Notification L (Some changes) (getter s), announced := rest\<rparr>))"
| garbled: "announced s = changes # rest \<Longrightarrow>
    cache_step L s (overtake (\<lambda>c. uses_cache (at c)) (s\<lparr>getter := Notification L None (getter s), announced := rest\<rparr>))"
| lose: "conn s = Up \<Longrightarrow> cache_step L s (s\<lparr>conn := Lost, announced := []\<rparr>)"
| disconnect: "conn s = Lost \<Longrightarrow>
    cache_step L s (overtake (\<lambda>c. uses_cache (at c)) (s\<lparr>getter := Disconnect L (getter s), conn := Down\<rparr>))"
| reconnect: "conn s = Down \<Longrightarrow> cache_step L s (s\<lparr>conn := Up\<rparr>)"
| connected: "conn s = Up \<Longrightarrow> cache_step L s (s\<lparr>getter := Connected (getter s)\<rparr>)"

definition cache_start :: "'c \<Rightarrow> string list \<Rightarrow> (string \<times> string \<Rightarrow> reply) \<Rightarrow> 'c cache_sys" where
  "cache_start fresh virtualStorages d =
     \<lparr>getter = NewCachingConsistentStoragesGetter fresh virtualStorages, db = d, announced = [], conn = Down,
      gets = [], tainted = []\<rparr>"

section \<open>What the operations do to the entries\<close>

definition cachedAt :: "'c LRU \<Rightarrow> 'c Getter \<Rightarrow> string \<times> string \<Rightarrow> storages option" where
  "cachedAt L g key = (case getCache g (fst key) of None \<Rightarrow> None | Some c \<Rightarrow> cached L c (snd key))"

lemma lru_okD:
  assumes "lru_ok L"
  shows "cached L (fst (Get L c k)) k' = cached L c k'"
    "cached L (Add L c k v) k = Some x \<Longrightarrow> x = v"
    "k' \<noteq> k \<Longrightarrow> cached L (Add L c k v) k' = Some x \<Longrightarrow> cached L c k' = Some x"
    "cached L (Remove L c k) k = None"
    "cached L (Remove L c k) k' = Some x \<Longrightarrow> cached L c k' = Some x"
    "cached L (Purge L c) k = None"
  using assms unfolding lru_ok_def by blast+

lemma cachedAt_cong: "caches g = caches g' \<Longrightarrow> cachedAt L g = cachedAt L g'"
  by (simp add: cachedAt_def getCache_def fun_eq_iff)

lemma getKey_entries:
  assumes "lru_ok L"
  shows "cachedAt L (fst (getKey L vs path g)) key = cachedAt L g key"
    "snd (getKey L vs path g) = cachedAt L g (vs, path)"
proof -
  show "cachedAt L (fst (getKey L vs path g)) key = cachedAt L g key"
    using lru_okD(1) [OF assms] by (auto simp: getKey_def cachedAt_def getCache_def split: option.split)
  show "snd (getKey L vs path g) = cachedAt L g (vs, path)"
    by (auto simp: getKey_def cachedAt_def getCache_def cached_def split: option.split)
qed

lemma getKey_frame:
  "access (fst (getKey L vs path g)) = access g" "inflight (fst (getKey L vs path g)) = inflight g"
  "closed (fst (getKey L vs path g)) = closed g"
  by (auto simp: getKey_def split: option.split)

lemma getKey_result:
  assumes "lru_ok L" and "getKey L vs path g = (g', r)"
  shows "cachedAt L g' = cachedAt L g" "access g' = access g" "r = cachedAt L g (vs, path)"
  using getKey_entries [OF assms(1), of vs path g] getKey_frame(1) [of L vs path g] assms(2)
  by (auto simp: fun_eq_iff)

lemma addKey_entries:
  assumes "lru_ok L" and "cachedAt L (addKey L vs path v g) key = Some x"
  shows "key = (vs, path) \<and> x = v \<or> cachedAt L g key = Some x"
proof (cases "getCache g vs")
  case None
  with assms(2) show ?thesis by (simp add: addKey_def)
next
  case (Some c)
  obtain vs' k where key: "key = (vs', k)" by (cases key)
  show ?thesis
  proof (cases "vs' = vs")
    case True
    with Some assms(2) have "cached L (Add L c path v) k = Some x"
      by (simp add: key addKey_def cachedAt_def getCache_def)
    then have "k = path \<and> x = v \<or> cached L c k = Some x"
      using lru_okD(2) [OF assms(1), of c path v x] lru_okD(3) [OF assms(1), of k path c v x] by blast
    with Some True show ?thesis by (auto simp: key cachedAt_def)
  next
    case False
    with Some assms(2) show ?thesis by (simp add: key addKey_def cachedAt_def getCache_def)
  qed
qed

lemma addKey_frame:
  "access (addKey L vs path v g) = access g" "inflight (addKey L vs path v g) = inflight g"
  "closed (addKey L vs path v g) = closed g"
  by (auto simp: addKey_def split: option.split)

lemma disableCaching_entries:
  assumes "lru_ok L"
  shows "cachedAt L (disableCaching L g) key = None"
  using lru_okD(6) [OF assms]
  by (auto simp: disableCaching_def cachedAt_def getCache_def map_of_map_entries split: option.split)

lemma fold_Remove:
  assumes "lru_ok L" and "cached L (fold (\<lambda>path c. Remove L c path) paths c) k = Some x"
  shows "cached L c k = Some x \<and> k \<notin> set paths"
  using assms(2)
proof (induction paths arbitrary: c)
  case (Cons p ps)
  then have "cached L (Remove L c p) k = Some x" "k \<notin> set ps" by auto
  moreover from this have "k \<noteq> p" using lru_okD(4) [OF assms(1)] by auto
  moreover from calculation have "cached L c k = Some x" by (blast intro: lru_okD(5) [OF assms(1)])
  ultimately show ?case by simp
qed simp

lemma remove_paths_entries:
  assumes "lru_ok L" and "cachedAt L (remove_paths L e g) key = Some x"
  shows "cachedAt L g key = Some x \<and> \<not> (VirtualStorage e = fst key \<and> snd key \<in> set (RelativePaths e))"
proof (cases "getCache g (VirtualStorage e)")
  case None
  with assms(2) show ?thesis by (auto simp: remove_paths_def cachedAt_def)
next
  case (Some c)
  show ?thesis
  proof (cases "fst key = VirtualStorage e")
    case True
    with Some assms(2) have "cached L (fold (\<lambda>path c. Remove L c path) (RelativePaths e) c) (snd key) = Some x"
      by (simp add: remove_paths_def cachedAt_def getCache_def)
    from fold_Remove [OF assms(1) this] Some True show ?thesis by (simp add: cachedAt_def)
  next
    case False
    with Some assms(2) show ?thesis by (simp add: remove_paths_def cachedAt_def getCache_def)
  qed
qed

lemma Notification_entries:
  assumes "lru_ok L" and "cachedAt L (Notification L (Some changes) g) key = Some x"
  shows "cachedAt L g key = Some x \<and> \<not> covers changes key"
proof -
  from assms(2) have "cachedAt L (fold (remove_paths L) changes g) key = Some x" by (simp add: Notification_def)
  then show ?thesis
  proof (induction changes arbitrary: g)
    case (Cons e es)
    then have r: "cachedAt L (remove_paths L e g) key = Some x" "\<not> covers es key" by auto
    from remove_paths_entries [OF assms(1) r(1)] r(2) show ?case by (auto simp: covers_def)
  qed (simp add: covers_def)
qed

lemma Notification_frame:
  "access (Notification L (Some changes) g) = access g" "inflight (Notification L (Some changes) g) = inflight g"
  "closed (Notification L (Some changes) g) = closed g"
proof -
  have "access (remove_paths L e g) = access g \<and> inflight (remove_paths L e g) = inflight g \<and>
    closed (remove_paths L e g) = closed g" for e and g :: "'a Getter"
    by (simp add: remove_paths_def split: option.split)
  then have "access (fold (remove_paths L) changes g) = access g \<and>
    inflight (fold (remove_paths L) changes g) = inflight g \<and> closed (fold (remove_paths L) changes g) = closed g"
    by (induction changes arbitrary: g) simp_all
  then show "access (Notification L (Some changes) g) = access g" "inflight (Notification L (Some changes) g) = inflight g"
    "closed (Notification L (Some changes) g) = closed g"
    by (simp_all add: Notification_def)
qed

section \<open>Coherence\<close>

text \<open>A value for a key is current, or is about to be removed.\<close>

definition current :: "'c cache_sys \<Rightarrow> string \<times> string \<Rightarrow> storages \<Rightarrow> bool" where
  "current s key x \<longleftrightarrow>
     db s key = Inr x \<or> list_ex (\<lambda>changes. covers changes key) (announced s) \<or> conn s = Lost"

definition call_ok :: "'c cache_sys \<Rightarrow> get_call \<Rightarrow> bool" where
  "call_ok s c \<longleftrightarrow> overtaken c \<or>
     (\<forall>v own. at c = Populating v own \<longrightarrow> current s (call_key c) v) \<and>
     (conn s = Down \<longrightarrow> \<not> uses_cache (at c))"

definition cache_inv :: "'c LRU \<Rightarrow> 'c cache_sys \<Rightarrow> bool" where
  "cache_inv L s \<longleftrightarrow>
     (\<forall>key x. cachedAt L (getter s) key = Some x \<longrightarrow>
        key \<in> set (tainted s) \<or> current s key x \<and> conn s \<noteq> Down) \<and>
     (\<forall>c \<in> set (gets s). call_ok s c) \<and>
     (conn s = Down \<longrightarrow> \<not> access (getter s)) \<and>
     (conn s \<noteq> Up \<longrightarrow> announced s = [])"

lemma cache_invD:
  assumes "cache_inv L s"
  shows "cachedAt L (getter s) key = Some x \<Longrightarrow> key \<in> set (tainted s) \<or> current s key x \<and> conn s \<noteq> Down"
    "c \<in> set (gets s) \<Longrightarrow> call_ok s c" "conn s = Down \<Longrightarrow> \<not> access (getter s)"
    "conn s \<noteq> Up \<Longrightarrow> announced s = []"
  using assms unfolding cache_inv_def by blast+

lemma move_simps [simp]:
  "getter (move i ph s) = getter s" "db (move i ph s) = db s" "announced (move i ph s) = announced s"
  "conn (move i ph s) = conn s" "tainted (move i ph s) = tainted s"
  "gets (move i ph s) = (gets s)[i := (gets s ! i)\<lparr>at := ph\<rparr>]"
  by (simp_all add: move_def)

text \<open>A step of a call that stores nothing.\<close>

lemma move_inv:
  assumes inv: "cache_inv L s" and i: "i < length (gets s)"
    and same: "\<And>key x. cachedAt L g key = Some x \<Longrightarrow> cachedAt L (getter s) key = Some x" "access g = access (getter s)"
    and ph: "\<And>v own. ph = Populating v own \<Longrightarrow> db s (call_key (gets s ! i)) = Inr v"
    and use: "uses_cache ph \<Longrightarrow> uses_cache (at (gets s ! i)) \<or> access (getter s)"
  shows "cache_inv L (move i ph (s\<lparr>getter := g\<rparr>))"
proof -
  note D = cache_invD [OF inv]
  let ?s = "move i ph (s\<lparr>getter := g\<rparr>)"
  have cur: "current ?s = current s" by (simp add: current_def fun_eq_iff)
  have "call_ok ?s c" if "c \<in> set (gets ?s)" for c
  proof (cases "c \<in> set (gets s)")
    case True
    with D(2) [OF True] show ?thesis by (simp add: call_ok_def cur)
  next
    case False
    with that set_update_subset_insert have c: "c = (gets s ! i)\<lparr>at := ph\<rparr>" by fastforce
    from D(2) [OF nth_mem [OF i]] D(3) ph use show ?thesis
      by (auto simp: call_ok_def c cur current_def call_key_def)
  qed
  moreover have "key \<in> set (tainted ?s) \<or> current ?s key x \<and> conn ?s \<noteq> Down"
    if "cachedAt L (getter ?s) key = Some x" for key x
    using D(1) [OF same(1)] that by (simp add: cur)
  ultimately show ?thesis
    unfolding cache_inv_def using D(3,4) same(2) by simp
qed

lemma get_step_inv:
  assumes L: "lru_ok L" and inv: "cache_inv L s" and i: "i < length (gets s)" and st: "get_step L i s = Some s'"
  shows "cache_inv L s'"
proof -
  let ?c = "gets s ! i"
  note mv = move_inv [OF inv i]
  show ?thesis
  proof (cases "at ?c")
    case Begin
    with st mv [of "getter s" Trying] mv [of "getter s" "Reading False None"] show ?thesis
      by (auto simp: get_step_def Let_def split: if_splits)
  next
    case Trying
    obtain g' r where g: "getKey L (call_vs ?c) (call_path ?c) (getter s) = (g', r)" by (metis surj_pair)
    from getKey_result [OF L g]
    have g': "cachedAt L g' = cachedAt L (getter s)" "access g' = access (getter s)" by blast+
    with st Trying g mv [of g' "Releasing (Inr (the r)) None"] mv [of g' Awaiting] mv [of "getter s" "Reading False None"]
    show ?thesis by (auto simp: get_step_def Let_def split: if_splits option.splits)
  next
    case Awaiting
    obtain g' r where g: "await (call_path ?c) (getter s) = (g', r)" by (metis surj_pair)
    then have g': "caches g' = caches (getter s)" "access g' = access (getter s)"
      by (auto simp: await_def split: option.splits)
    from cachedAt_cong [OF g'(1), of L] g' st Awaiting g mv [of g' "Waiting (projl r)"] mv [of g' "Checking (Some (projr r))"]
    show ?thesis by (cases r) (auto simp: get_step_def Let_def)
  next
    case (Waiting cond)
    with st mv [of "getter s" "Checking None"] show ?thesis by (auto simp: get_step_def Let_def split: if_splits)
  next
    case (Checking own)
    obtain g' r where g: "getKey L (call_vs ?c) (call_path ?c) (getter s) = (g', r)" by (metis surj_pair)
    from getKey_result [OF L g]
    have g': "cachedAt L g' = cachedAt L (getter s)" "access g' = access (getter s)" by blast+
    with st Checking g mv [of g' "Releasing (Inr (the r)) own"] mv [of g' "Reading True own"]
    show ?thesis by (auto simp: get_step_def Let_def split: option.splits)
  next
    case (Reading useCache own)
    show ?thesis
    proof (cases "db s (call_vs ?c, call_path ?c)")
      case (Inl err)
      with st Reading mv [of "getter s" "Releasing (Inl err) own"] show ?thesis by (auto simp: get_step_def Let_def)
    next
      case (Inr v)
      with st Reading mv [of "getter s" "Populating v own"] mv [of "getter s" "Releasing (Inr v) own"] show ?thesis
        by (auto simp: get_step_def Let_def call_key_def split: if_splits)
    qed
  next
    case (Releasing r own)
    show ?thesis
    proof (cases own)
      case None
      with st Releasing mv [of "getter s" "Done r"] show ?thesis by (auto simp: get_step_def Let_def)
    next
      case (Some cond)
      have "cachedAt L (release_key (call_path ?c) cond (getter s)) = cachedAt L (getter s)"
        by (rule cachedAt_cong) (simp add: release_key_def)
      with st Releasing Some mv [of "release_key (call_path ?c) cond (getter s)" "Done r"] show ?thesis
        by (auto simp: get_step_def Let_def release_key_def)
    qed
  next
    case (Populating v own)
    note D = cache_invD [OF inv]
    from st Populating have s': "s' = move i (Releasing (Inr v) own)
      (s\<lparr>getter := addKey L (call_vs ?c) (call_path ?c) v (getter s),
         tainted := if overtaken ?c then (call_vs ?c, call_path ?c) # tainted s else tainted s\<rparr>)"
      by (simp add: get_step_def Let_def)
    have cur: "current s' = current s" by (simp add: s' current_def fun_eq_iff)
    have fr: "conn s' = conn s" "announced s' = announced s" "access (getter s') = access (getter s)"
      by (simp_all add: s' addKey_frame)
    have entry: "key \<in> set (tainted s') \<or> current s key x \<and> conn s \<noteq> Down"
      if "cachedAt L (getter s') key = Some x" for key x
      using addKey_entries [OF L, of "call_vs ?c" "call_path ?c" v "getter s" key x] that
        D(1) [of key x] D(2) [OF nth_mem [OF i]] Populating
      by (auto simp: s' call_ok_def call_key_def split: if_splits)
    have "call_ok s' c" if "c \<in> set (gets s')" for c
    proof (cases "c \<in> set (gets s)")
      case True
      with D(2) [OF True] show ?thesis unfolding call_ok_def cur fr by blast
    next
      case False
      with that set_update_subset_insert have "c = ?c\<lparr>at := Releasing (Inr v) own\<rparr>" by (fastforce simp: s')
      then show ?thesis by (simp add: call_ok_def)
    qed
    then show ?thesis unfolding cache_inv_def cur fr using entry D(3,4) by blast
  next
    case (Done r)
    with st show ?thesis by (simp add: get_step_def Let_def)
  qed
qed

lemma overtake_simps [simp]:
  "getter (overtake P s) = getter s" "db (overtake P s) = db s" "announced (overtake P s) = announced s"
  "conn (overtake P s) = conn s" "tainted (overtake P s) = tainted s"
  by (simp_all add: overtake_def)

lemma overtake_calls:
  assumes "c \<in> set (gets (overtake P s))"
  shows "overtaken c \<or> c \<in> set (gets s) \<and> \<not> P c"
  using assms by (auto simp: overtake_def)

lemma cache_invI:
  assumes "\<And>key x. cachedAt L (getter s) key = Some x \<Longrightarrow> key \<in> set (tainted s) \<or> current s key x \<and> conn s \<noteq> Down"
    and "\<And>c. c \<in> set (gets s) \<Longrightarrow> call_ok s c"
    and "conn s = Down \<Longrightarrow> \<not> access (getter s)" and "conn s \<noteq> Up \<Longrightarrow> announced s = []"
  shows "cache_inv L s"
  using assms unfolding cache_inv_def by blast

text \<open>The entries are gone and the calls that use the cache are overtaken.\<close>

lemma purge_inv:
  assumes L: "lru_ok L" and inv: "cache_inv L s" and s': "s' = overtake (\<lambda>c. uses_cache (at c))
      (s\<lparr>getter := disableCaching L (getter s), announced := ch, conn := cn\<rparr>)"
    and ch: "cn \<noteq> Up \<Longrightarrow> ch = []"
  shows "cache_inv L s'"
proof (rule cache_invI)
  fix key x assume "cachedAt L (getter s') key = Some x"
  then show "key \<in> set (tainted s') \<or> current s' key x \<and> conn s' \<noteq> Down"
    by (simp add: s' disableCaching_entries [OF L])
next
  fix c assume "c \<in> set (gets s')"
  with overtake_calls [of c _ "s\<lparr>getter := disableCaching L (getter s), announced := ch, conn := cn\<rparr>"]
  have "overtaken c \<or> \<not> uses_cache (at c)" by (auto simp: s')
  then show "call_ok s' c" by (auto simp: call_ok_def)
next
  show "conn s' = Down \<Longrightarrow> \<not> access (getter s')" by (simp add: s' disableCaching_def)
  show "conn s' \<noteq> Up \<Longrightarrow> announced s' = []" using ch by (simp add: s')
qed

lemma change_inv:
  assumes inv: "cache_inv L s" and s': "s' = s\<lparr>db := (db s)(key := r),
    announced := if conn s = Up then announced s @ [[\<lparr>VirtualStorage = fst key, RelativePaths = [snd key]\<rparr>]]
                 else announced s\<rparr>"
  shows "cache_inv L s'"
proof -
  note D = cache_invD [OF inv]
  have fr: "getter s' = getter s" "tainted s' = tainted s" "conn s' = conn s" by (simp_all add: s')
  have cur: "current s' k x" if "current s k x" "conn s \<noteq> Down" for k x
    using that by (cases "conn s") (auto simp: s' current_def covers_def)
  have call: "call_ok s' c" if "c \<in> set (gets s')" for c
  proof -
    from that D(2) have ok: "call_ok s c" by (simp add: s')
    have "conn s' = conn s" by (simp add: s')
    with ok cur [of "call_key c"] show ?thesis by (cases "conn s = Down") (auto simp: call_ok_def)
  qed
  have entry: "k \<in> set (tainted s') \<or> current s' k x \<and> conn s' \<noteq> Down" if "cachedAt L (getter s') k = Some x" for k x
    using D(1) [of k x] that cur [of k x] unfolding fr by blast
  show ?thesis
    by (rule cache_invI [OF entry call]) (use D(3,4) in \<open>simp_all add: s'\<close>)
qed

lemma deliver_inv:
  assumes L: "lru_ok L" and inv: "cache_inv L s" and an: "announced s = changes # rest"
    and s': "s' = overtake (\<lambda>c. populating (at c) \<and> covers changes (call_key c))
      (s\<lparr>getter := Notification L (Some changes) (getter s), announced := rest\<rparr>)"
  shows "cache_inv L s'"
proof -
  note D = cache_invD [OF inv]
  from D(4) an have up: "conn s = Up" by (cases "conn s") auto
  have cur: "current s' k x" if "current s k x" "\<not> covers changes k" for k x
    using that an by (auto simp: s' current_def)
  have entry: "k \<in> set (tainted s') \<or> current s' k x \<and> conn s' \<noteq> Down" if "cachedAt L (getter s') k = Some x" for k x
  proof -
    from that have "cachedAt L (Notification L (Some changes) (getter s)) k = Some x" by (simp add: s')
    from Notification_entries [OF L this] D(1) [of k x] cur [of k x] up show ?thesis by (auto simp: s')
  qed
  have call: "call_ok s' c" if "c \<in> set (gets s')" for c
  proof (cases "overtaken c")
    case False
    with overtake_calls [OF that [unfolded s']] have "c \<in> set (gets s)" "\<not> (populating (at c) \<and> covers changes (call_key c))"
      by auto
    with D(2) [of c] False up cur [of "call_key c"] show ?thesis by (auto simp: call_ok_def s')
  qed (simp add: call_ok_def)
  show ?thesis
    by (rule cache_invI [OF entry call]) (use up in \<open>simp_all add: s'\<close>)
qed

lemma lose_inv:
  assumes inv: "cache_inv L s"
  shows "cache_inv L (s\<lparr>conn := Lost, announced := []\<rparr>)"
proof (rule cache_invI)
  fix c assume "c \<in> set (gets (s\<lparr>conn := Lost, announced := []\<rparr>))"
  then show "call_ok (s\<lparr>conn := Lost, announced := []\<rparr>) c" by (simp add: call_ok_def current_def)
qed (simp_all add: current_def)

lemma reconnect_inv:
  assumes inv: "cache_inv L s" and "conn s = Down"
  shows "cache_inv L (s\<lparr>conn := Up\<rparr>)"
proof (rule cache_invI)
  fix key x assume "cachedAt L (getter (s\<lparr>conn := Up\<rparr>)) key = Some x"
  with cache_invD(1) [OF inv, of key x] assms(2)
  show "key \<in> set (tainted (s\<lparr>conn := Up\<rparr>)) \<or> current (s\<lparr>conn := Up\<rparr>) key x \<and> conn (s\<lparr>conn := Up\<rparr>) \<noteq> Down"
    by simp
next
  fix c assume "c \<in> set (gets (s\<lparr>conn := Up\<rparr>))"
  with cache_invD(2) [OF inv, of c] assms(2) show "call_ok (s\<lparr>conn := Up\<rparr>) c"
    by (auto simp: call_ok_def)
qed simp_all

lemma connected_inv:
  assumes inv: "cache_inv L s" and "conn s = Up"
  shows "cache_inv L (s\<lparr>getter := Connected (getter s)\<rparr>)"
proof -
  have "cachedAt L (Connected (getter s)) = cachedAt L (getter s)"
    by (rule cachedAt_cong) (simp add: Connected_def enableCaching_def)
  moreover have "current (s\<lparr>getter := g\<rparr>) = current s" "call_ok (s\<lparr>getter := g\<rparr>) = call_ok s" for g
    by (simp_all add: current_def call_ok_def fun_eq_iff)
  ultimately show ?thesis
    using cache_invD(1,2) [OF inv] assms(2) by (intro cache_invI) simp_all
qed

lemma new_get_inv:
  assumes inv: "cache_inv L s"
  shows "cache_inv L (s\<lparr>gets := gets s @ [\<lparr>call_vs = vs, call_path = path, at = Begin, overtaken = False\<rparr>]\<rparr>)"
    (is "cache_inv L ?s")
proof -
  note D = cache_invD [OF inv]
  have cur: "current ?s k x = current s k x" for k x by (simp add: current_def)
  have ok: "call_ok ?s c = call_ok s c" for c by (simp add: call_ok_def cur)
  have new: "call_ok s \<lparr>call_vs = vs, call_path = path, at = Begin, overtaken = False\<rparr>" by (simp add: call_ok_def)
  have "call_ok ?s c" if "c \<in> set (gets ?s)" for c
    using that new D(2) [of c] unfolding ok by auto
  moreover have "key \<in> set (tainted ?s) \<or> current ?s key x \<and> conn ?s \<noteq> Down"
    if "cachedAt L (getter ?s) key = Some x" for key x
    using D(1) [of key x] that unfolding cur by simp
  ultimately show ?thesis by (intro cache_invI) (use D(3,4) in simp_all)
qed

lemma cache_step_inv:
  assumes L: "lru_ok L" and st: "cache_step L s s'" and inv: "cache_inv L s"
  shows "cache_inv L s'"
  using st
proof cases
  case (garbled changes rest)
  show ?thesis
    by (rule purge_inv [OF L inv, where s' = s' and ch = rest and cn = "conn s"])
      (use garbled cache_invD(4) [OF inv] in \<open>auto simp: Notification_def\<close>)
next
  case disconnect
  have "s' = overtake (\<lambda>c. uses_cache (at c))
      (s\<lparr>getter := disableCaching L (getter s), announced := announced s, conn := Down\<rparr>)"
    using disconnect(1) by (simp add: Disconnect_def)
  then show ?thesis
    by (rule purge_inv [OF L inv]) (use disconnect(2) cache_invD(4) [OF inv] in simp)
qed (use new_get_inv [OF inv] get_step_inv [OF L inv] change_inv [OF inv] deliver_inv [OF L inv] lose_inv [OF inv]
    reconnect_inv [OF inv] connected_inv [OF inv] in \<open>blast+\<close>)

lemma cache_start_inv:
  assumes "\<And>k. cached L fresh k = None"
  shows "cache_inv L (cache_start fresh vss d)"
proof -
  have "map_of (fold (\<lambda>vs m. AList.update vs fresh m) vss m) vs = Some c \<Longrightarrow>
      map_of m vs = Some c \<or> c = fresh" for m vs c
    by (induction vss arbitrary: m) (fastforce split: if_splits)+
  from this [of "[]"] have all: "map_of (fold (\<lambda>vs m. AList.update vs fresh m) vss []) vs = Some c \<Longrightarrow> c = fresh" for vs c
    by fastforce
  have "cachedAt L (getter (cache_start fresh vss d)) key = None" for key
    using all [of "fst key"] assms
    by (auto simp: cache_start_def NewCachingConsistentStoragesGetter_def cachedAt_def getCache_def split: option.split)
  then show ?thesis
    by (intro cache_invI) (simp_all add: cache_start_def NewCachingConsistentStoragesGetter_def)
qed

interpretation cache: step_invariant "cache_step L" "\<lambda>s. lru_ok L \<and> cache_inv L s"
  by unfold_locales (auto intro: cache_step_inv)


section \<open>Waiting for another call\<close>

fun own_of :: "get_phase \<Rightarrow> nat option" where
  "own_of (Checking own) = own"
| "own_of (Reading useCache own) = own"
| "own_of (Populating v own) = own"
| "own_of (Releasing r own) = own"
| "own_of ph = None"

definition path_at :: "get_call \<Rightarrow> string \<times> get_phase" where
  "path_at c = (call_path c, at c)"

text \<open>
  Every key in flight has a call that will release it, and every channel waited for is closed or
  owned by such a call.
\<close>

definition sync_ok :: "(string, nat) gomap \<Rightarrow> bool list \<Rightarrow> (string \<times> get_phase) list \<Rightarrow> bool" where
  "sync_ok fl cl cs \<longleftrightarrow>
     (\<forall>(k, cond) \<in> set fl. cond < length cl \<and> list_ex (\<lambda>c. fst c = k \<and> own_of (snd c) = Some cond) cs) \<and>
     (\<forall>c \<in> set cs.
        (\<forall>cond. snd c = Waiting cond \<longrightarrow>
           cond < length cl \<and> (cl ! cond \<or> list_ex (\<lambda>c. own_of (snd c) = Some cond) cs)) \<and>
        (\<forall>cond. own_of (snd c) = Some cond \<longrightarrow> cond < length cl))"

definition sync_inv :: "'c cache_sys \<Rightarrow> bool" where
  "sync_inv s \<longleftrightarrow> sync_ok (inflight (getter s)) (closed (getter s)) (map path_at (gets s))"

lemma list_ex_update:
  "list_ex P xs \<Longrightarrow> i < length xs \<Longrightarrow> (P (xs ! i) \<Longrightarrow> P y) \<Longrightarrow> list_ex P (xs[i := y])"
proof (induction xs arbitrary: i)
  case (Cons x xs)
  then show ?case by (cases i) auto
qed simp

lemma sync_move:
  assumes ok: "sync_ok fl cl cs" and i: "i < length cs" and own: "own_of ph = own_of (snd (cs ! i))"
    and w: "\<And>cond. ph = Waiting cond \<Longrightarrow> (fst (cs ! i), cond) \<in> set fl"
  shows "sync_ok fl cl (cs[i := (fst (cs ! i), ph)])"
proof -
  let ?cs = "cs[i := (fst (cs ! i), ph)]"
  have keep: "list_ex (\<lambda>c. fst c = k \<and> own_of (snd c) = Some cond) ?cs"
    if "list_ex (\<lambda>c. fst c = k \<and> own_of (snd c) = Some cond) cs" for k cond
    using that i by (rule list_ex_update) (simp add: own)
  have keep': "list_ex (\<lambda>c. own_of (snd c) = Some cond) ?cs" if "list_ex (\<lambda>c. own_of (snd c) = Some cond) cs" for cond
    using that i by (rule list_ex_update) (simp add: own)
  have fl: "cond < length cl \<and> list_ex (\<lambda>c. fst c = k \<and> own_of (snd c) = Some cond) ?cs" if "(k, cond) \<in> set fl" for k cond
    using ok that keep by (auto simp: sync_ok_def)
  have old: "(\<forall>cond. snd c = Waiting cond \<longrightarrow> cond < length cl \<and> (cl ! cond \<or> list_ex (\<lambda>c. own_of (snd c) = Some cond) ?cs)) \<and>
      (\<forall>cond. own_of (snd c) = Some cond \<longrightarrow> cond < length cl)" if "c \<in> set cs" for c
    using ok that keep' unfolding sync_ok_def by blast
  have new: "(\<forall>cond. ph = Waiting cond \<longrightarrow> cond < length cl \<and> (cl ! cond \<or> list_ex (\<lambda>c. own_of (snd c) = Some cond) ?cs)) \<and>
      (\<forall>cond. own_of ph = Some cond \<longrightarrow> cond < length cl)"
  proof -
    have "cond < length cl \<and> list_ex (\<lambda>c. own_of (snd c) = Some cond) ?cs" if "ph = Waiting cond" for cond
      using fl [OF w [OF that]] by (auto simp: list_ex_iff)
    with old [OF nth_mem [OF i]] own show ?thesis by auto
  qed
  have "(\<forall>cond. snd c = Waiting cond \<longrightarrow> cond < length cl \<and> (cl ! cond \<or> list_ex (\<lambda>c. own_of (snd c) = Some cond) ?cs)) \<and>
      (\<forall>cond. own_of (snd c) = Some cond \<longrightarrow> cond < length cl)" if "c \<in> set ?cs" for c
  proof (cases "c \<in> set cs")
    case True
    then show ?thesis by (rule old)
  next
    case False
    with that set_update_subset_insert have "c = (fst (cs ! i), ph)" by fastforce
    with new show ?thesis by simp
  qed
  with fl show ?thesis unfolding sync_ok_def by auto
qed

lemma sync_acquire:
  assumes ok: "sync_ok fl cl cs" and i: "i < length cs" and free: "map_of fl (fst (cs ! i)) = None"
    and none: "own_of (snd (cs ! i)) = None"
  shows "sync_ok (AList.update (fst (cs ! i)) (length cl) fl) (cl @ [False])
    (cs[i := (fst (cs ! i), Checking (Some (length cl)))])"
proof -
  let ?cs = "cs[i := (fst (cs ! i), Checking (Some (length cl)))]"
  have keep: "list_ex (\<lambda>c. fst c = k \<and> own_of (snd c) = Some cond) ?cs"
    if "list_ex (\<lambda>c. fst c = k \<and> own_of (snd c) = Some cond) cs" for k cond
    using that i by (rule list_ex_update) (simp add: none)
  have keep': "list_ex (\<lambda>c. own_of (snd c) = Some cond) ?cs" if "list_ex (\<lambda>c. own_of (snd c) = Some cond) cs" for cond
    using that i by (rule list_ex_update) (simp add: none)
  have mine: "list_ex (\<lambda>c. fst c = fst (cs ! i) \<and> own_of (snd c) = Some (length cl)) ?cs"
    using i by (auto simp: list_ex_iff intro!: bexI [of _ "(fst (cs ! i), Checking (Some (length cl)))"] set_update_memI)
  have upd: "AList.update (fst (cs ! i)) (length cl) fl = fl @ [(fst (cs ! i), length cl)]"
    using free by (intro update_new) (simp add: map_of_eq_None_iff)
  have "cond < length (cl @ [False]) \<and> list_ex (\<lambda>c. fst c = k \<and> own_of (snd c) = Some cond) ?cs"
    if "(k, cond) \<in> set fl \<or> k = fst (cs ! i) \<and> cond = length cl" for k cond
    using that ok keep [of k cond] mine by (auto simp: sync_ok_def)
  moreover have "(\<forall>cond. snd c = Waiting cond \<longrightarrow> cond < length (cl @ [False]) \<and>
      ((cl @ [False]) ! cond \<or> list_ex (\<lambda>c. own_of (snd c) = Some cond) ?cs)) \<and>
      (\<forall>cond. own_of (snd c) = Some cond \<longrightarrow> cond < length (cl @ [False]))" if "c \<in> set ?cs" for c
  proof (cases "c \<in> set cs")
    case True
    with ok have "\<forall>cond. snd c = Waiting cond \<longrightarrow>
        cond < length cl \<and> (cl ! cond \<or> list_ex (\<lambda>c. own_of (snd c) = Some cond) cs)"
      "\<forall>cond. own_of (snd c) = Some cond \<longrightarrow> cond < length cl" unfolding sync_ok_def by blast+
    with keep' show ?thesis by (auto simp: nth_append less_SucI)
  next
    case False
    with that set_update_subset_insert have "c = (fst (cs ! i), Checking (Some (length cl)))" by fastforce
    then show ?thesis by simp
  qed
  ultimately show ?thesis unfolding sync_ok_def upd by auto
qed

lemma sync_release:
  assumes ok: "sync_ok fl cl cs" and i: "i < length cs" and own: "own_of (snd (cs ! i)) = Some cond"
    and path: "path = fst (cs ! i)"
  shows "sync_ok (AList.delete path fl) (cl[cond := True]) (cs[i := (path, Done r)])"
proof -
  let ?cs = "cs[i := (path, Done r)]"
  have flights: "cd < length cl \<and> list_ex (\<lambda>c. fst c = k \<and> own_of (snd c) = Some cd) ?cs"
    if "(k, cd) \<in> set (AList.delete path fl)" for k cd
  proof -
    from that have k: "(k, cd) \<in> set fl" "k \<noteq> path" by (auto simp: AList.delete_eq)
    with ok have ex: "cd < length cl" "list_ex (\<lambda>c. fst c = k \<and> own_of (snd c) = Some cd) cs"
      by (auto simp: sync_ok_def)
    from ex(2) i have "list_ex (\<lambda>c. fst c = k \<and> own_of (snd c) = Some cd) ?cs"
      by (rule list_ex_update) (use k(2) path in simp)
    with ex(1) show ?thesis by blast
  qed
  have "(\<forall>cd. snd c = Waiting cd \<longrightarrow> cd < length cl \<and>
      (cl[cond := True] ! cd \<or> list_ex (\<lambda>c. own_of (snd c) = Some cd) ?cs)) \<and>
      (\<forall>cd. own_of (snd c) = Some cd \<longrightarrow> cd < length cl)" if "c \<in> set ?cs" for c
  proof (cases "c \<in> set cs")
    case True
    with ok have c: "\<forall>cd. snd c = Waiting cd \<longrightarrow>
        cd < length cl \<and> (cl ! cd \<or> list_ex (\<lambda>c. own_of (snd c) = Some cd) cs)"
      "\<forall>cd. own_of (snd c) = Some cd \<longrightarrow> cd < length cl" unfolding sync_ok_def by blast+
    have "cl[cond := True] ! cd \<or> list_ex (\<lambda>c. own_of (snd c) = Some cd) ?cs" if "snd c = Waiting cd" for cd
    proof (cases "cd = cond")
      case False
      with c(1) that have "cl ! cd \<or> list_ex (\<lambda>c. own_of (snd c) = Some cd) cs" by blast
      moreover have "list_ex (\<lambda>c. own_of (snd c) = Some cd) ?cs" if "list_ex (\<lambda>c. own_of (snd c) = Some cd) cs"
        using that i by (rule list_ex_update) (use own False in simp)
      ultimately show ?thesis using False by auto
    qed (use c(1) that in simp)
    with c show ?thesis by blast
  next
    case False
    with that set_update_subset_insert have "c = (path, Done r)" by fastforce
    then show ?thesis by simp
  qed
  with flights show ?thesis unfolding sync_ok_def by auto
qed

lemma path_at_update [simp]: "path_at (c\<lparr>at := ph\<rparr>) = (call_path c, ph)"
  by (simp add: path_at_def)

lemma path_at_move: "i < length (gets s) \<Longrightarrow>
  map path_at (gets (move i ph s)) = (map path_at (gets s))[i := (call_path (gets s ! i), ph)]"
  by (simp add: map_update path_at_def)

lemma sync_start: "sync_inv (cache_start fresh vss d)"
  by (simp add: sync_inv_def sync_ok_def cache_start_def NewCachingConsistentStoragesGetter_def)

lemma get_step_sync:
  assumes inv: "sync_inv s" and i: "i < length (gets s)" and st: "get_step L i s = Some s'"
  shows "sync_inv s'"
proof -
  let ?c = "gets s ! i" and ?cs = "map path_at (gets s)"
  have ci: "i < length ?cs" "?cs ! i = (call_path ?c, at ?c)" using i by (simp_all add: path_at_def)
  note ok = inv [unfolded sync_inv_def]
  have stay: "sync_inv (move i ph t)" if "own_of ph = own_of (at ?c)" "\<And>cond. ph \<noteq> Waiting cond" "gets t = gets s"
    "inflight (getter t) = inflight (getter s)" "closed (getter t) = closed (getter s)" for ph t
    using sync_move [OF ok ci(1), of ph] that i ci(2) path_at_move [of i t ph] by (simp add: sync_inv_def)
  show ?thesis
  proof (cases "at ?c")
    case Begin
    with st show ?thesis by (cases "access (getter s)") (auto simp: get_step_def Let_def intro!: stay)
  next
    case Trying
    with st getKey_frame [of L "call_vs ?c" "call_path ?c" "getter s"] show ?thesis
      by (auto simp: get_step_def Let_def split: if_splits prod.splits option.splits intro!: stay)
  next
    case Awaiting
    show ?thesis
    proof (cases "map_of (inflight (getter s)) (call_path ?c)")
      case None
      with st Awaiting sync_acquire [OF ok ci(1)] ci(2) i show ?thesis
        by (auto simp: get_step_def Let_def await_def sync_inv_def map_update)
    next
      case (Some cond)
      with st Awaiting sync_move [OF ok ci(1), of "Waiting cond"] ci(2) i show ?thesis
        by (auto simp: get_step_def Let_def await_def sync_inv_def map_update dest: map_of_SomeD)
    qed
  next
    case (Waiting cond)
    with st show ?thesis by (auto simp: get_step_def Let_def split: if_splits intro!: stay)
  next
    case (Checking own)
    with st getKey_frame [of L "call_vs ?c" "call_path ?c" "getter s"] show ?thesis
      by (auto simp: get_step_def Let_def split: prod.splits option.splits intro!: stay)
  next
    case (Reading useCache own)
    with st show ?thesis by (auto simp: get_step_def Let_def split: sum.splits if_splits intro!: stay)
  next
    case (Populating v own)
    with st show ?thesis by (auto simp: get_step_def Let_def addKey_frame intro!: stay)
  next
    case (Releasing r own)
    show ?thesis
    proof (cases own)
      case None
      with st Releasing show ?thesis by (auto simp: get_step_def Let_def intro!: stay)
    next
      case (Some cond)
      have s': "s' = move i (Done r) (s\<lparr>getter := release_key (call_path ?c) cond (getter s)\<rparr>)"
        using st Releasing Some by (simp add: get_step_def Let_def)
      have "sync_ok (AList.delete (call_path ?c) (inflight (getter s))) ((closed (getter s))[cond := True])
          (?cs[i := (call_path ?c, Done r)])"
        by (rule sync_release [OF ok ci(1)]) (simp_all only: ci(2) Releasing Some own_of.simps fst_conv snd_conv)
      then show ?thesis
        by (simp add: s' release_key_def sync_inv_def map_update)
    qed
  next
    case (Done r)
    with st show ?thesis by (simp add: get_step_def Let_def)
  qed
qed

lemma overtake_sync: "sync_inv (overtake P s) = sync_inv s"
proof -
  have "map path_at (gets (overtake P s)) = map path_at (gets s)" by (simp add: overtake_def path_at_def)
  then show ?thesis by (simp add: sync_inv_def)
qed

lemma sync_step: "cache_step L s s' \<Longrightarrow> sync_inv s \<Longrightarrow> sync_inv s'"
proof (induction rule: cache_step.induct)
  case (get s vs path)
  then show ?case by (auto simp: sync_inv_def sync_ok_def path_at_def)
next
  case (garbled s changes rest)
  then show ?case by (simp add: overtake_sync) (simp add: sync_inv_def Notification_def disableCaching_def)
next
  case (deliver s changes rest)
  then show ?case by (simp add: overtake_sync) (simp add: sync_inv_def Notification_frame)
next
  case (disconnect s)
  then show ?case by (simp add: overtake_sync) (simp add: sync_inv_def Disconnect_def disableCaching_def)
qed (auto simp: sync_inv_def Connected_def enableCaching_def intro: get_step_sync [unfolded sync_inv_def])

interpretation syncer: step_invariant "cache_step L" sync_inv
  by unfold_locales (rule sync_step)

text \<open>
  No call waits for a key forever: when a call cannot take its next step, the channel it waits
  for belongs to another call, which has not returned, can take its next step, and closes the channel
  when it returns.
\<close>

theorem waiter_is_released:
  assumes "(cache_step L)\<^sup>*\<^sup>* (cache_start fresh virtualStorages d) s" and "i < length (gets s)"
    and "at (gets s ! i) = Waiting cond" and "get_step L i s = None"
  shows "\<exists>j < length (gets s). own_of (at (gets s ! j)) = Some cond \<and> get_step L j s \<noteq> None"
proof -
  from syncer.run_inv [OF assms(1) sync_start] have "sync_inv s" .
  moreover have "(call_path (gets s ! i), Waiting cond) \<in> set (map path_at (gets s))"
    using assms(2,3) by (auto simp: path_at_def intro!: image_eqI [of _ _ "gets s ! i"])
  ultimately have "closed (getter s) ! cond \<or> list_ex (\<lambda>c. own_of (snd c) = Some cond) (map path_at (gets s))"
    unfolding sync_inv_def sync_ok_def by fastforce
  with assms(3,4) have "list_ex (\<lambda>c. own_of (snd c) = Some cond) (map path_at (gets s))"
    by (auto simp: get_step_def Let_def split: if_splits)
  then obtain j where j: "j < length (gets s)" "own_of (at (gets s ! j)) = Some cond"
    by (auto simp: list_ex_iff path_at_def in_set_conv_nth)
  have "get_step L j s \<noteq> None"
    using j(2) by (cases "at (gets s ! j)") (auto simp: get_step_def Let_def split: prod.split option.split sum.split)
  with j show ?thesis by blast
qed

section \<open>Concrete runs\<close>

text \<open>A cache without a bound behaves as documented.\<close>

definition unbounded :: "(string, storages) gomap LRU" where
  "unbounded = \<lparr>Get = \<lambda>c k. (c, map_of c k), Add = \<lambda>c k v. AList.update k v c,
     Remove = \<lambda>c k. AList.delete k c, Purge = \<lambda>c. []\<rparr>"

lemma unbounded_ok: "lru_ok unbounded"
  by (auto simp: lru_ok_def unbounded_def cached_def delete_conv')

datatype cache_event = NewGet string string | Adv nat | Change "string \<times> string" reply | Deliver | Reconnect | Connect

fun run_event :: "'c LRU \<Rightarrow> cache_event \<Rightarrow> 'c cache_sys \<Rightarrow> 'c cache_sys option" where
  "run_event L (NewGet vs path) s =
     Some (s\<lparr>gets := gets s @ [\<lparr>call_vs = vs, call_path = path, at = Begin, overtaken = False\<rparr>]\<rparr>)"
| "run_event L (Adv i) s = (if i < length (gets s) then get_step L i s else None)"
| "run_event L (Change key r) s = Some (s\<lparr>db := (db s)(key := r),
    announced := if conn s = Up then announced s @ [[\<lparr>VirtualStorage = fst key, RelativePaths = [snd key]\<rparr>]]
                 else announced s\<rparr>)"
| "run_event L Deliver s =
     (case announced s of
        [] \<Rightarrow> None
      | changes # rest \<Rightarrow> Some (overtake (\<lambda>c. populating (at c) \<and> covers changes (call_key c))
          (s\<lparr>getter := Notification L (Some changes) (getter s), announced := rest\<rparr>)))"
| "run_event L Reconnect s = (if conn s = Down then Some (s\<lparr>conn := Up\<rparr>) else None)"
| "run_event L Connect s = (if conn s = Up then Some (s\<lparr>getter := Connected (getter s)\<rparr>) else None)"

fun cache_exec :: "'c LRU \<Rightarrow> cache_event list \<Rightarrow> 'c cache_sys \<Rightarrow> 'c cache_sys option" where
  "cache_exec L [] s = Some s"
| "cache_exec L (e # es) s = (case run_event L e s of None \<Rightarrow> None | Some s' \<Rightarrow> cache_exec L es s')"

lemma run_event_step:
  assumes "run_event L e s = Some s'"
  shows "cache_step L s s'"
proof (cases e)
  case (Change key r)
  with assms show ?thesis using cache_step.change [of L s key r] by simp
qed (use assms in \<open>auto split: if_splits list.splits intro: cache_step.intros\<close>)

lemma cache_exec_run: "cache_exec L es s = Some s' \<Longrightarrow> (cache_step L)\<^sup>*\<^sup>* s s'"
  by (induction es arbitrary: s)
    (auto split: option.splits intro: run_event_step converse_rtranclp_into_rtranclp)

lemma cache_exec_reaches:
  "\<not> Option.is_none (cache_exec L es s) \<Longrightarrow> (cache_step L)\<^sup>*\<^sup>* s (the (cache_exec L es s))"
  by (rule cache_exec_run [of _ es]) (simp add: Option.is_none_def)

definition key1 :: "string \<times> string" where "key1 = (''default'', ''repo'')"

definition start1 :: "(string, storages) gomap cache_sys" where
  "start1 = cache_start [] [''default''] (\<lambda>k. Inr [''g1'', ''g2''])"

definition up_and_read :: "cache_event list" where
  "up_and_read = [Reconnect, Connect, NewGet ''default'' ''repo''] @ replicate 5 (Adv 0)"

definition quiet_run :: "cache_event list" where
  "quiet_run = up_and_read @ [Adv 0, Adv 0, Change key1 (Inr [''g1''])]"

definition racing_run :: "cache_event list" where
  "racing_run = up_and_read @ [Change key1 (Inr [''g1'']), Deliver, Adv 0, Adv 0]"


definition waiting_run :: "cache_event list" where
  "waiting_run = [Reconnect, Connect, NewGet ''default'' ''repo'', NewGet ''default'' ''repo''] @
     replicate 3 (Adv 0) @ replicate 3 (Adv 1)"

theorem waiter_is_released_witness:
  "at (gets (the (cache_exec unbounded waiting_run start1)) ! 1) = Waiting 0 \<and>
   (\<exists>j < 2. own_of (at (gets (the (cache_exec unbounded waiting_run start1)) ! j)) = Some 0 \<and>
      \<not> Option.is_none (get_step unbounded j (the (cache_exec unbounded waiting_run start1))))"
proof -
  let ?s = "the (cache_exec unbounded waiting_run start1)"
  have "\<not> Option.is_none (cache_exec unbounded waiting_run start1)" by code_simp
  from cache_exec_reaches [OF this]
  have run: "(cache_step unbounded)\<^sup>*\<^sup>* (cache_start [] [''default''] (\<lambda>k. Inr [''g1'', ''g2''])) ?s"
    by (simp add: start1_def)
  have "length (gets ?s) = 2" "at (gets ?s ! 1) = Waiting 0" "Option.is_none (get_step unbounded 1 ?s)" by code_simp+
  with waiter_is_released [OF run, of 1 0] show ?thesis by (auto simp: Option.is_none_def)
qed

text \<open>
  The exception occurs: a notification that arrives between the read of the database and the store
  removes nothing, and the outdated reply is stored after it. No notification is due, no call is
  under way, and the cache hands out the outdated storages until the repository changes again.
\<close>

lemma overtaken_call_leaves_stale_entry:
  "\<exists>s. (cache_step unbounded)\<^sup>*\<^sup>* start1 s \<and> conn s = Up \<and> access (getter s) \<and> announced s = [] \<and>
     list_all (\<lambda>c. at c = Done (Inr [''g1'', ''g2''])) (gets s) \<and>
     cachedAt unbounded (getter s) key1 = Some [''g1'', ''g2''] \<and> db s key1 = Inr [''g1'']"
proof -
  let ?s = "the (cache_exec unbounded racing_run start1)"
  have "\<not> Option.is_none (cache_exec unbounded racing_run start1)" by code_simp
  from cache_exec_reaches [OF this] have "(cache_step unbounded)\<^sup>*\<^sup>* start1 ?s" .
  moreover have "conn ?s = Up" "access (getter ?s)" "announced ?s = []"
    "list_all (\<lambda>c. at c = Done (Inr [''g1'', ''g2''])) (gets ?s)"
    "cachedAt unbounded (getter ?s) key1 = Some [''g1'', ''g2'']" "db ?s key1 = Inr [''g1'']"
    by code_simp+
  ultimately show ?thesis by blast
qed

end
