(* ===== verification/Bufio_Scanner.thy ===== *)
theory Bufio_Scanner
  imports Praefect_Prelude
begin

text \<open>
  Go's \<open>bufio.Scanner\<close>, as far as the packet line reader and the conflict parser use it: a buffer
  of bounded size in front of an \<open>io.Reader\<close>, and a split function that finds the next token in
  what is buffered. A reader is the list of the pieces its \<open>Read\<close> calls deliver, followed by its
  final error; a piece that does not fit into the buffer is delivered in parts. The split function
  may carry a state of its own, as a closure does. The count of empty tokens, which only a split
  function that returns tokens without advancing can raise, is left out.

  The locale \<open>scan_split\<close> states what makes a split function independent of how its input is cut
  into reads, and its lemma \<open>Scan_next\<close> computes \<open>Scan\<close> from the remaining input alone.
\<close>

section \<open>The scanner\<close>

datatype read_err = EOF | ReadFailed

datatype 'e scan_err = ReadErr read_err | NoProgress | TooLong | AdvanceTooFar | SplitErr 'e

record ('st, 'e) Scanner =
  bufsize :: nat
  maxTokenSize :: nat
  start :: nat
  pending :: "byte list"
  reads :: "byte list list"
  final :: read_err
  serr :: "'e scan_err option"
  split_state :: 'st

type_synonym ('st, 'e) split_fun = "'st \<Rightarrow> byte list \<Rightarrow> bool \<Rightarrow> 'st \<times> nat \<times> byte list option \<times> 'e option"

text \<open>The error is kept unless it is nil or EOF.\<close>

definition setErr :: "'e scan_err \<Rightarrow> ('st, 'e) Scanner \<Rightarrow> ('st, 'e) Scanner" where
  "setErr e s = (if serr s = None \<or> serr s = Some (ReadErr EOF) then s\<lparr>serr := Some e\<rparr> else s)"

text \<open>\<open>Err\<close> hides EOF.\<close>

definition Err :: "('st, 'e) Scanner \<Rightarrow> 'e scan_err option" where
  "Err s = (if serr s = Some (ReadErr EOF) then None else serr s)"

text \<open>Reading into the free part of the buffer: at most 100 reads may deliver nothing.\<close>

fun read_some :: "nat \<Rightarrow> nat \<Rightarrow> read_err \<Rightarrow> byte list list \<Rightarrow> byte list \<times> byte list list \<times> 'e scan_err option" where
  "read_some loop space fin [] = ([], [], Some (ReadErr fin))"
| "read_some loop space fin (c # cs) =
     (if space = 0 then ([], c # cs, Some NoProgress)
      else if c = [] then (if loop \<ge> 100 then ([], cs, Some NoProgress) else read_some (loop + 1) space fin cs)
      else if length c \<le> space then (c, cs, None)
      else (take space c, drop space c # cs, None))"

text \<open>Pending bytes move to the front of the buffer when space is needed.\<close>

definition shift :: "('st, 'e) Scanner \<Rightarrow> ('st, 'e) Scanner" where
  "shift s = (if 0 < start s \<and> (start s + length (pending s) = bufsize s \<or> bufsize s div 2 < start s)
              then s\<lparr>start := 0\<rparr> else s)"

definition full :: "('st, 'e) Scanner \<Rightarrow> bool" where
  "full s \<longleftrightarrow> bufsize s \<le> start s + length (pending s)"

definition grow :: "('st, 'e) Scanner \<Rightarrow> ('st, 'e) Scanner" where
  "grow s = s\<lparr>bufsize := min (if bufsize s = 0 then 4096 else 2 * bufsize s) (maxTokenSize s)\<rparr>"

definition fill :: "('st, 'e) Scanner \<Rightarrow> ('st, 'e) Scanner" where
  "fill s =
     (case read_some 0 (bufsize s - (start s + length (pending s))) (final s) (reads s) of
        (data, cs, err) \<Rightarrow>
          let s' = s\<lparr>pending := pending s @ data, reads := cs\<rparr>
          in case err of None \<Rightarrow> s' | Some e \<Rightarrow> setErr e s')"

definition reader_size :: "('st, 'e) Scanner \<Rightarrow> nat" where
  "reader_size s = (if serr s = None then 1 else 0) + (\<Sum>c\<leftarrow>reads s. length c + 1)"

lemma read_some_size:
  "read_some loop space fin cs = (data, cs', None) \<Longrightarrow>
     (\<Sum>c\<leftarrow>cs'. length c + 1) < (\<Sum>c\<leftarrow>cs. length c + 1)"
  by (induction loop space fin cs arbitrary: data rule: read_some.induct) (auto split: if_splits)

lemma read_some_le:
  "read_some loop space fin cs = (data, cs', err) \<Longrightarrow>
     (\<Sum>c\<leftarrow>cs'. length c + 1) \<le> (\<Sum>c\<leftarrow>cs. length c + 1)"
  by (induction loop space fin cs arbitrary: data rule: read_some.induct) (auto split: if_splits)

lemma fill_size:
  fixes s :: "('st, 'e) Scanner"
  assumes "serr s = None"
  shows "reader_size (fill s) < reader_size s"
proof -
  obtain data cs and err :: "'e scan_err option" where r:
    "read_some 0 (bufsize s - (start s + length (pending s))) (final s) (reads s) = (data, cs, err)"
    by (metis prod_cases3)
  show ?thesis
    using read_some_size [of 0 _ _ "reads s" data cs] read_some_le [OF r] r assms
    by (cases err) (auto simp: fill_def reader_size_def setErr_def)
qed

lemma resize_size [simp]:
  "reader_size (shift s) = reader_size s" "reader_size (grow s) = reader_size s"
  "serr (shift s) = serr s" "serr (grow s) = serr s"
  by (simp_all add: shift_def grow_def reader_size_def)

text \<open>What \<open>Scan\<close> does when the buffer holds no token: it gives up or reads on.\<close>

definition refill :: "('st, 'e) Scanner \<Rightarrow> ('st, 'e) Scanner + ('st, 'e) Scanner" where
  "refill s =
     (if serr s \<noteq> None then Inl (s\<lparr>start := 0, pending := []\<rparr>)
      else if full (shift s) \<and> maxTokenSize s \<le> bufsize s then Inl (setErr TooLong (shift s))
      else Inr (fill (if full (shift s) then grow (shift s) else shift s)))"

lemma refill_size: "refill s = Inr s' \<Longrightarrow> reader_size s' < reader_size s"
  using fill_size [of "shift s"] fill_size [of "grow (shift s)"]
  by (auto simp: refill_def split: if_splits)

lemma reader_size_update [simp]:
  "reader_size (s\<lparr>split_state := st\<rparr>) = reader_size s"
  "reader_size (s\<lparr>start := a\<rparr>) = reader_size s" "reader_size (s\<lparr>pending := p\<rparr>) = reader_size s"
  by (simp_all add: reader_size_def)

text \<open>One call of \<open>Scan\<close>: the token found, or \<open>None\<close> where \<open>Scan\<close> returns false.\<close>

function Scan :: "('st, 'e) split_fun \<Rightarrow> ('st, 'e) Scanner \<Rightarrow> ('st, 'e) Scanner \<times> byte list option" where
  "Scan split s =
     (if pending s \<noteq> [] \<or> serr s \<noteq> None then
        (case split (split_state s) (pending s) (serr s \<noteq> None) of
           (st, adv, tok, err) \<Rightarrow>
             (case err of
                Some e \<Rightarrow> (setErr (SplitErr e) (s\<lparr>split_state := st\<rparr>), None)
              | None \<Rightarrow>
                  if length (pending s) < adv then (setErr AdvanceTooFar (s\<lparr>split_state := st\<rparr>), None)
                  else (case tok of
                          Some t \<Rightarrow> (s\<lparr>split_state := st, start := start s + adv, pending := drop adv (pending s)\<rparr>, Some t)
                        | None \<Rightarrow>
                            (case refill (s\<lparr>split_state := st, start := start s + adv, pending := drop adv (pending s)\<rparr>) of
                               Inl s' \<Rightarrow> (s', None)
                             | Inr s' \<Rightarrow> Scan split s'))))
      else (case refill s of Inl s' \<Rightarrow> (s', None) | Inr s' \<Rightarrow> Scan split s'))"
  by pat_completeness auto
termination
  by (relation "measure (\<lambda>(split, s). reader_size s)") (auto dest: refill_size)

declare Scan.simps [simp del]

section \<open>Scanning does not depend on the reads\<close>

text \<open>
  A scanner in order: nothing but EOF ends its input, every read delivers something, and the
  pending bytes lie in the buffer, which after EOF has room left.
\<close>

definition scanner_wf :: "('st, 'e) Scanner \<Rightarrow> bool" where
  "scanner_wf s \<longleftrightarrow>
     0 < bufsize s \<and> bufsize s \<le> maxTokenSize s \<and> start s + length (pending s) \<le> bufsize s \<and>
     final s = EOF \<and> [] \<notin> set (reads s) \<and>
     (serr s = None \<or> serr s = Some (ReadErr EOF) \<and> reads s = [] \<and> length (pending s) < maxTokenSize s)"

definition remaining :: "('st, 'e) Scanner \<Rightarrow> byte list" where
  "remaining s = pending s @ concat (reads s)"

datatype ('st, 'e) scan_next = Token 'st nat "byte list" | Stop 'st "'e scan_err option"

text \<open>The next token of the remaining input, whatever the reads.\<close>

definition next_token :: "('st, 'e) split_fun \<Rightarrow> nat \<Rightarrow> 'st \<Rightarrow> byte list \<Rightarrow> ('st, 'e) scan_next" where
  "next_token split m st xs =
     (case (if length xs < m then split st xs True else split st (take m xs) False) of
        (st', adv, tok, err) \<Rightarrow>
          (case err of
             Some e \<Rightarrow> Stop st' (Some (SplitErr e))
           | None \<Rightarrow> (case tok of
                        Some t \<Rightarrow> Token st' adv t
                      | None \<Rightarrow> Stop st' (if length xs < m then None else Some TooLong))))"

lemma read_some_reads:
  assumes "read_some loop space fin cs = (data, cs', err)" and "[] \<notin> set cs" and "0 < space"
  shows "data @ concat cs' = concat cs" "[] \<notin> set cs'" "length data \<le> space"
    "err = None \<or> err = Some (ReadErr fin) \<and> cs' = [] \<and> data = []"
  using assms by (cases cs; auto split: if_splits)+

lemma fill_wf:
  fixes s :: "('st, 'e) Scanner"
  assumes wf: "scanner_wf s" and none: "serr s = None" and room: "\<not> full s"
  shows "scanner_wf (fill s)" "remaining (fill s) = remaining s"
    "split_state (fill s) = split_state s" "maxTokenSize (fill s) = maxTokenSize s"
proof -
  obtain data cs and err :: "'e scan_err option" where r:
    "read_some 0 (bufsize s - (start s + length (pending s))) (final s) (reads s) = (data, cs, err)"
    by (metis prod_cases3)
  from room have "0 < bufsize s - (start s + length (pending s))" by (simp add: full_def)
  from read_some_reads [OF r _ this] wf
  have R: "data @ concat cs = concat (reads s)" "[] \<notin> set cs"
    "length data \<le> bufsize s - (start s + length (pending s))"
    "err = None \<or> err = Some (ReadErr EOF) \<and> cs = [] \<and> data = []"
    by (auto simp: scanner_wf_def)
  from R wf none room r show "scanner_wf (fill s)"
    by (auto simp: fill_def scanner_wf_def setErr_def full_def)
  from R(1,4) r show "remaining (fill s) = remaining s"
    by (auto simp: fill_def remaining_def setErr_def Let_def)
  from R(4) r show "split_state (fill s) = split_state s" "maxTokenSize (fill s) = maxTokenSize s"
    by (auto simp: fill_def setErr_def Let_def)
qed

lemma refill_wf:
  assumes wf: "scanner_wf s" and none: "serr s = None"
  shows "(refill s = Inl (setErr TooLong (shift s)) \<and> length (pending s) = maxTokenSize s) \<or>
    (\<exists>s'. refill s = Inr s' \<and> scanner_wf s' \<and> remaining s' = remaining s \<and>
          split_state s' = split_state s \<and> maxTokenSize s' = maxTokenSize s)"
proof -
  have sh: "scanner_wf (shift s)" "remaining (shift s) = remaining s"
    "split_state (shift s) = split_state s" "maxTokenSize (shift s) = maxTokenSize s"
    "bufsize (shift s) = bufsize s" "pending (shift s) = pending s"
    using wf by (auto simp: scanner_wf_def shift_def remaining_def)
  show ?thesis
  proof (cases "full (shift s)")
    case False
    with fill_wf [OF sh(1)] none sh show ?thesis by (auto simp: refill_def)
  next
    case True
    with wf have len: "length (pending s) = bufsize s" "start (shift s) = 0"
      by (auto simp: full_def shift_def scanner_wf_def split: if_splits)
    show ?thesis
    proof (cases "maxTokenSize s \<le> bufsize s")
      case big: True
      with True wf none len show ?thesis by (auto simp: refill_def scanner_wf_def)
    next
      case False
      with sh len none wf have "scanner_wf (grow (shift s))" "\<not> full (grow (shift s))"
        by (auto simp: scanner_wf_def grow_def full_def)
      from fill_wf [OF this(1) _ this(2)] none True False sh show ?thesis
        by (auto simp: refill_def) (auto simp: grow_def remaining_def)
    qed
  qed
qed

lemma read_some_concat:
  "read_some loop space fin cs = (data, cs', err) \<Longrightarrow> data @ concat cs' = concat cs"
  by (induction loop space fin cs rule: read_some.induct) (auto split: if_splits)

lemma fill_remaining:
  fixes s :: "('st, 'e) Scanner"
  shows "remaining (fill s) = remaining s"
proof -
  obtain data cs and err :: "'e scan_err option" where r:
    "read_some 0 (bufsize s - (start s + length (pending s))) (final s) (reads s) = (data, cs, err)"
    by (metis prod_cases3)
  from read_some_concat [OF r] r show ?thesis
    by (cases err) (auto simp: fill_def remaining_def setErr_def Let_def)
qed

lemma refill_remaining: "refill s = Inr s' \<Longrightarrow> remaining s' = remaining s"
  by (auto simp: refill_def fill_remaining split: if_splits) (simp_all add: shift_def grow_def remaining_def)

locale scan_split =
  fixes split :: "('st, 'e) split_fun"
  assumes more_waits: "split st d False = (st', adv, None, None) \<Longrightarrow> st' = st \<and> adv = 0"
    and decided_stays: "d \<noteq> [] \<Longrightarrow> split st d False = (st', adv, tok, err) \<Longrightarrow> tok \<noteq> None \<or> err \<noteq> None \<Longrightarrow>
      split st (d @ x) eof = (st', adv, tok, err)"
    and token_advances: "split st d eof = (st', adv, Some t, None) \<Longrightarrow> 0 < adv \<and> adv \<le> length d"
    and eof_decides: "split st d True = (st', adv, None, None) \<Longrightarrow> d = [] \<and> adv = 0"
begin

lemma next_token_decided:
  assumes "split st d False = (st', adv, tok, err)" and "tok \<noteq> None \<or> err \<noteq> None"
    and "d \<noteq> []" and "length d \<le> m"
  shows "next_token split m st (d @ x) =
    (case err of Some e \<Rightarrow> Stop st' (Some (SplitErr e)) | None \<Rightarrow> Token st' adv (the tok))"
proof -
  have "take m (d @ x) = d @ take (m - length d) x" using assms(4) by simp
  with decided_stays [OF assms(3,1,2), of x True] decided_stays [OF assms(3,1,2), of "take (m - length d) x" False]
    assms(2)
  show ?thesis by (auto simp: next_token_def split: option.splits)
qed

lemma Scan_next:
  assumes "scanner_wf s"
  shows "case next_token split (maxTokenSize s) (split_state s) (remaining s) of
      Token st adv t \<Rightarrow>
        (\<exists>s'. Scan split s = (s', Some t) \<and> scanner_wf s' \<and> remaining s' = drop adv (remaining s) \<and>
              split_state s' = st \<and> maxTokenSize s' = maxTokenSize s)
    | Stop st e \<Rightarrow> (\<exists>s'. Scan split s = (s', None) \<and> Err s' = e \<and> split_state s' = st)"
  using assms
proof (induction "reader_size s" arbitrary: s rule: less_induct)
  case less
  note wf = less.prems
  note IH = less.hyps
  let ?n = "next_token split (maxTokenSize s) (split_state s) (remaining s)"
  have again: ?case if "serr s = None" "Scan split s = (case refill s of Inl s' \<Rightarrow> (s', None) | Inr s' \<Rightarrow> Scan split s')"
    and long: "length (pending s) = maxTokenSize s \<Longrightarrow> ?n = Stop (split_state s) (Some TooLong)"
    using refill_wf [OF wf that(1)]
  proof
    assume "refill s = Inl (setErr TooLong (shift s)) \<and> length (pending s) = maxTokenSize s"
    with that(1,2) long show ?case by (simp add: Err_def setErr_def shift_def)
  next
    assume "\<exists>s'. refill s = Inr s' \<and> scanner_wf s' \<and> remaining s' = remaining s \<and>
          split_state s' = split_state s \<and> maxTokenSize s' = maxTokenSize s"
    then obtain s' where s': "refill s = Inr s'" "scanner_wf s'" "remaining s' = remaining s"
      "split_state s' = split_state s" "maxTokenSize s' = maxTokenSize s" by blast
    from IH [OF refill_size [OF s'(1)] s'(2)] s' that(2) show ?case by (simp split: scan_next.splits)
  qed
  consider (empty) "serr s = None" "pending s = []" | (data) "serr s = None" "pending s \<noteq> []" | (eof) "serr s \<noteq> None"
    by blast
  then show ?case
  proof cases
    case empty
    then have "Scan split s = (case refill s of Inl s' \<Rightarrow> (s', None) | Inr s' \<Rightarrow> Scan split s')"
      by (subst Scan.simps) simp
    with empty(1) show ?thesis by (rule again) (use empty wf in \<open>auto simp: scanner_wf_def\<close>)
  next
    case data
    obtain st' adv tok err where r: "split (split_state s) (pending s) False = (st', adv, tok, err)"
      by (metis prod_cases4)
    show ?thesis
    proof (cases "tok = None \<and> err = None")
      case True
      with more_waits r have waits: "st' = split_state s" "adv = 0" by blast+
      with r True data have "Scan split s = (case refill s of Inl s' \<Rightarrow> (s', None) | Inr s' \<Rightarrow> Scan split s')"
        by (subst Scan.simps) simp
      with data(1) show ?thesis
      proof (rule again)
        assume "length (pending s) = maxTokenSize s"
        with r True waits show "?n = Stop (split_state s) (Some TooLong)"
          by (simp add: next_token_def remaining_def)
      qed
    next
      case False
      from wf have "length (pending s) \<le> maxTokenSize s" by (simp add: scanner_wf_def)
      with next_token_decided [OF r _ data(2)] False
      have n: "?n = (case err of Some e \<Rightarrow> Stop st' (Some (SplitErr e)) | None \<Rightarrow> Token st' adv (the tok))"
        by (simp add: remaining_def)
      show ?thesis
      proof (cases err)
        case (Some e)
        with r n data show ?thesis by (subst Scan.simps) (simp add: Err_def setErr_def)
      next
        case None
        with False obtain t where t: "tok = Some t" by auto
        with None token_advances [of "split_state s" "pending s" False] r have "adv \<le> length (pending s)" by blast
        with r n None t data wf show ?thesis
          by (subst Scan.simps) (auto simp: scanner_wf_def remaining_def)
      qed
    qed
  next
    case eof
    with wf have e: "serr s = Some (ReadErr EOF)" "reads s = []" "length (pending s) < maxTokenSize s"
      by (auto simp: scanner_wf_def)
    obtain st' adv tok err where r: "split (split_state s) (pending s) True = (st', adv, tok, err)"
      by (metis prod_cases4)
    with e have n: "?n = (case err of Some e \<Rightarrow> Stop st' (Some (SplitErr e))
        | None \<Rightarrow> (case tok of Some t \<Rightarrow> Token st' adv t | None \<Rightarrow> Stop st' None))"
      by (simp add: next_token_def remaining_def split: option.split)
    show ?thesis
    proof (cases err)
      case (Some err')
      with r n e show ?thesis by (subst Scan.simps) (simp add: Err_def setErr_def)
    next
      case None
      show ?thesis
      proof (cases tok)
        case None': None
        with None r eof_decides have "pending s = []" "adv = 0" by blast+
        with r n e None None' show ?thesis by (subst Scan.simps) (simp add: refill_def Err_def)
      next
        case (Some t)
        with None token_advances [of "split_state s" "pending s" True] r have "adv \<le> length (pending s)" by blast
        with r n None Some e wf show ?thesis
          by (subst Scan.simps) (auto simp: scanner_wf_def remaining_def)
      qed
    qed
  qed
qed

text \<open>Every token found is taken out of the remaining input, so a loop over \<open>Scan\<close> ends.\<close>

lemma Scan_consumes:
  "Scan split s = (s', Some t) \<Longrightarrow> length (remaining s') < length (remaining s)"
proof (induction "reader_size s" arbitrary: s rule: less_induct)
  case less
  obtain st adv tok err where r: "split (split_state s) (pending s) (serr s \<noteq> None) = (st, adv, tok, err)"
    by (metis prod_cases4)
  show ?case
  proof (cases "pending s \<noteq> [] \<or> serr s \<noteq> None")
    case False
    with less.prems obtain s2 where s2: "refill s = Inr s2" "Scan split s2 = (s', Some t)"
      by (subst (asm) Scan.simps) (auto split: sum.splits)
    from less.hyps [OF refill_size [OF s2(1)] s2(2)] refill_remaining [OF s2(1)] show ?thesis by simp
  next
    case True
    let ?s1 = "s\<lparr>split_state := st, start := start s + adv, pending := drop adv (pending s)\<rparr>"
    from less.prems True r have none: "err = None" "adv \<le> length (pending s)"
      by (subst (asm) Scan.simps, auto split: option.splits if_splits)+
    show ?thesis
    proof (cases tok)
      case (Some t')
      with r none token_advances [of "split_state s" "pending s" "serr s \<noteq> None" st adv t']
      have "0 < adv" by simp
      with less.prems True r none Some show ?thesis
        by (subst (asm) Scan.simps) (auto simp: remaining_def)
    next
      case None
      with less.prems True r none obtain s2 where s2: "refill ?s1 = Inr s2" "Scan split s2 = (s', Some t)"
        by (subst (asm) Scan.simps) (auto split: sum.splits)
      from refill_size [OF s2(1)] have "reader_size s2 < reader_size s" by simp
      moreover have "length (remaining s2) \<le> length (remaining s)"
        unfolding refill_remaining [OF s2(1)] by (simp add: remaining_def)
      ultimately show ?thesis using less.hyps [OF _ s2(2)] by (meson order_less_le_trans)
    qed
  qed
qed

end

end
