(* ===== verification/Pktline.thy ===== *)
theory Pktline
  imports Bufio_Scanner
begin

text \<open>
  Git's packet line format and the side-band multiplexer, \<open>internal/git/pktline/pktline.go\<close>. A
  writer is a function from its state and the bytes written to the new state and an error, so that
  every failing write is a branch of the model; \<open>strconv.ParseInt\<close> with base 16 is written out.
\<close>

section \<open>Hexadecimal numbers\<close>

definition bytes_of :: "string \<Rightarrow> byte list" where
  "bytes_of s = map of_char s"

definition hex_digit :: "nat \<Rightarrow> byte" where
  "hex_digit d = (if d < 10 then 48 + of_nat d else 87 + of_nat d)"

fun hex_digits :: "nat \<Rightarrow> byte list" where
  "hex_digits n = (if n < 16 then [hex_digit n] else hex_digits (n div 16) @ [hex_digit (n mod 16)])"

declare hex_digits.simps [simp del]

text \<open>The verb \<open>%04x\<close> of \<open>fmt\<close>.\<close>

definition fmt_04x :: "nat \<Rightarrow> byte list" where
  "fmt_04x n = replicate (4 - length (hex_digits n)) 48 @ hex_digits n"

definition hex_value :: "byte \<Rightarrow> nat option" where
  "hex_value c =
     (if 48 \<le> c \<and> c \<le> 57 then Some (unat c - 48)
      else if 97 \<le> c \<and> c \<le> 102 then Some (unat c - 87)
      else if 65 \<le> c \<and> c \<le> 70 then Some (unat c - 55)
      else None)"

fun hex_number :: "nat \<Rightarrow> byte list \<Rightarrow> nat option" where
  "hex_number acc [] = Some acc"
| "hex_number acc (c # cs) = (case hex_value c of None \<Rightarrow> None | Some d \<Rightarrow> hex_number (16 * acc + d) cs)"

text \<open>\<open>strconv.ParseInt(s, 16, 0)\<close>: an optional sign and at least one digit.\<close>

definition ParseInt16 :: "byte list \<Rightarrow> int option" where
  "ParseInt16 s =
     (case s of
        [] \<Rightarrow> None
      | c # cs \<Rightarrow>
          if c = 43 then (if cs = [] then None else map_option int (hex_number 0 cs))
          else if c = 45 then (if cs = [] then None else map_option (\<lambda>n. - int n) (hex_number 0 cs))
          else map_option int (hex_number 0 s))"

section \<open>Packets\<close>

definition maxPktSize :: nat where
  "maxPktSize = 65520"

definition MaxSidebandData :: nat where
  "MaxSidebandData = maxPktSize - 5"

definition pktDelim :: "byte list" where
  "pktDelim = bytes_of ''0001''"

definition PktFlush :: "byte list" where
  "PktFlush = bytes_of ''0000''"

definition PktDone :: "byte list" where
  "PktDone = bytes_of ''0009done'' @ [10]"

text \<open>\<open>Data\<close> slices the packet from index 4, which panics when it is shorter.\<close>

definition Data :: "byte list \<Rightarrow> byte list option" where
  "Data pkt = (if 4 \<le> length pkt then Some (drop 4 pkt) else None)"

definition IsFlush :: "byte list \<Rightarrow> bool" where
  "IsFlush pkt \<longleftrightarrow> pkt = PktFlush"

type_synonym ('w, 'e) writer = "'w \<Rightarrow> byte list \<Rightarrow> 'w \<times> 'e option"

datatype 'e write_err = StringTooLarge nat | WriteErr 'e

definition WriteString :: "('w, 'e) writer \<Rightarrow> 'w \<Rightarrow> byte list \<Rightarrow> 'w \<times> nat \<times> 'e write_err option" where
  "WriteString wr w str =
     (let pktLen = length str + 4
      in if maxPktSize < pktLen then (w, 0, Some (StringTooLarge (length str)))
         else case wr w (fmt_04x pktLen @ str) of (w', err) \<Rightarrow> (w', length str, map_option WriteErr err))"

definition WriteFlush :: "('w, 'e) writer \<Rightarrow> 'w \<Rightarrow> 'w \<times> 'e option" where
  "WriteFlush wr w = wr w PktFlush"

definition WriteDelim :: "('w, 'e) writer \<Rightarrow> 'w \<Rightarrow> 'w \<times> 'e option" where
  "WriteDelim wr w = wr w pktDelim"

datatype pkt_err = IncompletePrefix "byte list" | DecodeLength "byte list" | InvalidLength int | UnexpectedEOF

fun pktLineSplitter :: "(unit, pkt_err) split_fun" where
  "pktLineSplitter st data atEOF =
     (if length data < 4 then
        (if atEOF \<and> 0 < length data then ((), 0, None, Some (IncompletePrefix data)) else ((), 0, None, None))
      else
        (case ParseInt16 (take 4 data) of
           None \<Rightarrow> ((), 0, None, Some (DecodeLength (take 4 data)))
         | Some pktLength \<Rightarrow>
             if pktLength < 0 then ((), 0, None, Some (InvalidLength pktLength))
             else if pktLength < 4 then ((), 4, Some (take 4 data), None)
             else if int (length data) < pktLength then
               (if atEOF then ((), 0, None, Some UnexpectedEOF) else ((), 0, None, None))
             else ((), nat pktLength, Some (take (nat pktLength) data), None)))"

declare pktLineSplitter.simps [simp del]

text \<open>\<open>NewScanner\<close> on a reader that delivers the given pieces and then EOF or an error.\<close>

definition NewScanner :: "byte list list \<Rightarrow> read_err \<Rightarrow> (unit, pkt_err) Scanner" where
  "NewScanner cs fin = \<lparr>bufsize = maxPktSize, maxTokenSize = maxPktSize, start = 0, pending = [],
     reads = cs, final = fin, serr = None, split_state = ()\<rparr>"

section \<open>The split function obeys the scanner's contract\<close>

lemma splitter_decided:
  assumes "pktLineSplitter st d False = (st', adv, tok, err)" and "tok \<noteq> None \<or> err \<noteq> None"
  shows "pktLineSplitter st (d @ x) eof = (st', adv, tok, err)"
proof -
  from assms have "4 \<le> length d" by (auto simp: pktLineSplitter.simps split: if_splits)
  then have eq: "take 4 (d @ x) = take 4 d" "\<not> length (d @ x) < 4" "\<not> length d < 4" by auto
  with assms show ?thesis
    by (auto simp: pktLineSplitter.simps split: option.splits if_splits)
qed

interpretation pkt: scan_split pktLineSplitter
proof unfold_locales
  fix st st' :: unit and d x adv tok err eof
  show "pktLineSplitter st d False = (st', adv, tok, err) \<Longrightarrow> tok \<noteq> None \<or> err \<noteq> None \<Longrightarrow>
      pktLineSplitter st (d @ x) eof = (st', adv, tok, err)"
    by (rule splitter_decided)
qed (auto simp: pktLineSplitter.simps split: if_splits option.splits)

lemma NewScanner_wf:
  assumes "[] \<notin> set cs"
  shows "scanner_wf (NewScanner cs EOF)" "remaining (NewScanner cs EOF) = concat cs"
    "maxTokenSize (NewScanner cs EOF) = maxPktSize" "split_state (NewScanner cs EOF) = ()"
  using assms by (simp_all add: scanner_wf_def NewScanner_def remaining_def maxPktSize_def)

section \<open>The side-band multiplexer\<close>

text \<open>
  \<open>writeBand\<close>, which holds the mutex of the \<open>SidebandWriter\<close> throughout: the loop variables are the
  data left and the count \<open>n\<close>.
\<close>

function writeBand ::
  "('w, 'e) writer \<Rightarrow> byte \<Rightarrow> byte list \<Rightarrow> nat \<Rightarrow> 'w \<Rightarrow> 'w \<times> nat \<times> 'e option" where
  "writeBand wr band data n w =
     (if data = [] then (w, n, None)
      else
        let headerSize = 5; chunkSize = min (length data) (maxPktSize - headerSize) in
        case wr w (fmt_04x (chunkSize + headerSize) @ [band]) of
          (w1, Some err) \<Rightarrow> (w1, n, Some err)
        | (w1, None) \<Rightarrow>
            (case wr w1 (take chunkSize data) of
               (w2, Some err) \<Rightarrow> (w2, n, Some err)
             | (w2, None) \<Rightarrow> writeBand wr band (drop chunkSize data) (n + chunkSize) w2))"
  by pat_completeness auto
termination
  by (relation "measure (\<lambda>(wr, band, data, n, w). length data)") (auto simp: maxPktSize_def)

declare writeBand.simps [simp del]

definition Writer :: "('w, 'e) writer \<Rightarrow> byte \<Rightarrow> 'w \<Rightarrow> byte list \<Rightarrow> 'w \<times> nat \<times> 'e option" where
  "Writer wr band w p = writeBand wr band p 0 w"

datatype 'e each_err = NotSideband "byte list" | FnErr 'e | ScanFailed "pkt_err scan_err"

text \<open>
  The loop of \<open>EachSidebandPacket\<close>. The callback passes a state along; a packet shorter than its
  header, on which \<open>Data\<close> would panic, is not produced by the split function.
\<close>

function EachSidebandPacket ::
  "('s \<Rightarrow> byte \<Rightarrow> byte list \<Rightarrow> 's \<times> 'e option) \<Rightarrow> (unit, pkt_err) Scanner \<Rightarrow> 's \<Rightarrow> 's \<times> 'e each_err option" where
  "EachSidebandPacket fn s acc =
     (case Scan pktLineSplitter s of
        (s', None) \<Rightarrow> (acc, map_option ScanFailed (Err s'))
      | (s', Some pkt) \<Rightarrow>
          (case drop 4 pkt of
             [] \<Rightarrow> (acc, Some (NotSideband pkt))
           | b # bs \<Rightarrow>
               (case fn acc b bs of
                  (acc', Some err) \<Rightarrow> (acc', Some (FnErr err))
                | (acc', None) \<Rightarrow> EachSidebandPacket fn s' acc')))"
  by pat_completeness auto
termination
  by (relation "measure (\<lambda>(fn, s, acc). length (remaining s))") (auto intro: pkt.Scan_consumes sym)

declare EachSidebandPacket.simps [simp del]

section \<open>Headers read back\<close>

lemma hex_value_digit: "d < 16 \<Longrightarrow> hex_value (hex_digit d) = Some d"
proof -
  assume "d < 16"
  then have "d \<in> set [0..<16]" by simp
  moreover have "list_all (\<lambda>d. hex_value (hex_digit d) = Some d) [0..<16]" by code_simp
  ultimately show ?thesis unfolding list_all_iff by blast
qed

lemma hex_number_append:
  "hex_number acc (xs @ ys) = (case hex_number acc xs of None \<Rightarrow> None | Some a \<Rightarrow> hex_number a ys)"
  by (induction acc xs rule: hex_number.induct) (auto split: option.split)

lemma hex_digits_read: "hex_number 0 (hex_digits n) = Some n"
proof (induction n rule: hex_digits.induct)
  case (1 n)
  show ?case
  proof (cases "n < 16")
    case True
    then show ?thesis by (simp add: hex_digits.simps hex_value_digit)
  next
    case False
    with 1 show ?thesis
      by (subst hex_digits.simps) (simp add: hex_number_append hex_value_digit)
  qed
qed

lemma hex_zeros: "hex_number 0 (replicate k 48 @ xs) = hex_number 0 xs"
  by (induction k) (simp_all add: hex_value_def)

lemma hex_digits_length: "n < 16 ^ k \<Longrightarrow> 0 < k \<Longrightarrow> length (hex_digits n) \<le> k"
proof (induction n arbitrary: k rule: hex_digits.induct)
  case (1 n)
  show ?case
  proof (cases "n < 16")
    case True
    with 1 show ?thesis by (simp add: hex_digits.simps)
  next
    case False
    with 1 obtain j where k: "k = Suc j" "0 < j" by (cases k; cases "k - 1") auto
    with 1 False have "length (hex_digits (n div 16)) \<le> j" by (simp add: less_mult_imp_div_less mult.commute)
    with False k show ?thesis by (subst hex_digits.simps) simp
  qed
qed

lemma hex_digit_range: "d < 16 \<Longrightarrow> hex_digit d \<noteq> 43 \<and> hex_digit d \<noteq> 45"
proof -
  assume "d < 16"
  then have "d \<in> set [0..<16]" by simp
  moreover have "list_all (\<lambda>d. hex_digit d \<noteq> 43 \<and> hex_digit d \<noteq> 45) [0..<16]" by code_simp
  ultimately show ?thesis unfolding list_all_iff by blast
qed

lemma hex_digits_sign: "hex_digits n \<noteq> [] \<and> 43 \<notin> set (hex_digits n) \<and> 45 \<notin> set (hex_digits n)"
proof (induction n rule: hex_digits.induct)
  case (1 n)
  then show ?case
    using hex_digit_range [of n] hex_digit_range [of "n mod 16"]
    by (subst (1 2 3) hex_digits.simps) auto
qed

text \<open>A header is four bytes and reads back as the number it was made from.\<close>

lemma header_length: "n < 65536 \<Longrightarrow> length (fmt_04x n) = 4"
  using hex_digits_length [of n 4] by (simp add: fmt_04x_def)

lemma header_read: "ParseInt16 (fmt_04x n) = Some (int n)"
proof -
  have "fmt_04x n \<noteq> []" "43 \<notin> set (fmt_04x n)" "45 \<notin> set (fmt_04x n)"
    using hex_digits_sign [of n] by (auto simp: fmt_04x_def)
  moreover have "hex_number 0 (fmt_04x n) = Some n" by (simp add: fmt_04x_def hex_zeros hex_digits_read)
  ultimately show ?thesis by (cases "fmt_04x n") (auto simp: ParseInt16_def)
qed

text \<open>A packet at the front of the input is the next token, whatever follows it.\<close>

lemma packet_next:
  assumes "n = length str + 4" "n \<le> maxPktSize"
  shows "next_token pktLineSplitter maxPktSize () ((fmt_04x n @ str) @ rest) = Token () n (fmt_04x n @ str)"
proof -
  from assms have len: "length (fmt_04x n) = 4" by (intro header_length) (simp add: maxPktSize_def)
  have "pktLineSplitter () (fmt_04x n @ str) False = ((), n, Some (fmt_04x n @ str), None)"
    using assms(1) len by (simp add: pktLineSplitter.simps header_read)
  moreover have "fmt_04x n \<noteq> []" using len by auto
  ultimately show ?thesis
    using pkt.next_token_decided [of "()" "fmt_04x n @ str" "()" n "Some (fmt_04x n @ str)" None maxPktSize rest] assms len
    by simp
qed

lemma empty_next: "next_token pktLineSplitter maxPktSize () [] = Stop () None"
  by (simp add: next_token_def pktLineSplitter.simps maxPktSize_def)

section \<open>Round trips\<close>

text \<open>The packets that a call of \<open>writeBand\<close> is to make, and a packet's bytes.\<close>

function band_packets :: "byte \<Rightarrow> byte list \<Rightarrow> (byte \<times> byte list) list" where
  "band_packets band data =
     (if data = [] then []
      else (band, take MaxSidebandData data) # band_packets band (drop MaxSidebandData data))"
  by pat_completeness auto
termination
  by (relation "measure (\<lambda>(band, data). length data)") (auto simp: MaxSidebandData_def maxPktSize_def)

declare band_packets.simps [simp del]

definition sideband_packet :: "byte \<times> byte list \<Rightarrow> byte list" where
  "sideband_packet p = fmt_04x (length (snd p) + 5) @ fst p # snd p"

lemma sideband_packet_pair: "sideband_packet (b, d) = fmt_04x (length d + 5) @ b # d"
  by (simp add: sideband_packet_def)

text \<open>A writer that keeps everything, such as a \<open>bytes.Buffer\<close>.\<close>

definition buffer :: "(byte list, unit) writer" where
  "buffer w p = (w @ p, None)"

lemma writeBand_buffer:
  "writeBand buffer band data n w =
     (w @ concat (map sideband_packet (band_packets band data)), n + length data, None)"
proof (induction band data arbitrary: n w rule: band_packets.induct)
  case (1 band data)
  show ?case
  proof (cases "data = []")
    case True
    then show ?thesis by (simp add: writeBand.simps band_packets.simps)
  next
    case False
    have m: "maxPktSize - 5 = MaxSidebandData" by (simp add: MaxSidebandData_def)
    have t: "take (min (length data) MaxSidebandData) data = take MaxSidebandData data"
      "drop (min (length data) MaxSidebandData) data = drop MaxSidebandData data"
      by (simp_all add: min_def)
    have n: "n + min (length data) MaxSidebandData + (length data - MaxSidebandData) = n + length data"
      by (simp add: min_def)
    have b: "buffer w p = (w @ p, None)" for w p by (simp add: buffer_def)
    have h: "sideband_packet (band, take MaxSidebandData data) =
      fmt_04x (min (length data) MaxSidebandData + 5) @ band # take MaxSidebandData data"
      by (simp add: sideband_packet_def)
    have "writeBand buffer band data n w = writeBand buffer band (drop MaxSidebandData data)
        (n + min (length data) MaxSidebandData) (w @ sideband_packet (band, take MaxSidebandData data))"
      using False t by (subst writeBand.simps) (simp add: b m h Let_def)
    also have "\<dots> = (w @ concat (map sideband_packet (band_packets band data)), n + length data, None)"
      using 1 [OF False] False n by (subst band_packets.simps) simp
    finally show ?thesis .
  qed
qed

lemma band_packets_sizes:
  "(b, d) \<in> set (band_packets band data) \<Longrightarrow> b = band \<and> 0 < length d \<and> length d \<le> MaxSidebandData"
proof (induction band data rule: band_packets.induct)
  case (1 band data)
  then show ?case
    by (subst (asm) (2) band_packets.simps) (auto simp: MaxSidebandData_def maxPktSize_def split: if_splits)
qed

lemma band_packets_data: "concat (map snd (band_packets band data)) = data"
proof (induction band data rule: band_packets.induct)
  case (1 band data)
  then show ?case by (subst band_packets.simps) auto
qed

text \<open>A callback that keeps what it is called with.\<close>

definition collect :: "(byte \<times> byte list) list \<Rightarrow> byte \<Rightarrow> byte list \<Rightarrow> (byte \<times> byte list) list \<times> unit option" where
  "collect acc band data = (acc @ [(band, data)], None)"

lemma EachSidebandPacket_packets:
  assumes "scanner_wf s" "maxTokenSize s = maxPktSize" "remaining s = concat (map sideband_packet ps)"
    and "\<forall>p \<in> set ps. length (snd p) \<le> MaxSidebandData"
  shows "EachSidebandPacket collect s acc = (acc @ ps, None)"
  using assms
proof (induction ps arbitrary: s acc)
  case Nil
  with pkt.Scan_next [OF Nil(1)] empty_next obtain s' where "Scan pktLineSplitter s = (s', None)" "Err s' = None"
    by auto
  then show ?case by (simp add: EachSidebandPacket.simps)
next
  case (Cons p ps)
  obtain b d where p: "p = (b, d)" by (cases p)
  let ?n = "length d + 5"
  from Cons.prems(4) p have n: "?n \<le> maxPktSize" by (simp add: MaxSidebandData_def maxPktSize_def)
  have rem: "remaining s = (fmt_04x ?n @ b # d) @ concat (map sideband_packet ps)"
    using Cons.prems(3) by (simp add: p sideband_packet_pair)
  from packet_next [of ?n "b # d"] n
  have "next_token pktLineSplitter maxPktSize () (remaining s) = Token () ?n (fmt_04x ?n @ b # d)"
    by (simp add: rem)
  with pkt.Scan_next [OF Cons.prems(1)] Cons.prems(2) obtain s' where
    s': "Scan pktLineSplitter s = (s', Some (fmt_04x ?n @ b # d))" "scanner_wf s'"
    "remaining s' = drop ?n (remaining s)" "maxTokenSize s' = maxPktSize"
    by auto
  from n have len: "length (fmt_04x ?n) = 4" by (intro header_length) (simp add: maxPktSize_def)
  have "remaining s' = concat (map sideband_packet ps)" using s'(3) len by (simp add: rem)
  from Cons.IH [OF s'(2,4) this] Cons.prems(4)
  have "EachSidebandPacket collect s' (acc @ [(b, d)]) = ((acc @ [(b, d)]) @ ps, None)" by auto
  with s'(1) len show ?case by (subst EachSidebandPacket.simps) (simp add: collect_def p)
qed

text \<open>The stream that a sequence of writes to the bands of one \<open>SidebandWriter\<close> produces.\<close>

definition band_stream :: "(byte \<times> byte list) list \<Rightarrow> byte list" where
  "band_stream ws = fold (\<lambda>(band, data) w. fst (Writer buffer band w data)) ws []"

lemma band_stream_packets:
  "band_stream ws = concat (map sideband_packet (concat (map (\<lambda>(b, d). band_packets b d) ws)))"
proof -
  have "fold (\<lambda>(band, data) w. fst (Writer buffer band w data)) ws w =
    w @ concat (map sideband_packet (concat (map (\<lambda>(b, d). band_packets b d) ws)))" for w
    by (induction ws arbitrary: w) (auto simp: Writer_def writeBand_buffer)
  then show ?thesis by (simp add: band_stream_def)
qed

definition on_band :: "byte \<Rightarrow> (byte \<times> byte list) list \<Rightarrow> byte list" where
  "on_band band ps = concat (map snd (filter (\<lambda>p. fst p = band) ps))"

lemma on_band_simps [simp]:
  "on_band band [] = []"
  "on_band band (p # ps) = (if fst p = band then snd p else []) @ on_band band ps"
  "on_band band (ps @ qs) = on_band band ps @ on_band band qs"
  by (simp_all add: on_band_def)

lemma on_band_packets: "on_band band (band_packets b d) = (if b = band then d else [])"
proof -
  have "filter (\<lambda>p. fst p = band) (band_packets b d) = (if b = band then band_packets b d else [])"
    by (auto simp: filter_id_conv filter_empty_conv dest: band_packets_sizes)
  then show ?thesis by (simp add: on_band_def band_packets_data)
qed

text \<open>
  C26. Whatever is written to the bands of a \<open>SidebandWriter\<close>, in whatever order, and however the
  reader cuts the resulting stream into reads, \<open>EachSidebandPacket\<close> ends without an error, and the
  data it hands out for each band is, joined together, the data written to that band. No packet it
  hands out is empty or larger than \<open>MaxSidebandData\<close>.
\<close>

theorem sideband_round_trip:
  assumes "concat cs = band_stream ws" and "[] \<notin> set cs"
  shows "\<exists>ps. EachSidebandPacket collect (NewScanner cs EOF) [] = (ps, None) \<and>
    (\<forall>band. on_band band ps = on_band band ws) \<and>
    list_all (\<lambda>(b, d). 0 < length d \<and> length d \<le> MaxSidebandData) ps"
proof -
  let ?ps = "concat (map (\<lambda>(b, d). band_packets b d) ws)"
  have sizes: "0 < length d \<and> length d \<le> MaxSidebandData" if "(b, d) \<in> set ?ps" for b d
    using that band_packets_sizes by auto
  have "on_band band ?ps = on_band band ws" for band
    by (induction ws) (auto simp: on_band_packets)
  moreover have "EachSidebandPacket collect (NewScanner cs EOF) [] = ([] @ ?ps, None)"
    by (rule EachSidebandPacket_packets)
      (use NewScanner_wf [OF assms(2)] assms(1) band_stream_packets sizes in \<open>auto simp del: set_concat\<close>)
  moreover have "list_all (\<lambda>(b, d). 0 < length d \<and> length d \<le> MaxSidebandData) ?ps"
    unfolding list_all_iff using sizes by blast
  ultimately show ?thesis by (intro exI [of _ ?ps]) simp
qed

text \<open>Any two scanners in order with the same input left behave alike.\<close>

lemma EachSidebandPacket_reads:
  assumes "scanner_wf s" "scanner_wf s'" "remaining s = remaining s'"
    and "maxTokenSize s = maxTokenSize s'"
  shows "EachSidebandPacket fn s acc = EachSidebandPacket fn s' acc"
  using assms
proof (induction "length (remaining s)" arbitrary: s s' acc rule: less_induct)
  case less
  note S = pkt.Scan_next [OF less.prems(1)] pkt.Scan_next [OF less.prems(2)]
  show ?case
  proof (cases "next_token pktLineSplitter (maxTokenSize s) () (remaining s)")
    case (Token st adv t)
    with S less.prems(3,4) obtain s1 s1' where s1: "Scan pktLineSplitter s = (s1, Some t)" "scanner_wf s1"
      "remaining s1 = drop adv (remaining s)" "maxTokenSize s1 = maxTokenSize s"
      and s1': "Scan pktLineSplitter s' = (s1', Some t)" "scanner_wf s1'"
      "remaining s1' = drop adv (remaining s)" "maxTokenSize s1' = maxTokenSize s"
      by auto
    have "EachSidebandPacket fn s1 = EachSidebandPacket fn s1'"
    proof
      fix a
      show "EachSidebandPacket fn s1 a = EachSidebandPacket fn s1' a"
        by (rule less.hyps) (simp_all add: pkt.Scan_consumes [OF s1(1)], use s1 s1' in simp_all)
    qed
    with s1(1) s1'(1) show ?thesis
      by (subst (1 2) EachSidebandPacket.simps) (simp split: list.split prod.split option.split)
  next
    case (Stop st e)
    with S less.prems(3,4) obtain s1 s1' where "Scan pktLineSplitter s = (s1, None)" "Err s1 = e"
      "Scan pktLineSplitter s' = (s1', None)" "Err s1' = e"
      by auto
    then show ?thesis by (subst (1 2) EachSidebandPacket.simps) simp
  qed
qed

text \<open>
  What \<open>EachSidebandPacket\<close> does with a stream, well-formed or not, depends on the bytes of the
  stream alone and not on how the reads deliver them: the calls of the callback and the error at the
  end are the same.
\<close>

theorem sideband_reads_equivalent:
  assumes "concat cs = concat cs'" and "[] \<notin> set cs" and "[] \<notin> set cs'"
  shows "EachSidebandPacket fn (NewScanner cs EOF) acc = EachSidebandPacket fn (NewScanner cs' EOF) acc"
  by (rule EachSidebandPacket_reads)
    (simp_all add: NewScanner_wf [OF assms(2)] NewScanner_wf [OF assms(3)] assms(1))

section \<open>Concrete streams\<close>

definition wit_writes :: "(byte \<times> byte list) list" where
  "wit_writes = [(1, bytes_of ''pack''), (2, bytes_of ''progress''), (1, bytes_of ''data'')]"

definition wit_reads :: "byte list list" where
  "wit_reads = [bytes_of ''00'', bytes_of ''09'' @ 1 # bytes_of ''pack000'', bytes_of ''d'' @ [2],
     bytes_of ''progress0009'' @ 1 # bytes_of ''data'']"

lemma band_packets_short:
  "data \<noteq> [] \<Longrightarrow> length data \<le> MaxSidebandData \<Longrightarrow> band_packets band data = [(band, data)]"
  by (subst band_packets.simps) (simp add: band_packets.simps)

lemma wit_reads_ok: "concat wit_reads = band_stream wit_writes" "[] \<notin> set wit_reads"
proof -
  have "concat (map (\<lambda>(b, d). band_packets b d) wit_writes) = wit_writes"
    by (simp add: wit_writes_def band_packets_short bytes_of_def MaxSidebandData_def maxPktSize_def)
  moreover have "concat (map sideband_packet wit_writes) = concat wit_reads" by code_simp
  ultimately show "concat wit_reads = band_stream wit_writes" by (simp add: band_stream_packets)
  show "[] \<notin> set wit_reads" by code_simp
qed

theorem sideband_round_trip_witness:
  "on_band 1 wit_writes = bytes_of ''packdata'' \<and>
   (\<exists>ps. EachSidebandPacket collect (NewScanner wit_reads EOF) [] = (ps, None) \<and>
      (\<forall>band. on_band band ps = on_band band wit_writes) \<and>
      list_all (\<lambda>(b, d). 0 < length d \<and> length d \<le> MaxSidebandData) ps)"
proof -
  have "on_band 1 wit_writes = bytes_of ''packdata''" by code_simp
  with sideband_round_trip [OF wit_reads_ok] show ?thesis by blast
qed

theorem sideband_reads_equivalent_witness:
  "EachSidebandPacket collect (NewScanner [bytes_of ''00'', bytes_of ''06'', bytes_of ''ab0003''] EOF) [] =
   EachSidebandPacket collect (NewScanner [bytes_of ''0006ab0003''] EOF) []"
  by (rule sideband_reads_equivalent) code_simp+

text \<open>
  The length of a packet may carry a sign: the split function takes \<open>+009\<close> for a length of nine,
  which git does not.
\<close>

lemma signed_length_is_accepted:
  "pktLineSplitter () (bytes_of ''+009done!'') False = ((), 9, Some (bytes_of ''+009done!''), None)"
  by code_simp

end
