(* ===== verification/Git_Stats.thy ===== *)
theory Git_Stats
  imports Pktline
begin

text \<open>
  The parsers of git's wire protocol in \<open>internal/git/stats\<close>: reference discovery, packfile
  negotiation, and the responses to \<open>git-fetch-pack\<close> and \<open>git-send-pack\<close>. Strings are byte lists.
  The times that the parsers record are left out, and the callback for progress packets is the list
  of the packets it receives.
\<close>

section \<open>Loops over packets\<close>

text \<open>
  A \<open>for scanner.Scan()\<close> loop whose body returns from the function, leaves the loop, or goes on. The
  result is the value returned or the loop's state with the scanner's error.
\<close>

datatype ('r, 'a) flow = Return 'r | Break 'a | Continue 'a

function scan_loop ::
  "('a \<Rightarrow> byte list \<Rightarrow> ('r, 'a) flow) \<Rightarrow> (unit, pkt_err) Scanner \<Rightarrow> 'a \<Rightarrow> 'r + 'a \<times> pkt_err scan_err option" where
  "scan_loop body s acc =
     (case Scan pktLineSplitter s of
        (s', None) \<Rightarrow> Inr (acc, Err s')
      | (s', Some pkt) \<Rightarrow>
          (case body acc pkt of
             Return r \<Rightarrow> Inl r
           | Break acc' \<Rightarrow> Inr (acc', Err s')
           | Continue acc' \<Rightarrow> scan_loop body s' acc'))"
  by pat_completeness auto
termination
  by (relation "measure (\<lambda>(body, s, acc). length (remaining s))") (auto intro: pkt.Scan_consumes sym)

declare scan_loop.simps [simp del]

section \<open>Strings\<close>

definition ChompBytes :: "byte list \<Rightarrow> byte list" where
  "ChompBytes b = (if b \<noteq> [] \<and> last b = 10 then butlast b else b)"

text \<open>\<open>strings.SplitN(s, sep, 2)\<close> and \<open>strings.Split(s, sep)\<close> for a separator of one byte.\<close>

definition SplitN2 :: "byte list \<Rightarrow> byte \<Rightarrow> byte list list" where
  "SplitN2 s sep =
     (if sep \<in> set s then [takeWhile (\<lambda>c. c \<noteq> sep) s, tl (dropWhile (\<lambda>c. c \<noteq> sep) s)] else [s])"

fun Split :: "byte list \<Rightarrow> byte \<Rightarrow> byte list list" where
  "Split [] sep = [[]]"
| "Split (c # cs) sep =
     (if c = sep then [] # Split cs sep
      else case Split cs sep of [] \<Rightarrow> [[c]] | w # ws \<Rightarrow> (c # w) # ws)"

section \<open>Reference discovery\<close>

record Reference =
  Oid :: "byte list"
  Name :: "byte list"

record ReferenceDiscovery =
  PayloadSize :: int
  Packets :: nat
  Refs :: "Reference list"
  Caps :: "byte list list"

datatype referenceDiscoveryState = ExpectService | ExpectFlush | ExpectRefWithCaps | ExpectRef | ExpectEnd

datatype discovery_err =
  UnexpectedHeader "byte list" | MissingFlush | InvalidFirstReference | InvalidReference | PacketAfterFlush
  | DiscoveryScan "pkt_err scan_err" | NoReferences | NoCapabilities | EndedPrematurely

definition discovery_packet ::
  "ReferenceDiscovery \<times> referenceDiscoveryState \<Rightarrow> byte list \<Rightarrow>
   (ReferenceDiscovery \<times> discovery_err option, ReferenceDiscovery \<times> referenceDiscoveryState) flow" where
  "discovery_packet ds pkt =
     (case ds of (d0, state) \<Rightarrow>
      let data = ChompBytes (drop 4 pkt);
          d = d0\<lparr>PayloadSize := PayloadSize d0 + int (length data)\<rparr>;
          next = (\<lambda>d state. Continue (d\<lparr>Packets := Packets d + 1\<rparr>, state)) in
      case state of
        ExpectService \<Rightarrow>
          if data \<noteq> bytes_of ''# service=git-upload-pack'' then Return (d, Some (UnexpectedHeader data))
          else next d ExpectFlush
      | ExpectFlush \<Rightarrow>
          if \<not> IsFlush pkt then Return (d, Some MissingFlush) else next d ExpectRefWithCaps
      | ExpectRefWithCaps \<Rightarrow>
          (case SplitN2 data 0 of
             [line, caps] \<Rightarrow>
               (case SplitN2 line 32 of
                  [oid, name] \<Rightarrow>
                    next (d\<lparr>Refs := Refs d @ [\<lparr>Oid = oid, Name = name\<rparr>], Caps := Split caps 32\<rparr>) ExpectRef
                | _ \<Rightarrow> Return (d, Some InvalidReference))
           | _ \<Rightarrow> Return (d, Some InvalidFirstReference))
      | ExpectRef \<Rightarrow>
          if IsFlush pkt then next d ExpectEnd
          else
            (case SplitN2 data 32 of
               [oid, name] \<Rightarrow> next (d\<lparr>Refs := Refs d @ [\<lparr>Oid = oid, Name = name\<rparr>]\<rparr>) ExpectRef
             | _ \<Rightarrow> Return (d, Some InvalidReference))
      | ExpectEnd \<Rightarrow> Return (d, Some PacketAfterFlush))"

definition discovery_end ::
  "ReferenceDiscovery \<times> referenceDiscoveryState \<Rightarrow> pkt_err scan_err option \<Rightarrow> discovery_err option" where
  "discovery_end ds err =
     (case err of
        Some e \<Rightarrow> Some (DiscoveryScan e)
      | None \<Rightarrow>
          if Refs (fst ds) = [] then Some NoReferences
          else if Caps (fst ds) = [] then Some NoCapabilities
          else if snd ds \<noteq> ExpectEnd then Some EndedPrematurely
          else None)"

definition ReferenceDiscovery_Parse ::
  "(unit, pkt_err) Scanner \<Rightarrow> ReferenceDiscovery \<Rightarrow> ReferenceDiscovery \<times> discovery_err option" where
  "ReferenceDiscovery_Parse s d =
     (case scan_loop discovery_packet s (d, ExpectService) of
        Inl r \<Rightarrow> r
      | Inr (ds, err) \<Rightarrow> (fst ds, discovery_end ds err))"

definition ParseReferenceDiscovery :: "(unit, pkt_err) Scanner \<Rightarrow> ReferenceDiscovery \<times> discovery_err option" where
  "ParseReferenceDiscovery s =
     ReferenceDiscovery_Parse s \<lparr>PayloadSize = 0, Packets = 0, Refs = [], Caps = []\<rparr>"

section \<open>Packfile negotiation\<close>

record PackfileNegotiation =
  neg_PayloadSize :: int
  neg_Packets :: nat
  neg_Caps :: "byte list list option"
  Wants :: nat
  Haves :: nat
  Shallows :: nat
  Deepen :: "byte list"
  Filter :: "byte list"

datatype negotiation_err =
  InvalidWant nat "byte list" | CapsTwice nat "byte list" | InvalidShallow nat "byte list"
  | InvalidDeepen nat "byte list" | InvalidFilter nat "byte list" | InvalidHave nat "byte list"
  | NegotiationScan "pkt_err scan_err" | NoWant

definition negotiation_packet ::
  "PackfileNegotiation \<Rightarrow> byte list \<Rightarrow> (PackfileNegotiation \<times> negotiation_err option, PackfileNegotiation) flow" where
  "negotiation_packet n0 pkt =
     (let data = ChompBytes (drop 4 pkt);
          words = Split data 32;
          n = n0\<lparr>neg_PayloadSize := neg_PayloadSize n0 + int (length data)\<rparr>;
          next = (\<lambda>n. Continue (n\<lparr>neg_Packets := neg_Packets n + 1\<rparr>)) in
      if hd words = bytes_of ''want'' then
        (if length words < 2 then Return (n, Some (InvalidWant (neg_Packets n) data))
         else if length words > 2 \<and> neg_Caps n \<noteq> None then Return (n, Some (CapsTwice (neg_Packets n) data))
         else next (n\<lparr>Wants := Wants n + 1,
                      neg_Caps := if length words > 2 then Some (drop 2 words) else neg_Caps n\<rparr>))
      else if hd words = bytes_of ''shallow'' then
        (if length words \<noteq> 2 then Return (n, Some (InvalidShallow (neg_Packets n) data))
         else next (n\<lparr>Shallows := Shallows n + 1\<rparr>))
      else if hd words \<in> {bytes_of ''deepen'', bytes_of ''deepen-since'', bytes_of ''deepen-not''} then
        (if length words \<noteq> 2 then Return (n, Some (InvalidDeepen (neg_Packets n) data))
         else next (n\<lparr>Deepen := data\<rparr>))
      else if hd words = bytes_of ''filter'' then
        (if length words \<noteq> 2 then Return (n, Some (InvalidFilter (neg_Packets n) data))
         else next (n\<lparr>Filter := words ! 1\<rparr>))
      else if hd words = bytes_of ''have'' then
        (if length words \<noteq> 2 then Return (n, Some (InvalidHave (neg_Packets n) data))
         else next (n\<lparr>Haves := Haves n + 1\<rparr>))
      else if hd words = bytes_of ''done'' then Break n
      else next n)"

definition PackfileNegotiation_Parse ::
  "(unit, pkt_err) Scanner \<Rightarrow> PackfileNegotiation \<Rightarrow> PackfileNegotiation \<times> negotiation_err option" where
  "PackfileNegotiation_Parse s n =
     (case scan_loop negotiation_packet s n of
        Inl r \<Rightarrow> r
      | Inr (n', Some e) \<Rightarrow> (n', Some (NegotiationScan e))
      | Inr (n', None) \<Rightarrow> (n', if Wants n' = 0 then Some NoWant else None))"

definition ParsePackfileNegotiation :: "(unit, pkt_err) Scanner \<Rightarrow> PackfileNegotiation \<times> negotiation_err option" where
  "ParsePackfileNegotiation s =
     PackfileNegotiation_Parse s \<lparr>neg_PayloadSize = 0, neg_Packets = 0, neg_Caps = None, Wants = 0, Haves = 0,
       Shallows = 0, Deepen = [], Filter = []\<rparr>"

text \<open>The labels of the counters that \<open>UpdateMetrics\<close> increments.\<close>

definition UpdateMetrics :: "PackfileNegotiation \<Rightarrow> string list" where
  "UpdateMetrics n =
     (if Deepen n \<noteq> [] then [''deepen''] else []) @ (if Filter n \<noteq> [] then [''filter''] else []) @
     (if 0 < Haves n then [''have''] else []) @ [''total'']"

section \<open>Responses\<close>

record bandInfo =
  band_size :: int
  band_packets_seen :: nat

definition bandPack :: string where "bandPack = ''pack''"

definition bandProgress :: string where "bandProgress = ''progress''"

definition bandError :: string where "bandError = ''error''"

definition Bands :: "string list" where
  "Bands = [bandPack, bandProgress, bandError]"

definition bandToHuman :: "byte \<Rightarrow> string option" where
  "bandToHuman b = (if b < 1 \<or> length Bands < unat b then None else Some (Bands ! (unat b - 1)))"

definition consume :: "byte list \<Rightarrow> bandInfo \<Rightarrow> bandInfo" where
  "consume data bi = bi\<lparr>band_size := band_size bi + int (length data), band_packets_seen := band_packets_seen bi + 1\<rparr>"

definition new_multiband :: "(string, bandInfo) gomap" where
  "new_multiband = map (\<lambda>band. (band, \<lparr>band_size = 0, band_packets_seen = 0\<rparr>)) Bands"

text \<open>\<open>multiband[band].consume(data)\<close>, where the map has an entry for every band.\<close>

definition consume_band :: "string \<Rightarrow> byte list \<Rightarrow> (string, bandInfo) gomap \<Rightarrow> (string, bandInfo) gomap" where
  "consume_band band data m = (case map_of m band of None \<Rightarrow> m | Some bi \<Rightarrow> AList.update band (consume data bi) m)"

record FetchPack =
  fp_packets :: nat
  fp_largestPacketSize :: nat
  fp_multiband :: "(string, bandInfo) gomap"
  fp_progress :: "byte list list"

datatype response_err =
  ExtraPacket | ExpectedNAK "byte list" | EmptyPacket | InvalidBand byte | ResponseScan "pkt_err scan_err"
  | NoFlush | ExpectedUnpackOK "byte list" | UpdateFailed "byte list" | UnsupportedLine "byte list"
  | ReceivedError "byte list" | UnsupportedBand string

definition fetch_packet ::
  "FetchPack \<times> bool \<Rightarrow> byte list \<Rightarrow> (FetchPack \<times> response_err option, FetchPack \<times> bool) flow" where
  "fetch_packet fs pkt =
     (case fs of (f0, seenFlush) \<Rightarrow>
      if seenFlush then Return (f0, Some ExtraPacket)
      else
        let f = f0\<lparr>fp_largestPacketSize := max (length pkt) (fp_largestPacketSize f0)\<rparr>;
            data = drop 4 pkt;
            next = (\<lambda>f seen. Continue (f\<lparr>fp_packets := fp_packets f + 1\<rparr>, seen)) in
        if fp_packets f = 0 then
          (if data \<noteq> bytes_of ''NAK'' @ [10] then Return (f, Some (ExpectedNAK data)) else next f False)
        else if IsFlush pkt then next f True
        else
          (case data of
             [] \<Rightarrow> Return (f, Some EmptyPacket)
           | b # bs \<Rightarrow>
               (case bandToHuman b of
                  None \<Rightarrow> Return (f, Some (InvalidBand b))
                | Some band \<Rightarrow>
                    next (f\<lparr>fp_multiband := consume_band band bs (fp_multiband f),
                            fp_progress := if band = bandProgress then fp_progress f @ [bs] else fp_progress f\<rparr>) False)))"

definition FetchPack_Parse :: "(unit, pkt_err) Scanner \<Rightarrow> FetchPack \<Rightarrow> FetchPack \<times> response_err option" where
  "FetchPack_Parse s f =
     (case scan_loop fetch_packet s (f\<lparr>fp_multiband := new_multiband\<rparr>, False) of
        Inl r \<Rightarrow> r
      | Inr ((f', seenFlush), Some e) \<Rightarrow> (f', Some (ResponseScan e))
      | Inr ((f', seenFlush), None) \<Rightarrow> (f', if seenFlush then None else Some NoFlush))"

record SendPack =
  updatedRefs :: nat
  sp_packets :: nat
  sp_largestPacketSize :: nat
  sp_multiband :: "(string, bandInfo) gomap"
  sp_progress :: "byte list list"

text \<open>The packets nested in one packet of the pack band; the inner scanner's error is not looked at.\<close>

definition pack_packet ::
  "SendPack \<times> bool \<Rightarrow> byte list \<Rightarrow> (SendPack \<times> response_err option, SendPack \<times> bool) flow" where
  "pack_packet ss pkt =
     (case ss of (s, seenPack) \<Rightarrow>
      if IsFlush pkt then Break (s, seenPack)
      else
        let data = drop 4 pkt in
        if \<not> seenPack then
          (if data \<noteq> bytes_of ''unpack ok'' @ [10] then Return (s, Some (ExpectedUnpackOK data))
           else Continue (s, True))
        else if take 3 data = bytes_of ''ok '' then Continue (s\<lparr>updatedRefs := updatedRefs s + 1\<rparr>, seenPack)
        else if take 3 data = bytes_of ''ng '' then Return (s, Some (UpdateFailed data))
        else Return (s, Some (UnsupportedLine data)))"

definition send_packet ::
  "SendPack \<times> bool \<times> bool \<Rightarrow> byte list \<Rightarrow> (SendPack \<times> response_err option, SendPack \<times> bool \<times> bool) flow" where
  "send_packet ss pkt =
     (case ss of (s, seenFlush, seenPack) \<Rightarrow>
      let next = (\<lambda>s seenFlush seenPack. Continue (s\<lparr>sp_packets := sp_packets s + 1\<rparr>, seenFlush, seenPack)) in
      if seenFlush then Return (s, Some ExtraPacket)
      else if IsFlush pkt then next s True seenPack
      else
        (case drop 4 pkt of
           [] \<Rightarrow> Return (s, Some EmptyPacket)
         | b # bs \<Rightarrow>
             let s1 = s\<lparr>sp_largestPacketSize := max (length (b # bs)) (sp_largestPacketSize s)\<rparr> in
             (case bandToHuman b of
                None \<Rightarrow> Return (s1, Some (InvalidBand b))
              | Some band \<Rightarrow>
                  let s2 = s1\<lparr>sp_multiband := consume_band band (b # bs) (sp_multiband s1)\<rparr> in
                  if band = bandPack then
                    (case scan_loop pack_packet (NewScanner (if bs = [] then [] else [bs]) EOF) (s2, seenPack) of
                       Inl r \<Rightarrow> Return r
                     | Inr ((s3, seenPack'), err) \<Rightarrow> next s3 False seenPack')
                  else if band = bandProgress then next (s2\<lparr>sp_progress := sp_progress s2 @ [bs]\<rparr>) False seenPack
                  else if band = bandError then Return (s2, Some (ReceivedError bs))
                  else Return (s2, Some (UnsupportedBand band)))))"

definition SendPack_Parse :: "(unit, pkt_err) Scanner \<Rightarrow> SendPack \<Rightarrow> SendPack \<times> response_err option" where
  "SendPack_Parse sc s =
     (case scan_loop send_packet sc (s\<lparr>sp_multiband := new_multiband\<rparr>, False, False) of
        Inl r \<Rightarrow> r
      | Inr ((s', seenFlush, seenPack), err) \<Rightarrow> (s', None))"

section \<open>Loops over well-formed streams\<close>

definition packet :: "byte list \<Rightarrow> bool" where
  "packet p \<longleftrightarrow> p \<noteq> [] \<and> length p \<le> maxPktSize \<and> pktLineSplitter () p False = ((), length p, Some p, None)"

text \<open>What \<open>WriteString\<close> writes for a string that fits.\<close>

definition pkt_line :: "byte list \<Rightarrow> byte list" where
  "pkt_line str = fst (WriteString buffer [] str)"

lemma pkt_line_alt:
  assumes "length str + 4 \<le> maxPktSize"
  shows "pkt_line str = fmt_04x (length str + 4) @ str" "drop 4 (pkt_line str) = str" "packet (pkt_line str)"
proof -
  show eq: "pkt_line str = fmt_04x (length str + 4) @ str"
    using assms by (simp add: pkt_line_def WriteString_def buffer_def)
  have len: "length (fmt_04x (length str + 4)) = 4"
    by (rule header_length) (use assms in \<open>simp add: maxPktSize_def\<close>)
  then show "drop 4 (pkt_line str) = str" by (simp add: eq)
  from len have "fmt_04x (length str + 4) \<noteq> []" by auto
  with assms len show "packet (pkt_line str)"
    by (simp add: eq packet_def pktLineSplitter.simps header_read)
qed

lemma flush_packet: "packet PktFlush" "drop 4 PktFlush = []" "IsFlush PktFlush"
proof -
  have "length PktFlush = 4" "ParseInt16 PktFlush = Some 0" by code_simp+
  then show "packet PktFlush" "drop 4 PktFlush = []" by (auto simp: packet_def pktLineSplitter.simps maxPktSize_def)
qed (simp add: IsFlush_def)

lemma pkt_line_not_flush: "length str + 4 \<le> maxPktSize \<Longrightarrow> str \<noteq> [] \<Longrightarrow> \<not> IsFlush (pkt_line str)"
  using pkt_line_alt(2) [of str] flush_packet(2) by (auto simp: IsFlush_def)

fun run_loop :: "('a \<Rightarrow> byte list \<Rightarrow> ('r, 'a) flow) \<Rightarrow> byte list list \<Rightarrow> 'a \<Rightarrow> 'r + 'a" where
  "run_loop body [] acc = Inr acc"
| "run_loop body (p # ps) acc =
     (case body acc p of Return r \<Rightarrow> Inl r | Break acc' \<Rightarrow> Inr acc' | Continue acc' \<Rightarrow> run_loop body ps acc')"

lemma wf_Err: "scanner_wf s \<Longrightarrow> Err s = None"
  by (auto simp: scanner_wf_def Err_def)

text \<open>Over a stream of packets, cut into reads in any way, the loop sees one packet after the other.\<close>

lemma scan_loop_packets:
  assumes "scanner_wf s" "maxTokenSize s = maxPktSize" "remaining s = concat ps" "\<forall>p \<in> set ps. packet p"
  shows "scan_loop body s acc = (case run_loop body ps acc of Inl r \<Rightarrow> Inl r | Inr a \<Rightarrow> Inr (a, None))"
  using assms
proof (induction ps arbitrary: s acc)
  case Nil
  with pkt.Scan_next [OF Nil(1)] empty_next obtain s' where "Scan pktLineSplitter s = (s', None)" "Err s' = None"
    by auto
  then show ?case by (simp add: scan_loop.simps)
next
  case (Cons p ps)
  then have p: "p \<noteq> []" "length p \<le> maxPktSize" "pktLineSplitter () p False = ((), length p, Some p, None)"
    by (simp_all add: packet_def)
  with pkt.next_token_decided [OF p(3) _ p(1,2), of "concat ps"] Cons.prems(3)
  have "next_token pktLineSplitter maxPktSize () (remaining s) = Token () (length p) p" by simp
  with pkt.Scan_next [OF Cons.prems(1)] Cons.prems(2,3) obtain s' where
    s': "Scan pktLineSplitter s = (s', Some p)" "scanner_wf s'" "remaining s' = concat ps" "maxTokenSize s' = maxPktSize"
    by auto
  from Cons.IH [OF s'(2,4,3)] Cons.prems(4) s'(1) wf_Err [OF s'(2)] show ?case
    by (subst scan_loop.simps) (simp split: flow.split)
qed

lemma scan_loop_NewScanner:
  assumes "concat cs = concat ps" "[] \<notin> set cs" "\<forall>p \<in> set ps. packet p"
  shows "scan_loop body (NewScanner cs EOF) acc =
    (case run_loop body ps acc of Inl r \<Rightarrow> Inl r | Inr a \<Rightarrow> Inr (a, None))"
  by (rule scan_loop_packets) (use NewScanner_wf [OF assms(2)] assms in simp_all)

section \<open>Reference discovery reads back what was announced\<close>

lemma ChompBytes_newline [simp]: "ChompBytes (b @ [10]) = b"
  by (simp add: ChompBytes_def)

lemma SplitN2_at: "sep \<notin> set a \<Longrightarrow> SplitN2 (a @ sep # b) sep = [a, b]"
  by (auto simp: SplitN2_def takeWhile_append dropWhile_append)

fun join_words :: "byte list list \<Rightarrow> byte list" where
  "join_words [] = []"
| "join_words [w] = w"
| "join_words (w # ws) = w @ 32 # join_words ws"

lemma Split_word: "sep \<notin> set w \<Longrightarrow> Split w sep = [w]"
  by (induction w) auto

lemma Split_append: "sep \<notin> set w \<Longrightarrow> Split (w @ sep # s) sep = w # Split s sep"
  by (induction w) auto

lemma Split_join: "ws \<noteq> [] \<Longrightarrow> \<forall>w \<in> set ws. 32 \<notin> set w \<Longrightarrow> Split (join_words ws) 32 = ws"
  by (induction ws rule: join_words.induct) (auto simp: Split_word Split_append)

definition ref_line :: "Reference \<Rightarrow> byte list" where
  "ref_line r = (Oid r @ 32 # Name r) @ [10]"

definition first_line :: "Reference \<Rightarrow> byte list list \<Rightarrow> byte list" where
  "first_line r caps = ((Oid r @ 32 # Name r) @ 0 # join_words caps) @ [10]"

text \<open>What \<open>git upload-pack\<close> announces over HTTP.\<close>

definition advertisement_packets :: "Reference list \<Rightarrow> byte list list \<Rightarrow> byte list list" where
  "advertisement_packets refs caps =
     pkt_line (bytes_of ''# service=git-upload-pack'' @ [10]) # PktFlush #
     pkt_line (first_line (hd refs) caps) # map (\<lambda>r. pkt_line (ref_line r)) (tl refs) @ [PktFlush]"

lemma ref_line_chomp:
  "ChompBytes (ref_line r) = Oid r @ 32 # Name r" "ref_line r \<noteq> []"
  "ChompBytes (first_line r caps) = (Oid r @ 32 # Name r) @ 0 # join_words caps"
  unfolding ref_line_def first_line_def by (rule ChompBytes_newline, simp, rule ChompBytes_newline)

definition ref_ok :: "Reference \<Rightarrow> bool" where
  "ref_ok r \<longleftrightarrow> 32 \<notin> set (Oid r) \<and> 0 \<notin> set (Oid r) \<and> 0 \<notin> set (Name r)"

lemma discovery_refs:
  assumes "\<forall>r \<in> set rs. ref_ok r \<and> length (ref_line r) + 4 \<le> maxPktSize"
  shows "\<exists>k. run_loop discovery_packet (map (\<lambda>r. pkt_line (ref_line r)) rs @ [PktFlush]) (d, ExpectRef) =
    Inr (d\<lparr>PayloadSize := k, Packets := Packets d + length rs + 1, Refs := Refs d @ rs\<rparr>, ExpectEnd)"
  using assms
proof (induction rs arbitrary: d)
  case Nil
  show ?case
    by (rule exI [of _ "PayloadSize d"]) (simp add: discovery_packet_def flush_packet ChompBytes_def Let_def)
next
  case (Cons r rs)
  let ?d = "d\<lparr>PayloadSize := PayloadSize d + int (length (Oid r @ 32 # Name r)), Packets := Packets d + 1, Refs := Refs d @ [r]\<rparr>"
  from Cons.prems have ok: "32 \<notin> set (Oid r)" "length (ref_line r) + 4 \<le> maxPktSize" by (auto simp: ref_ok_def)
  have "discovery_packet (d, ExpectRef) (pkt_line (ref_line r)) = Continue (?d, ExpectRef)"
    using pkt_line_alt(2) [OF ok(2)] pkt_line_not_flush [OF ok(2)] SplitN2_at [OF ok(1)]
    by (simp add: discovery_packet_def ref_line_chomp Let_def)
  moreover from Cons.IH [of ?d] Cons.prems obtain k where
    "run_loop discovery_packet (map (\<lambda>r. pkt_line (ref_line r)) rs @ [PktFlush]) (?d, ExpectRef) =
      Inr (?d\<lparr>PayloadSize := k, Packets := Packets ?d + length rs + 1, Refs := Refs ?d @ rs\<rparr>, ExpectEnd)"
    by auto
  ultimately show ?case by (intro exI [of _ k]) simp
qed

text \<open>
  C27. The references and the capabilities that a server announces are exactly those that
  \<open>ParseReferenceDiscovery\<close> returns, in the same order and without an error, however the response is
  cut into reads: for every non-empty list of references whose object ids hold no space and whose
  fields hold no zero byte, and every non-empty list of capabilities without spaces, as long as each
  line fits into a packet.
\<close>

theorem discovery_round_trip:
  assumes "refs \<noteq> []" and "caps \<noteq> []"
    and "list_all ref_ok refs" and "list_all (\<lambda>c. 32 \<notin> set c) caps"
    and "length (first_line (hd refs) caps) + 4 \<le> maxPktSize"
    and "list_all (\<lambda>r. length (ref_line r) + 4 \<le> maxPktSize) refs"
    and "concat cs = concat (advertisement_packets refs caps)" and "[] \<notin> set cs"
  shows "\<exists>d. ParseReferenceDiscovery (NewScanner cs EOF) = (d, None) \<and>
    Refs d = refs \<and> Caps d = caps \<and> Packets d = length refs + 3"
proof -
  obtain r rs where refs: "refs = r # rs" using assms(1) by (cases refs) auto
  let ?service = "bytes_of ''# service=git-upload-pack''"
  have len: "length (?service @ [10]) + 4 \<le> maxPktSize" by (simp add: bytes_of_def maxPktSize_def)
  note svc = pkt_line_alt [OF len] and fst = pkt_line_alt [OF assms(5)]
  have rs: "\<forall>r \<in> set rs. ref_ok r \<and> length (ref_line r) + 4 \<le> maxPktSize"
    using assms(3,6) by (auto simp: refs list_all_iff)
  have packets: "\<forall>p \<in> set (advertisement_packets refs caps). packet p"
    using svc(3) fst(3) flush_packet(1) rs by (auto simp: advertisement_packets_def refs intro: pkt_line_alt)
  from assms(3) have ok: "32 \<notin> set (Oid r)" "0 \<notin> set (Oid r @ 32 # Name r)" by (auto simp: refs ref_ok_def)
  note splits = SplitN2_at [OF ok(1), of "Name r"] SplitN2_at [OF ok(2), of "join_words caps"]
  have caps: "Split (join_words caps) 32 = caps"
    using assms(2,4) by (intro Split_join) (auto simp: list_all_iff)
  let ?d0 = "\<lparr>PayloadSize = 0, Packets = 0, Refs = [], Caps = []\<rparr>"
  define d where "d = \<lparr>PayloadSize = int (length ?service) +
    int (length ((Oid r @ 32 # Name r) @ 0 # join_words caps)), Packets = 3,
    Refs = [\<lparr>Oid = Oid r, Name = Name r\<rparr>], Caps = caps\<rparr>"
  have "run_loop discovery_packet (advertisement_packets refs caps) (?d0, ExpectService) =
    run_loop discovery_packet (map (\<lambda>r. pkt_line (ref_line r)) rs @ [PktFlush]) (d, ExpectRef)"
    using svc(2) fst(2) flush_packet splits caps
    by (simp add: advertisement_packets_def refs discovery_packet_def Let_def ref_line_chomp d_def
        ChompBytes_def [of "[]"] numeral_3_eq_3 del: append_assoc)
  with discovery_refs [OF rs, of d] obtain k where
    "run_loop discovery_packet (advertisement_packets refs caps) (?d0, ExpectService) =
      Inr (d\<lparr>PayloadSize := k, Packets := Packets d + length rs + 1, Refs := Refs d @ rs\<rparr>, ExpectEnd)"
    by auto
  then show ?thesis
    using scan_loop_NewScanner [OF assms(7,8) packets, where body = discovery_packet] assms(2)
    by (simp add: ParseReferenceDiscovery_def ReferenceDiscovery_Parse_def discovery_end_def refs d_def)
qed

text \<open>
  An empty response, which reports neither \<open>unpack ok\<close> nor the end of the reports, is taken for a
  successful push. \<open>FetchPack.Parse\<close> rejects such a response.
\<close>

lemma empty_push_response_is_accepted:
  "snd (SendPack_Parse (NewScanner [] EOF) s) = None"
  "snd (FetchPack_Parse (NewScanner [] EOF) f) = Some NoFlush"
  using scan_loop_NewScanner [of "[]" "[]" send_packet] scan_loop_NewScanner [of "[]" "[]" fetch_packet]
  by (simp_all add: SendPack_Parse_def FetchPack_Parse_def)

definition wit_refs :: "Reference list" where
  "wit_refs = [\<lparr>Oid = bytes_of ''78fb81a0'', Name = bytes_of ''HEAD''\<rparr>,
     \<lparr>Oid = bytes_of ''78fb81a0'', Name = bytes_of ''refs/heads/master''\<rparr>]"

definition wit_caps :: "byte list list" where
  "wit_caps = [bytes_of ''multi_ack'', bytes_of ''side-band-64k'']"

theorem discovery_round_trip_witness:
  "\<exists>d. ParseReferenceDiscovery (NewScanner (advertisement_packets wit_refs wit_caps) EOF) = (d, None) \<and>
     Refs d = wit_refs \<and> Caps d = wit_caps \<and> Packets d = 5"
proof -
  have ok: "list_all ref_ok wit_refs" "list_all (\<lambda>c. 32 \<notin> set c) wit_caps" by code_simp+
  have "list_all (\<lambda>r. length (ref_line r) < 100) wit_refs" "length (first_line (hd wit_refs) wit_caps) < 100"
    by code_simp+
  then have len: "length (first_line (hd wit_refs) wit_caps) + 4 \<le> maxPktSize"
    "list_all (\<lambda>r. length (ref_line r) + 4 \<le> maxPktSize) wit_refs"
    by (auto simp: maxPktSize_def list_all_iff)
  have ne: "wit_refs \<noteq> []" "wit_caps \<noteq> []" "length wit_refs = 2" by code_simp+
  have service: "length (bytes_of ''# service=git-upload-pack'' @ [10]) + 4 \<le> maxPktSize"
    by (simp add: bytes_of_def maxPktSize_def)
  have "packet p" if "p \<in> set (advertisement_packets wit_refs wit_caps)" for p
    using that len flush_packet(1) pkt_line_alt(3) [OF service] pkt_line_alt(3) list.set_sel(2) [OF ne(1)]
    by (auto simp: advertisement_packets_def list_all_iff)
  then have "[] \<notin> set (advertisement_packets wit_refs wit_caps)" by (auto simp: packet_def)
  with discovery_round_trip [OF ne(1,2) ok len refl] ne(3) show ?thesis by simp
qed

end
