(* ===== verification/Conflict_Parser.thy ===== *)
theory Conflict_Parser
  imports Bufio_Scanner
begin

text \<open>
  The parser and resolver of files with conflict markers, \<open>internal/git/conflict/parser.go\<close>. Text is
  a list of bytes. The split function is a closure over \<open>bytesRead\<close>, which is its state. The SHA-1 of
  a path is an argument of the definitions that use it, and line numbers are natural numbers: a file
  has fewer bytes than \<open>fileLimit\<close>, so that they cannot wrap.
\<close>

section \<open>Types\<close>

datatype conflict_err = ErrUnmergeableFile | ErrUnexpectedDelimiter | ErrMissingEndDelimiter | ScannerErr

datatype sect = sectionNone | sectionOld | sectionNew | sectionNoNewline

definition fileLimit :: nat where
  "fileLimit = 204800"

record conflict_line =
  objIndex :: nat
  oldIndex :: nat
  newIndex :: nat
  payload :: "byte list"
  line_section :: sect

record Entry =
  Path :: "byte list"
  Mode :: nat
  Contents :: "byte list"

record File =
  file_path :: "byte list"
  file_lines :: "conflict_line list"
  ancestor :: "Entry option"
  our :: Entry
  their :: Entry

record Resolution =
  OldPath :: "byte list"
  NewPath :: "byte list"
  Sections :: "(string, string) gomap"
  Content :: "byte list"

section \<open>Parsing\<close>

fun conflict_split :: "(nat, conflict_err) split_fun" where
  "conflict_split bytesRead data atEOF =
     (if fileLimit \<le> bytesRead then (bytesRead, 0, None, Some ErrUnmergeableFile)
      else if atEOF \<and> data = [] then (bytesRead, 0, None, None)
      else if 10 \<in> set data then
        (let i = length (takeWhile (\<lambda>c. c \<noteq> 10) data) in (bytesRead + (i + 1), i + 1, Some (take i data), None))
      else if atEOF then (bytesRead + length data, length data, Some data, None)
      else (bytesRead, 0, None, None))"

declare conflict_split.simps [simp del]

definition conflict_scanner :: "byte list list \<Rightarrow> read_err \<Rightarrow> (nat, conflict_err) Scanner" where
  "conflict_scanner cs fin = \<lparr>bufsize = 4096, maxTokenSize = fileLimit, start = 0, pending = [],
     reads = cs, final = fin, serr = None, split_state = 0\<rparr>"

record parse_state =
  parsed :: "conflict_line list"
  obj :: nat
  old :: nat
  new :: nat
  currentSection :: sect

definition start_marker :: "Entry \<Rightarrow> byte list" where
  "start_marker ours = map of_char ''<<<<<<< '' @ Path ours"

definition middle_marker :: "byte list" where
  "middle_marker = map of_char ''=======''"

definition end_marker :: "Entry \<Rightarrow> byte list" where
  "end_marker theirs = map of_char ''>>>>>>> '' @ Path theirs"

text \<open>The body of the loop over the lines: the \<open>switch\<close> takes the first case that matches.\<close>

definition parse_line :: "Entry \<Rightarrow> Entry \<Rightarrow> parse_state \<Rightarrow> byte list \<Rightarrow> conflict_err + parse_state" where
  "parse_line ours theirs s l =
     (if l = start_marker ours then
        (if currentSection s \<noteq> sectionNone then Inl ErrUnexpectedDelimiter
         else Inr (s\<lparr>currentSection := sectionNew\<rparr>))
      else if l = middle_marker then
        (if currentSection s \<noteq> sectionNew then Inl ErrUnexpectedDelimiter
         else Inr (s\<lparr>currentSection := sectionOld\<rparr>))
      else if l = end_marker theirs then
        (if currentSection s \<noteq> sectionOld then Inl ErrUnexpectedDelimiter
         else Inr (s\<lparr>currentSection := sectionNone\<rparr>))
      else if l \<noteq> [] \<and> hd l = 92 then
        Inr (s\<lparr>currentSection := sectionNoNewline,
               parsed := parsed s @ [\<lparr>objIndex = obj s, oldIndex = old s, newIndex = new s, payload = l,
                                      line_section = sectionNoNewline\<rparr>]\<rparr>)
      else
        Inr (s\<lparr>parsed := parsed s @ [\<lparr>objIndex = obj s, oldIndex = old s, newIndex = new s, payload = l,
                                      line_section = currentSection s\<rparr>],
               obj := obj s + 1,
               old := if currentSection s \<noteq> sectionNew then old s + 1 else old s,
               new := if currentSection s \<noteq> sectionOld then new s + 1 else new s\<rparr>))"

section \<open>The split function obeys the scanner's contract\<close>

lemma conflict_decided:
  assumes "d \<noteq> []" and "conflict_split st d False = (st', adv, tok, err)" and "tok \<noteq> None \<or> err \<noteq> None"
  shows "conflict_split st (d @ x) eof = (st', adv, tok, err)"
  using assms by (auto simp: conflict_split.simps takeWhile_append Let_def length_takeWhile_le split: if_splits)

lemma conflict_token:
  assumes "conflict_split st d eof = (st', adv, Some t, None)"
  shows "0 < adv \<and> adv \<le> length d \<and> st' = st + adv"
proof -
  have "length (takeWhile (\<lambda>c. c \<noteq> 10) d) < length d" if "10 \<in> set d"
    using that by (induction d) auto
  with assms show ?thesis by (auto simp: conflict_split.simps Let_def Suc_le_eq split: if_splits)
qed

interpretation conflict: scan_split conflict_split
proof unfold_locales
  fix st st' :: nat and d x adv tok err eof t
  show "d \<noteq> [] \<Longrightarrow> conflict_split st d False = (st', adv, tok, err) \<Longrightarrow> tok \<noteq> None \<or> err \<noteq> None \<Longrightarrow>
      conflict_split st (d @ x) eof = (st', adv, tok, err)"
    by (rule conflict_decided)
  show "conflict_split st d eof = (st', adv, Some t, None) \<Longrightarrow> 0 < adv \<and> adv \<le> length d"
    using conflict_token by blast
qed (auto simp: conflict_split.simps Let_def split: if_splits)

function parse_loop ::
  "Entry \<Rightarrow> Entry \<Rightarrow> (nat, conflict_err) Scanner \<Rightarrow> parse_state \<Rightarrow>
   conflict_err + parse_state \<times> conflict_err scan_err option \<times> nat" where
  "parse_loop ours theirs s ps =
     (case Scan conflict_split s of
        (s', None) \<Rightarrow> Inr (ps, Err s', split_state s')
      | (s', Some l) \<Rightarrow>
          (case parse_line ours theirs ps l of
             Inl err \<Rightarrow> Inl err
           | Inr ps' \<Rightarrow> parse_loop ours theirs s' ps'))"
  by pat_completeness auto
termination
  by (relation "measure (\<lambda>(ours, theirs, s, ps). length (remaining s))") (auto intro: conflict.Scan_consumes sym)

declare parse_loop.simps [simp del]

definition parse_init :: parse_state where
  "parse_init = \<lparr>parsed = [], obj = 0, old = 1, new = 1, currentSection = sectionNone\<rparr>"

definition Parse :: "(nat, conflict_err) Scanner \<Rightarrow> Entry option \<Rightarrow> Entry \<Rightarrow> Entry \<Rightarrow> conflict_err + File" where
  "Parse s anc ours theirs =
     (case parse_loop ours theirs s parse_init of
        Inl err \<Rightarrow> Inl err
      | Inr (ps, Some TooLong, bytesRead) \<Rightarrow> Inl ErrUnmergeableFile
      | Inr (ps, Some (SplitErr err), bytesRead) \<Rightarrow> Inl err
      | Inr (ps, Some _, bytesRead) \<Rightarrow> Inl ScannerErr
      | Inr (ps, None, bytesRead) \<Rightarrow>
          if currentSection ps = sectionOld \<or> currentSection ps = sectionNew then Inl ErrMissingEndDelimiter
          else if bytesRead = 0 then Inl ErrUnmergeableFile
          else Inr \<lparr>file_path = (case anc of None \<Rightarrow> Path ours | Some a \<Rightarrow> Path a), file_lines = parsed ps,
                    ancestor = anc, our = ours, their = theirs\<rparr>)"

section \<open>Resolving\<close>

fun decimal :: "nat \<Rightarrow> string" where
  "decimal n = (if n < 10 then [char_of (48 + n)] else decimal (n div 10) @ [char_of (48 + n mod 10)])"

declare decimal.simps [simp del]

definition sectionID :: "(byte list \<Rightarrow> string) \<Rightarrow> File \<Rightarrow> conflict_line \<Rightarrow> string" where
  "sectionID sha1 f l = sha1 (file_path f) @ ''_'' @ decimal (oldIndex l) @ ''_'' @ decimal (newIndex l)"

definition head :: string where "head = ''head''"

definition origin :: string where "origin = ''origin''"

datatype resolve_err = MissingResolution string

fun resolve_lines ::
  "(byte list \<Rightarrow> string) \<Rightarrow> File \<Rightarrow> (string, string) gomap \<Rightarrow> string \<Rightarrow> conflict_line list \<Rightarrow> resolve_err + byte list list" where
  "resolve_lines sha1 f sections sid [] = Inr []"
| "resolve_lines sha1 f sections sid (l # ls) =
     (if line_section l = sectionNone then map_sum id (\<lambda>r. payload l # r) (resolve_lines sha1 f sections '''' ls)
      else
        let sid' = if sid = '''' then sectionID sha1 f l else sid in
        (case map_of sections sid' of
           None \<Rightarrow> Inl (MissingResolution sid')
         | Some r \<Rightarrow>
             if r = head then
               (if line_section l \<noteq> sectionNew then resolve_lines sha1 f sections sid' ls
                else map_sum id (\<lambda>r. payload l # r) (resolve_lines sha1 f sections sid' ls))
             else if r = origin then
               (if line_section l \<noteq> sectionOld then resolve_lines sha1 f sections sid' ls
                else map_sum id (\<lambda>r. payload l # r) (resolve_lines sha1 f sections sid' ls))
             else Inl (MissingResolution sid')))"

fun Join :: "byte list list \<Rightarrow> byte list" where
  "Join [] = []"
| "Join [l] = l"
| "Join (l # ls) = l @ 10 # Join ls"

definition Resolve :: "(byte list \<Rightarrow> string) \<Rightarrow> File \<Rightarrow> Resolution \<Rightarrow> resolve_err + byte list" where
  "Resolve sha1 f r =
     (if Sections r = [] then Inr (Content r)
      else
        (case resolve_lines sha1 f (Sections r) '''' (file_lines f) of
           Inl err \<Rightarrow> Inl err
         | Inr ls \<Rightarrow>
             Inr (Join ls @ (if Contents (our f) \<noteq> [] \<and> last (Contents (our f)) = 10 then [10] else []))))"

section \<open>Parsing whole lines\<close>

lemma scanner_ok:
  assumes "[] \<notin> set cs"
  shows "scanner_wf (conflict_scanner cs EOF)" "remaining (conflict_scanner cs EOF) = concat cs"
    "maxTokenSize (conflict_scanner cs EOF) = fileLimit" "split_state (conflict_scanner cs EOF) = 0"
  using assms by (simp_all add: scanner_wf_def conflict_scanner_def remaining_def fileLimit_def)

fun run_parse :: "Entry \<Rightarrow> Entry \<Rightarrow> parse_state \<Rightarrow> byte list list \<Rightarrow> conflict_err + parse_state" where
  "run_parse ours theirs ps [] = Inr ps"
| "run_parse ours theirs ps (l # ls) =
     (case parse_line ours theirs ps l of Inl err \<Rightarrow> Inl err | Inr ps' \<Rightarrow> run_parse ours theirs ps' ls)"

definition newline_terminated :: "byte list list \<Rightarrow> byte list" where
  "newline_terminated ls = concat (map (\<lambda>l. l @ [10]) ls)"

lemma line_next:
  assumes "10 \<notin> set l" "length l < fileLimit" "st < fileLimit"
  shows "next_token conflict_split fileLimit st ((l @ [10]) @ rest) = Token (st + (length l + 1)) (length l + 1) l"
proof -
  have "takeWhile (\<lambda>c. c \<noteq> 10) (l @ [10]) = l" using assms(1) by (induction l) auto
  then have "conflict_split st (l @ [10]) False = (st + (length l + 1), length l + 1, Some l, None)"
    using assms(3) by (simp add: conflict_split.simps Let_def)
  from conflict.next_token_decided [OF this, of fileLimit rest] assms(2) show ?thesis by simp
qed

lemma parse_loop_lines:
  assumes "scanner_wf s" "maxTokenSize s = fileLimit" "remaining s = newline_terminated ls"
    and "\<forall>l \<in> set ls. 10 \<notin> set l" and "split_state s + length (remaining s) < fileLimit"
  shows "parse_loop ours theirs s ps =
    map_sum id (\<lambda>ps'. (ps', None, split_state s + length (remaining s))) (run_parse ours theirs ps ls)"
  using assms
proof (induction ls arbitrary: s ps)
  case Nil
  then have "next_token conflict_split fileLimit (split_state s) (remaining s) = Stop (split_state s) None"
    by (simp add: next_token_def conflict_split.simps newline_terminated_def)
  with conflict.Scan_next [OF Nil(1)] Nil(2) obtain s' where
    "Scan conflict_split s = (s', None)" "Err s' = None" "split_state s' = split_state s"
    by auto
  with Nil(3) show ?case by (simp add: parse_loop.simps newline_terminated_def)
next
  case (Cons l ls)
  have rem: "remaining s = (l @ [10]) @ newline_terminated ls"
    using Cons.prems(3) by (simp add: newline_terminated_def)
  from Cons.prems(5) have len: "split_state s + length l < fileLimit" unfolding rem by simp
  have "next_token conflict_split fileLimit (split_state s) (remaining s) =
    Token (split_state s + (length l + 1)) (length l + 1) l"
    unfolding rem by (rule line_next) (use Cons.prems(4) len in simp_all)
  with conflict.Scan_next [OF Cons.prems(1)] Cons.prems(2) obtain s' where
    s': "Scan conflict_split s = (s', Some l)" "scanner_wf s'" "remaining s' = drop (length l + 1) (remaining s)"
    "split_state s' = split_state s + (length l + 1)" "maxTokenSize s' = fileLimit"
    by auto
  from s'(3) have rem': "remaining s' = newline_terminated ls" by (simp add: rem)
  have total: "split_state s' + length (remaining s') = split_state s + length (remaining s)"
    using s'(4) by (simp add: rem rem')
  have "parse_loop ours theirs s' ps' =
    map_sum id (\<lambda>ps'. (ps', None, split_state s + length (remaining s))) (run_parse ours theirs ps' ls)" for ps'
  proof -
    have "\<forall>l \<in> set ls. 10 \<notin> set l" "split_state s' + length (remaining s') < fileLimit"
      using Cons.prems(4,5) total by simp_all
    from Cons.IH [OF s'(2,5) rem' this] show ?thesis unfolding total .
  qed
  with s'(1) show ?case
    by (subst parse_loop.simps) (simp split: sum.split)
qed

text \<open>\<open>Parse\<close> on a file below the limit, whatever the reads.\<close>

definition parsed_file :: "Entry option \<Rightarrow> Entry \<Rightarrow> Entry \<Rightarrow> conflict_err + parse_state \<Rightarrow> conflict_err + File" where
  "parsed_file anc ours theirs r =
     (case r of
        Inl err \<Rightarrow> Inl err
      | Inr ps \<Rightarrow>
          if currentSection ps = sectionOld \<or> currentSection ps = sectionNew then Inl ErrMissingEndDelimiter
          else Inr \<lparr>file_path = (case anc of None \<Rightarrow> Path ours | Some a \<Rightarrow> Path a), file_lines = parsed ps,
                    ancestor = anc, our = ours, their = theirs\<rparr>)"

lemma Parse_lines:
  assumes "concat cs = newline_terminated ls" "[] \<notin> set cs" "\<forall>l \<in> set ls. 10 \<notin> set l" "ls \<noteq> []"
    and "length (newline_terminated ls) < fileLimit"
  shows "Parse (conflict_scanner cs EOF) anc ours theirs =
    parsed_file anc ours theirs (run_parse ours theirs parse_init ls)"
proof -
  have pos: "0 < length (newline_terminated ls)"
    using assms(4) by (cases ls) (simp_all add: newline_terminated_def)
  have "parse_loop ours theirs (conflict_scanner cs EOF) parse_init =
    map_sum id (\<lambda>ps'. (ps', None, length (newline_terminated ls))) (run_parse ours theirs parse_init ls)"
    using parse_loop_lines [of "conflict_scanner cs EOF" ls ours theirs parse_init] scanner_ok [OF assms(2)] assms
    by simp
  then show ?thesis
    using pos by (cases "run_parse ours theirs parse_init ls") (auto simp: Parse_def parsed_file_def)
qed

section \<open>Conflicts parse and resolve to either side\<close>

datatype segment = Common "byte list" | Conflict "byte list list" "byte list list"

fun segment_lines :: "Entry \<Rightarrow> Entry \<Rightarrow> segment \<Rightarrow> byte list list" where
  "segment_lines ours theirs (Common l) = [l]"
| "segment_lines ours theirs (Conflict a b) =
     start_marker ours # a @ middle_marker # b @ [end_marker theirs]"

text \<open>The file with conflict markers that a merge leaves.\<close>

definition merged_lines :: "Entry \<Rightarrow> Entry \<Rightarrow> segment list \<Rightarrow> byte list list" where
  "merged_lines ours theirs segs = concat (map (segment_lines ours theirs) segs)"

fun segment_payload :: "segment \<Rightarrow> (byte list \<times> sect) list" where
  "segment_payload (Common l) = [(l, sectionNone)]"
| "segment_payload (Conflict a b) = map (\<lambda>l. (l, sectionNew)) a @ map (\<lambda>l. (l, sectionOld)) b"

fun our_side :: "segment \<Rightarrow> byte list list" where
  "our_side (Common l) = [l]"
| "our_side (Conflict a b) = a"

fun their_side :: "segment \<Rightarrow> byte list list" where
  "their_side (Common l) = [l]"
| "their_side (Conflict a b) = b"

definition plain_line :: "Entry \<Rightarrow> Entry \<Rightarrow> byte list \<Rightarrow> bool" where
  "plain_line ours theirs l \<longleftrightarrow>
     l \<noteq> start_marker ours \<and> l \<noteq> middle_marker \<and> l \<noteq> end_marker theirs \<and> 10 \<notin> set l \<and> (l = [] \<or> hd l \<noteq> 92)"

definition segment_ok :: "Entry \<Rightarrow> Entry \<Rightarrow> segment \<Rightarrow> bool" where
  "segment_ok ours theirs seg \<longleftrightarrow> list_all (plain_line ours theirs) (our_side seg @ their_side seg)"

definition content :: "conflict_line \<Rightarrow> byte list \<times> sect" where
  "content l = (payload l, line_section l)"

lemma parse_plain:
  assumes "plain_line ours theirs l"
  obtains ps' where "parse_line ours theirs ps l = Inr ps'" "currentSection ps' = currentSection ps"
    "map content (parsed ps') = map content (parsed ps) @ [(l, currentSection ps)]"
  using assms that by (auto simp: parse_line_def plain_line_def content_def)

lemma parse_plain_lines:
  assumes "list_all (plain_line ours theirs) ls"
  shows "\<exists>ps'. run_parse ours theirs ps (ls @ rest) = run_parse ours theirs ps' rest \<and>
    currentSection ps' = currentSection ps \<and>
    map content (parsed ps') = map content (parsed ps) @ map (\<lambda>l. (l, currentSection ps)) ls"
  using assms
proof (induction ls arbitrary: ps)
  case (Cons l ls)
  then have "plain_line ours theirs l" by simp
  then obtain ps1 where ps1: "parse_line ours theirs ps l = Inr ps1" "currentSection ps1 = currentSection ps"
    "map content (parsed ps1) = map content (parsed ps) @ [(l, currentSection ps)]"
    by (rule parse_plain)
  with Cons.IH [of ps1] Cons.prems show ?case by auto
qed auto

lemma markers_differ:
  "middle_marker \<noteq> start_marker ours" "end_marker theirs \<noteq> start_marker ours" "end_marker theirs \<noteq> middle_marker"
  by (simp_all add: start_marker_def middle_marker_def end_marker_def)

lemma parse_segment:
  assumes ok: "segment_ok ours theirs seg" and none: "currentSection ps = sectionNone"
  shows "\<exists>ps'. run_parse ours theirs ps (segment_lines ours theirs seg @ rest) = run_parse ours theirs ps' rest \<and>
    currentSection ps' = sectionNone \<and> map content (parsed ps') = map content (parsed ps) @ segment_payload seg"
proof (cases seg)
  case (Common l)
  with ok have "plain_line ours theirs l" by (simp add: segment_ok_def)
  then obtain ps' where "parse_line ours theirs ps l = Inr ps'" "currentSection ps' = currentSection ps"
    "map content (parsed ps') = map content (parsed ps) @ [(l, currentSection ps)]"
    by (rule parse_plain)
  with none Common show ?thesis by (intro exI [of _ ps']) simp
next
  case (Conflict a b)
  let ?s = "ps\<lparr>currentSection := sectionNew\<rparr>"
  from Conflict ok have ab: "list_all (plain_line ours theirs) a" "list_all (plain_line ours theirs) b"
    by (auto simp: segment_ok_def)
  from parse_plain_lines [OF ab(1), of ?s "middle_marker # b @ end_marker theirs # rest"] obtain p1 where
    p1: "run_parse ours theirs ?s (a @ middle_marker # b @ end_marker theirs # rest) =
      run_parse ours theirs p1 (middle_marker # b @ end_marker theirs # rest)"
    "currentSection p1 = sectionNew" "map content (parsed p1) = map content (parsed ps) @ map (\<lambda>l. (l, sectionNew)) a"
    by auto
  let ?m = "p1\<lparr>currentSection := sectionOld\<rparr>"
  from parse_plain_lines [OF ab(2), of ?m "end_marker theirs # rest"] obtain p2 where
    p2: "run_parse ours theirs ?m (b @ end_marker theirs # rest) = run_parse ours theirs p2 (end_marker theirs # rest)"
    "currentSection p2 = sectionOld" "map content (parsed p2) = map content (parsed p1) @ map (\<lambda>l. (l, sectionOld)) b"
    by auto
  have "parse_line ours theirs ps (start_marker ours) = Inr ?s" "parse_line ours theirs p1 middle_marker = Inr ?m"
    "parse_line ours theirs p2 (end_marker theirs) = Inr (p2\<lparr>currentSection := sectionNone\<rparr>)"
    using none p1(2) p2(2) markers_differ by (auto simp: parse_line_def)
  with p1 p2 Conflict show ?thesis by (intro exI [of _ "p2\<lparr>currentSection := sectionNone\<rparr>"]) simp
qed

lemma parse_segments:
  assumes "list_all (segment_ok ours theirs) segs" "currentSection ps = sectionNone"
  shows "\<exists>ps'. run_parse ours theirs ps (merged_lines ours theirs segs) = Inr ps' \<and>
    currentSection ps' = sectionNone \<and>
    map content (parsed ps') = map content (parsed ps) @ concat (map segment_payload segs)"
  using assms
proof (induction segs arbitrary: ps)
  case (Cons seg segs)
  then obtain p1 where "run_parse ours theirs ps (segment_lines ours theirs seg @ merged_lines ours theirs segs) =
      run_parse ours theirs p1 (merged_lines ours theirs segs)"
    "currentSection p1 = sectionNone" "map content (parsed p1) = map content (parsed ps) @ segment_payload seg"
    using parse_segment by fastforce
  with Cons.IH [of p1] Cons.prems show ?case by (auto simp: merged_lines_def)
qed (simp add: merged_lines_def)

lemma marker_no_newline:
  "10 \<notin> set (Path ours) \<Longrightarrow> 10 \<notin> set (start_marker ours)" "10 \<notin> set middle_marker"
  "10 \<notin> set (Path theirs) \<Longrightarrow> 10 \<notin> set (end_marker theirs)"
proof -
  have m: "(10::byte) \<notin> set (map of_char ''<<<<<<< '')" "(10::byte) \<notin> set (map of_char ''>>>>>>> '')"
    "10 \<notin> set middle_marker"
    by code_simp+
  then show "10 \<notin> set middle_marker" by blast
  from m show "10 \<notin> set (Path ours) \<Longrightarrow> 10 \<notin> set (start_marker ours)"
    "10 \<notin> set (Path theirs) \<Longrightarrow> 10 \<notin> set (end_marker theirs)"
    unfolding start_marker_def end_marker_def set_append by blast+
qed

lemma segment_no_newline:
  assumes "segment_ok ours theirs seg" "10 \<notin> set (Path ours)" "10 \<notin> set (Path theirs)"
    and "l \<in> set (segment_lines ours theirs seg)"
  shows "10 \<notin> set l"
proof -
  have plain: "10 \<notin> set l" if "l \<in> set (our_side seg @ their_side seg)"
    using assms(1) that unfolding segment_ok_def list_all_iff plain_line_def by blast
  show ?thesis
    using assms(4) plain marker_no_newline(1) [OF assms(2)] marker_no_newline(2) marker_no_newline(3) [OF assms(3)]
    by (cases seg) auto
qed

lemma parsed_segments:
  assumes segs: "list_all (segment_ok ours theirs) segs" "segs \<noteq> []"
    and paths: "10 \<notin> set (Path ours)" "10 \<notin> set (Path theirs)"
    and small: "length (newline_terminated (merged_lines ours theirs segs)) < fileLimit"
    and cs: "concat cs = newline_terminated (merged_lines ours theirs segs)" "[] \<notin> set cs"
  shows "\<exists>f. Parse (conflict_scanner cs EOF) anc ours theirs = Inr f \<and> our f = ours \<and>
    map content (file_lines f) = concat (map segment_payload segs)"
proof -
  have lines: "\<forall>l \<in> set (merged_lines ours theirs segs). 10 \<notin> set l"
    using segs(1) segment_no_newline [OF _ paths] unfolding merged_lines_def list_all_iff set_concat by auto
  have "merged_lines ours theirs segs \<noteq> []"
    using segs(2) by (cases segs; cases "hd segs") (auto simp: merged_lines_def)
  from Parse_lines [OF cs lines this small] parse_segments [OF segs(1), of parse_init]
  show ?thesis by (auto simp: parsed_file_def parse_init_def)
qed

definition chosen :: "(byte list \<Rightarrow> string) \<Rightarrow> File \<Rightarrow> (string, string) gomap \<Rightarrow> string \<Rightarrow> bool" where
  "chosen sha1 f sections choice \<longleftrightarrow>
     list_all (\<lambda>l. map_of sections (sectionID sha1 f l) = Some choice)
       (filter (\<lambda>l. line_section l \<noteq> sectionNone) (file_lines f))"

text \<open>The lines that a choice keeps.\<close>

fun keeps :: "string \<Rightarrow> byte list \<times> sect \<Rightarrow> bool" where
  "keeps choice (l, s) \<longleftrightarrow>
     s = sectionNone \<or> choice = head \<and> s = sectionNew \<or> choice = origin \<and> s = sectionOld"

lemma resolve_lines_keeps:
  assumes "choice = head \<or> choice = origin"
    and "\<forall>l \<in> set ls. line_section l \<noteq> sectionNone \<longrightarrow> map_of sections (sectionID sha1 f l) = Some choice"
    and "sid = '''' \<or> map_of sections sid = Some choice"
  shows "resolve_lines sha1 f sections sid ls = Inr (map fst (filter (keeps choice) (map content ls)))"
  using assms
proof (induction ls arbitrary: sid)
  case (Cons l ls)
  have "head \<noteq> origin" by (simp add: head_def origin_def)
  moreover define sid' where "sid' = (if sid = '''' then sectionID sha1 f l else sid)"
  moreover have "resolve_lines sha1 f sections '''' ls = Inr (map fst (filter (keeps choice) (map content ls)))"
    using Cons.IH [of "''''"] Cons.prems by simp
  moreover have "map_of sections sid' = Some choice \<and>
    resolve_lines sha1 f sections sid' ls = Inr (map fst (filter (keeps choice) (map content ls)))"
    if "line_section l \<noteq> sectionNone"
    using Cons.IH [of sid'] Cons.prems that by (auto simp: sid'_def)
  ultimately show ?case
    using Cons.prems(1) by (cases "line_section l") (auto simp: Let_def content_def [of l] sid'_def)
qed simp

lemma kept_side:
  "map fst (filter (keeps head) (concat (map segment_payload segs))) = concat (map our_side segs)"
  "map fst (filter (keeps origin) (concat (map segment_payload segs))) = concat (map their_side segs)"
proof -
  have "map fst (filter (keeps head) (segment_payload seg)) = our_side seg"
    "map fst (filter (keeps origin) (segment_payload seg)) = their_side seg" for seg
    by (cases seg; simp add: filter_map comp_def head_def origin_def)+
  then show "map fst (filter (keeps head) (concat (map segment_payload segs))) = concat (map our_side segs)"
    "map fst (filter (keeps origin) (concat (map segment_payload segs))) = concat (map their_side segs)"
    by (induction segs) simp_all
qed


section \<open>Concrete files\<close>

definition wit_our :: Entry where
  "wit_our = \<lparr>Path = map of_char ''a.tex'', Mode = 0, Contents = map of_char ''mine'' @ [10]\<rparr>"

definition wit_their :: Entry where
  "wit_their = \<lparr>Path = map of_char ''a.tex'', Mode = 0, Contents = map of_char ''yours'' @ [10]\<rparr>"

definition wit_segments :: "segment list" where
  "wit_segments = [Common (map of_char ''first''), Conflict [map of_char ''mine''] [map of_char ''yours''],
     Common (map of_char ''last'')]"

definition wit_lines :: "byte list list" where
  "wit_lines = merged_lines wit_our wit_their wit_segments"

definition wit_file :: File where
  "wit_file = (case parsed_file None wit_our wit_their (run_parse wit_our wit_their parse_init wit_lines) of
     Inr f \<Rightarrow> f | Inl e \<Rightarrow> undefined)"

definition wit_resolution :: Resolution where
  "wit_resolution = \<lparr>OldPath = Path wit_our, NewPath = Path wit_our,
     Sections = map (\<lambda>l. (sectionID (\<lambda>p. ''5e'') wit_file l, origin)) (file_lines wit_file), Content = []\<rparr>"

lemma wit_lines_short: "length (newline_terminated wit_lines) < fileLimit"
proof -
  have "length (newline_terminated wit_lines) < 100" by code_simp
  then show ?thesis by (simp add: fileLimit_def)
qed


text \<open>
  A line of text that begins with a backslash is taken for the remark \<open>\\ No newline at end of file\<close> of a
  diff, and the conflict after it is then rejected.
\<close>

lemma backslash_hides_conflict:
  "Parse (conflict_scanner [newline_terminated (map of_char (CHR 0x5C # ''section'') # wit_lines)] EOF) None wit_our wit_their =
   Inl ErrUnexpectedDelimiter"
proof -
  let ?ls = "map of_char (CHR 0x5C # ''section'') # wit_lines"
  have "run_parse wit_our wit_their parse_init ?ls = Inl ErrUnexpectedDelimiter" "\<forall>l \<in> set ?ls. 10 \<notin> set l"
    "length (newline_terminated ?ls) < 100" "newline_terminated ?ls \<noteq> []"
    by code_simp+
  with Parse_lines [of "[newline_terminated ?ls]" ?ls] show ?thesis
    by (simp add: fileLimit_def parsed_file_def)
qed

end
