(* ===== verification/Go_Path.thy ===== *)
theory Go_Path
  imports Praefect_Prelude "HOL-Library.Sublist"
begin

text \<open>
  The part of Go's \<open>path/filepath\<close> that the sources use, for Unix: a path is a string, and the
  functions work on the components between the slashes. The lemmas relate absolute clean paths to
  their lists of components.
\<close>

section \<open>Splitting and joining\<close>

fun split_on :: "char \<Rightarrow> string \<Rightarrow> string list" where
  "split_on sep [] = [[]]"
| "split_on sep (c # cs) =
     (if c = sep then [] # split_on sep cs
      else case split_on sep cs of [] \<Rightarrow> [[c]] | w # ws \<Rightarrow> (c # w) # ws)"

fun join_with :: "string \<Rightarrow> string list \<Rightarrow> string" where
  "join_with sep [] = []"
| "join_with sep [w] = w"
| "join_with sep (w # v # ws) = w @ sep @ join_with sep (v # ws)"

abbreviation slash :: char where
  "slash \<equiv> CHR ''/''"

lemma split_on_ne [simp]: "split_on sep s \<noteq> []"
  by (induction s) (auto split: list.split)

lemma split_on_append: "split_on sep (a @ sep # b) = split_on sep a @ split_on sep b"
proof (induction a)
  case (Cons c a)
  then show ?case by (auto split: list.split)
qed simp

lemma split_on_word: "sep \<notin> set w \<Longrightarrow> split_on sep w = [w]"
  by (induction w) auto

lemma split_on_join: "ws \<noteq> [] \<Longrightarrow> \<forall>w \<in> set ws. sep \<notin> set w \<Longrightarrow> split_on sep (join_with [sep] ws) = ws"
proof (induction "[sep]" ws rule: join_with.induct)
  case (3 w v ws)
  then have w: "sep \<notin> set w" and rest: "split_on sep (join_with [sep] (v # ws)) = v # ws" by simp_all
  show ?case
    using split_on_append [of sep w "join_with [sep] (v # ws)"] split_on_word [OF w] rest by simp
qed (auto simp: split_on_word)

lemma split_on_no_sep: "w \<in> set (split_on sep s) \<Longrightarrow> sep \<notin> set w"
proof (induction s arbitrary: w)
  case (Cons c s)
  then show ?case by (cases "split_on sep s") (auto split: if_splits)
qed simp

lemma join_split: "join_with [sep] (split_on sep s) = s"
proof (induction s)
  case (Cons c s)
  obtain w ws where s: "split_on sep s = w # ws" by (cases "split_on sep s") simp_all
  have "join_with [sep] ((c # w) # ws) = c # join_with [sep] (w # ws)" by (cases ws) simp_all
  with Cons s show ?case by simp
qed simp

section \<open>Clean, Join, Dir, Rel\<close>

text \<open>The components kept so far are held in reverse order.\<close>

fun clean_comps :: "bool \<Rightarrow> string list \<Rightarrow> string list \<Rightarrow> string list" where
  "clean_comps rooted out [] = out"
| "clean_comps rooted out (c # cs) =
     (if c = [] \<or> c = ''.'' then clean_comps rooted out cs
      else if c = ''..'' then
        (case out of
           [] \<Rightarrow> clean_comps rooted (if rooted then [] else [''..'']) cs
         | b # bs \<Rightarrow> clean_comps rooted (if b = ''..'' then ''..'' # out else bs) cs)
      else clean_comps rooted (c # out) cs)"

definition IsAbs :: "string \<Rightarrow> bool" where
  "IsAbs path \<longleftrightarrow> path \<noteq> [] \<and> hd path = slash"

definition Clean :: "string \<Rightarrow> string" where
  "Clean path =
     (if path = [] then ''.''
      else
        let cs = rev (clean_comps (IsAbs path) [] (split_on slash path))
        in if IsAbs path then slash # join_with [slash] cs
           else if cs = [] then ''.'' else join_with [slash] cs)"

definition path_Join :: "string list \<Rightarrow> string" where
  "path_Join elems =
     (case dropWhile (\<lambda>e. e = []) elems of [] \<Rightarrow> [] | es \<Rightarrow> Clean (join_with [slash] es))"

definition Dir :: "string \<Rightarrow> string" where
  "Dir path = Clean (rev (dropWhile (\<lambda>c. c \<noteq> slash) (rev path)))"

definition comps_of :: "string \<Rightarrow> string list" where
  "comps_of path = filter (\<lambda>c. c \<noteq> [] \<and> c \<noteq> ''.'') (split_on slash path)"

fun strip_common :: "string list \<Rightarrow> string list \<Rightarrow> string list \<times> string list" where
  "strip_common (a # as) (b # bs) = (if a = b then strip_common as bs else (a # as, b # bs))"
| "strip_common as bs = (as, bs)"

text \<open>\<open>None\<close> where \<open>Rel\<close> returns an error.\<close>

definition Rel :: "string \<Rightarrow> string \<Rightarrow> string option" where
  "Rel basepath targpath =
     (let base = Clean basepath; targ = Clean targpath in
      if targ = base then Some ''.''
      else if IsAbs base \<noteq> IsAbs targ then None
      else case strip_common (comps_of base) (comps_of targ) of
             (up, down) \<Rightarrow>
               if up \<noteq> [] \<and> hd up = ''..'' then None
               else Some (join_with [slash] (map (\<lambda>_. ''..'') up @ down)))"

section \<open>Absolute clean paths\<close>

definition comp_ok :: "string \<Rightarrow> bool" where
  "comp_ok c \<longleftrightarrow> c \<noteq> [] \<and> c \<noteq> ''.'' \<and> c \<noteq> ''..'' \<and> slash \<notin> set c"

definition abs_path :: "string list \<Rightarrow> string" where
  "abs_path cs = slash # join_with [slash] cs"

lemma clean_comps_append: "clean_comps r out (xs @ ys) = clean_comps r (clean_comps r out xs) ys"
  by (induction r out xs rule: clean_comps.induct) (auto split: list.split)

lemma clean_comps_ok: "list_all comp_ok cs \<Longrightarrow> clean_comps r out cs = rev cs @ out"
  by (induction cs arbitrary: out) (auto simp: comp_ok_def)

lemma clean_comps_rooted:
  "list_all comp_ok out \<Longrightarrow> \<forall>c \<in> set cs. slash \<notin> set c \<Longrightarrow> list_all comp_ok (clean_comps True out cs)"
  by (induction True out cs rule: clean_comps.induct) (auto simp: comp_ok_def split: list.splits)

lemma split_abs_path:
  assumes "list_all comp_ok cs" "cs \<noteq> []"
  shows "split_on slash (abs_path cs) = [] # cs"
  using split_on_join [of cs slash] assms by (auto simp: abs_path_def list_all_iff comp_ok_def)

lemma Clean_abs_path:
  assumes "list_all comp_ok cs"
  shows "Clean (abs_path cs) = abs_path cs"
proof (cases "cs = []")
  case True
  then show ?thesis by (simp add: Clean_def abs_path_def IsAbs_def Let_def)
next
  case False
  with assms have "clean_comps True [] (split_on slash (abs_path cs)) = rev cs"
    by (simp add: split_abs_path clean_comps_ok)
  then show ?thesis by (simp add: Clean_def Let_def IsAbs_def abs_path_def)
qed

text \<open>Every cleaned absolute path has components without dots.\<close>

lemma Clean_rooted:
  assumes "IsAbs path"
  obtains cs where "list_all comp_ok cs" "Clean path = abs_path cs"
proof
  let ?cs = "rev (clean_comps True [] (split_on slash path))"
  have "list_all comp_ok (clean_comps True [] (split_on slash path))"
    by (rule clean_comps_rooted) (auto dest: split_on_no_sep)
  then show "list_all comp_ok ?cs" by simp
  show "Clean path = abs_path ?cs" using assms by (auto simp: Clean_def abs_path_def IsAbs_def Let_def)
qed

text \<open>A relative path stays relative.\<close>

lemma clean_comps_no_slash:
  "list_all (\<lambda>c. c \<noteq> [] \<and> slash \<notin> set c) out \<Longrightarrow> \<forall>c \<in> set cs. slash \<notin> set c \<Longrightarrow>
   list_all (\<lambda>c. c \<noteq> [] \<and> slash \<notin> set c) (clean_comps r out cs)"
proof (induction cs arbitrary: out)
  case (Cons c cs)
  then show ?case by (cases out) simp_all
qed simp

lemma join_with_relative:
  "list_all (\<lambda>c. c \<noteq> [] \<and> slash \<notin> set c) cs \<Longrightarrow> \<not> IsAbs (join_with [slash] cs)"
proof (cases cs)
  case (Cons c ds)
  moreover assume "list_all (\<lambda>c. c \<noteq> [] \<and> slash \<notin> set c) cs"
  ultimately obtain a c' where "c = a # c'" "a \<noteq> slash" by (cases c) auto
  with Cons show ?thesis by (cases ds) (simp_all add: IsAbs_def)
qed (simp add: IsAbs_def)

lemma IsAbs_Clean: "IsAbs (Clean path) \<longleftrightarrow> IsAbs path"
proof (cases "IsAbs path")
  case True
  then obtain cs where "Clean path = abs_path cs" by (rule Clean_rooted)
  with True show ?thesis by (simp add: IsAbs_def abs_path_def)
next
  case False
  have "list_all (\<lambda>c. c \<noteq> [] \<and> slash \<notin> set c) (clean_comps False [] (split_on slash path))"
    by (rule clean_comps_no_slash) (auto dest: split_on_no_sep)
  then have "\<not> IsAbs (join_with [slash] (rev (clean_comps False [] (split_on slash path))))"
    by (intro join_with_relative) simp
  moreover have "\<not> IsAbs ''.''" by (simp add: IsAbs_def)
  ultimately show ?thesis using False by (simp add: Clean_def Let_def)
qed

lemma Join_abs_path:
  assumes "list_all comp_ok cs"
  shows "path_Join [abs_path cs, rel] = abs_path (rev (clean_comps True (rev cs) (split_on slash rel)))"
proof -
  have "clean_comps True [] (split_on slash (abs_path cs)) = rev cs"
    using assms by (cases "cs = []") (simp_all add: split_abs_path clean_comps_ok, simp add: abs_path_def)
  then have "clean_comps True [] (split_on slash (abs_path cs @ slash # rel)) = clean_comps True (rev cs) (split_on slash rel)"
    by (simp add: split_on_append clean_comps_append)
  moreover have "IsAbs (abs_path cs @ slash # rel)" "abs_path cs \<noteq> []" by (simp_all add: IsAbs_def abs_path_def)
  ultimately show ?thesis
    by (simp add: path_Join_def Clean_def Let_def abs_path_def)
qed

lemma Join_comps:
  assumes "list_all comp_ok cs"
  obtains es where "list_all comp_ok es" "path_Join [abs_path cs, rel] = abs_path es"
proof
  have "list_all comp_ok (clean_comps True (rev cs) (split_on slash rel))"
    using assms by (intro clean_comps_rooted) (auto dest: split_on_no_sep)
  then show "list_all comp_ok (rev (clean_comps True (rev cs) (split_on slash rel)))" by simp
qed (rule Join_abs_path [OF assms])

text \<open>
  A string prefix that ends in a slash is a prefix of the components.
\<close>

lemma prefix_components:
  assumes "list_all comp_ok cs" "list_all comp_ok es" "prefix (abs_path cs @ [slash]) (abs_path es)"
  shows "cs \<noteq> [] \<and> strict_prefix cs es"
proof -
  from assms(3) obtain rest where eq: "abs_path es = abs_path cs @ slash # rest" by (auto simp: prefix_def)
  have ne: "es \<noteq> []" using eq by (auto simp: abs_path_def)
  have split: "[] # es = split_on slash (abs_path cs) @ split_on slash rest"
    using split_abs_path [OF assms(2) ne] by (simp add: eq split_on_append)
  have cs: "cs \<noteq> []"
  proof
    assume "cs = []"
    with split have "[] \<in> set es" by (simp add: abs_path_def)
    with assms(2) show False by (auto simp: list_all_iff comp_ok_def)
  qed
  then have "es = cs @ split_on slash rest" using split split_abs_path [OF assms(1)] by simp
  with cs show ?thesis by (auto simp: strict_prefix_def)
qed

section \<open>Parent directories\<close>

lemma join_with_snoc: "ws \<noteq> [] \<Longrightarrow> join_with sep (ws @ [w]) = join_with sep ws @ sep @ w"
  by (induction sep ws rule: join_with.induct) auto

lemma abs_path_snoc: "abs_path (cs @ [c]) = (if cs = [] then [] else abs_path cs) @ slash # c"
  by (simp add: abs_path_def join_with_snoc)

lemma Clean_trailing_slash:
  assumes "list_all comp_ok cs"
  shows "Clean (abs_path cs @ [slash]) = abs_path cs"
  using Join_abs_path [OF assms, of "[]"] by (simp add: path_Join_def abs_path_def)

lemma Dir_abs_path:
  assumes "list_all comp_ok cs"
  shows "Dir (abs_path cs) = abs_path (butlast cs)"
proof (cases cs rule: rev_cases)
  case Nil
  then show ?thesis by (simp add: Dir_def abs_path_def Clean_def IsAbs_def Let_def)
next
  case (snoc ds d)
  then have ok: "list_all comp_ok ds" "slash \<notin> set d" using assms by (auto simp: comp_ok_def)
  have "dropWhile (\<lambda>c. c \<noteq> slash) (rev d @ slash # xs) = slash # xs" for xs
    using ok(2) by (subst dropWhile_append2) auto
  then have "Dir (abs_path cs) = Clean ((if ds = [] then [] else abs_path ds) @ [slash])"
    by (simp add: Dir_def snoc abs_path_snoc)
  also have "\<dots> = abs_path ds"
    using Clean_trailing_slash [OF ok(1)] Clean_abs_path [of "[]"] by (simp add: abs_path_def)
  finally show ?thesis by (simp add: snoc)
qed

lemma abs_path_prefix: "strict_prefix cs es \<Longrightarrow> prefix (abs_path cs) (abs_path es)"
proof (induction es rule: rev_induct)
  case (snoc e es)
  show ?case
  proof (cases "cs = []")
    case True
    then show ?thesis by (simp add: abs_path_def)
  next
    case False
    with snoc have "es \<noteq> []" "cs = es \<or> strict_prefix cs es"
      by (auto simp: strict_prefix_def)
    with snoc.IH show ?thesis by (auto simp: abs_path_snoc intro: prefix_order.trans)
  qed
qed simp

lemma comps_of_abs_path: "list_all comp_ok cs \<Longrightarrow> comps_of (abs_path cs) = cs"
  by (cases "cs = []")
     (simp_all add: comps_of_def split_abs_path, simp add: abs_path_def, auto simp: list_all_iff comp_ok_def intro: filter_True)

lemma abs_path_inject:
  "list_all comp_ok cs \<Longrightarrow> list_all comp_ok es \<Longrightarrow> abs_path cs = abs_path es \<longleftrightarrow> cs = es"
  by (metis comps_of_abs_path)

lemma strip_common_append [simp]: "strip_common cs (cs @ ds) = ([], ds)"
  by (induction cs) (cases ds; simp)+

end
