(* ===== verification/Gitaly_Config.thy ===== *)
theory Gitaly_Config
  imports Go_Path
begin

text \<open>
  Gitaly's configuration (\<open>internal/gitaly/config/config.go\<close>, \<open>ruby.go\<close>,
  \<open>concurrency.go\<close>): the record read from the configuration file, the defaults and the cleaning
  of storage paths by \<open>Load\<close>, and the checks of \<open>Validate\<close>. The operating system is the
  record \<open>os\<close> of the calls the code makes; the TOML decoder is an argument of \<open>Load\<close>.
  The fields that no modelled operation reads are left out (the Prometheus and Sentry sections, the
  TLS and GitLab access settings), and so are log lines: the check of the authentication token does
  nothing else.
\<close>

section \<open>The operating system\<close>

datatype file_info = IsDir | NotDir

datatype stat_error = ErrNotExist | StatFailed

datatype access_error = ErrPermission | AccessFailed

datatype lookpath_error = ErrNotFound | LookPathFailed

record os =
  os_Stat :: "string \<Rightarrow> stat_error + file_info"
  os_Access :: "string \<Rightarrow> access_error option"
  os_Getwd :: "string option"
  os_LookupEnv :: "string \<Rightarrow> string option"
  os_LookPath :: "string \<Rightarrow> lookpath_error + string"
  os_TempDir :: "string option"
  os_RandomHex :: "string option"
  os_Listen :: "string \<Rightarrow> bool"
  os_Close :: "string \<Rightarrow> bool"
  os_Getpid :: string

text \<open>\<open>filepath.Abs\<close> fails only where the working directory is unknown.\<close>

definition path_Abs :: "os \<Rightarrow> string \<Rightarrow> string option" where
  "path_Abs os path =
     (if IsAbs path then Some (Clean path)
      else map_option (\<lambda>wd. path_Join [wd, path]) (os_Getwd os))"

definition ParseBool :: "string \<Rightarrow> bool option" where
  "ParseBool str =
     (if str \<in> {''1'', ''t'', ''T'', ''true'', ''TRUE'', ''True''} then Some True
      else if str \<in> {''0'', ''f'', ''F'', ''false'', ''FALSE'', ''False''} then Some False
      else None)"

text \<open>The value and whether there was an error.\<close>

definition env_GetBool :: "os \<Rightarrow> string \<Rightarrow> bool \<Rightarrow> bool \<times> bool" where
  "env_GetBool os name fallback =
     (case os_LookupEnv os name of
        None \<Rightarrow> (fallback, False)
      | Some s \<Rightarrow>
          if s = [] then (fallback, False)
          else case ParseBool s of None \<Rightarrow> (fallback, True) | Some v \<Rightarrow> (v, False))"

section \<open>The configuration\<close>

type_synonym cfg_Duration = int

abbreviation Minutes :: cfg_Duration where "Minutes \<equiv> 60000000000"
abbreviation Hours :: cfg_Duration where "Hours \<equiv> 3600000000000"

definition GitalyDataPrefix :: string where
  "GitalyDataPrefix = ''+gitaly''"

record DailyJob =
  job_Hour :: uint
  job_Minute :: uint
  job_Duration :: cfg_Duration
  job_Storages :: "string list"
  job_Disabled :: bool

record GitConfig =
  gc_Key :: string
  gc_Value :: string

record Git =
  BinPath :: string
  CatfileCacheSize :: int
  GitConfigs :: "GitConfig list"

record Storage =
  st_Name :: string
  st_Path :: string

record Auth =
  Transitioning :: bool
  Token :: string

record Ruby =
  ruby_Dir :: string
  MaxRSS :: int
  ruby_GracefulRestartTimeout :: cfg_Duration
  RestartDelay :: cfg_Duration
  NumWorkers :: int
  RuggedGitConfigSearchPath :: string

record Concurrency =
  conc_RPC :: string
  MaxPerRepo :: int

record Cgroups =
  cg_Count :: uint
  Mountpoint :: string
  HierarchyRoot :: string
  CPU_Enabled :: bool
  CPU_Shares :: uint
  Memory_Enabled :: bool
  Memory_Limit :: int

record StreamCacheConfig =
  poc_Enabled :: bool
  poc_Dir :: string
  poc_MaxAge :: cfg_Duration

record Cfg =
  cfg_SocketPath :: string
  cfg_ListenAddr :: string
  cfg_TLSListenAddr :: string
  cfg_BinDir :: string
  cfg_Git :: Git
  cfg_Storages :: "Storage list"
  cfg_LoggingDir :: string
  cfg_Auth :: Auth
  cfg_Ruby :: Ruby
  cfg_SecretFile :: string
  cfg_GitlabShellDir :: string
  cfg_CustomHooksDir :: string
  cfg_Concurrency :: "Concurrency list"
  cfg_GracefulRestartTimeout :: cfg_Duration
  cfg_InternalSocketDir :: string
  cfg_DailyMaintenance :: DailyJob
  cfg_Cgroups :: Cgroups
  cfg_PackObjectsCache :: StreamCacheConfig

datatype dir_error = PathDoesNotExist string | DirStatFailed | NotADirectory string

datatype key_error = KeyEmpty | KeyAssignment | KeyNoSection | KeyDot

datatype cfg_error =
    LoadToml
  | CreateInternalSocketDir
  | NoListener
  | ShellDirNotSet
  | DirError string dir_error
  | HookErrs "string list"
  | NoStorages
  | EmptyStorageName nat
  | EmptyStoragePath string
  | StoragePathMissing string
  | StorageStat string
  | StorageNotDir string
  | StorageTwice string
  | StoragesNest string string
  | GitNotFound
  | BinDirNotSet
  | AbsFailed
  | InvalidKey string key_error
  | InvalidValue
  | RandomFailed
  | TrySocket string
  | SocketClose
  | MaintenanceStorage string
  | MaintenanceHour
  | MaintenanceMinute
  | MaintenanceDuration
  | CgroupsMountpoint
  | CgroupsHierarchyRoot
  | CgroupsShares
  | CgroupsLimit
  | RubyDirNotSet
  | PackObjectsCacheNegativeMaxAge
  | PackObjectsCacheNoStorages
  | PackObjectsCacheRelativePath

section \<open>Load\<close>

definition defaultMaintenanceWindow :: "Storage list \<Rightarrow> DailyJob" where
  "defaultMaintenanceWindow storages =
     \<lparr> job_Hour = 12, job_Minute = 0, job_Duration = 10 * Minutes,
       job_Storages = map st_Name storages, job_Disabled = False \<rparr>"

definition zero_DailyJob :: DailyJob where
  "zero_DailyJob =
     \<lparr> job_Hour = 0, job_Minute = 0, job_Duration = 0, job_Storages = [], job_Disabled = False \<rparr>"

definition cfg_setDefaults :: "os \<Rightarrow> Cfg \<Rightarrow> cfg_error + Cfg" where
  "cfg_setDefaults os cfg0 =
     (let cfg1 = (if cfg_GracefulRestartTimeout cfg0 = 0
                  then cfg0\<lparr>cfg_GracefulRestartTimeout := Minutes\<rparr> else cfg0);
          cfg2 = (if cfg_SecretFile cfg1 = []
                  then cfg1\<lparr>cfg_SecretFile := path_Join [cfg_GitlabShellDir cfg1, ''.gitlab_shell_secret'']\<rparr>
                  else cfg1);
          cfg3 = (if cfg_CustomHooksDir cfg2 = []
                  then cfg2\<lparr>cfg_CustomHooksDir := path_Join [cfg_GitlabShellDir cfg2, ''hooks'']\<rparr>
                  else cfg2);
          maintenance = (\<lambda>cfg. if cfg_DailyMaintenance cfg = zero_DailyJob
                               then cfg\<lparr>cfg_DailyMaintenance := defaultMaintenanceWindow (cfg_Storages cfg)\<rparr>
                               else cfg)
      in if cfg_InternalSocketDir cfg3 = [] then
           (case os_TempDir os of
              None \<Rightarrow> Inl CreateInternalSocketDir
            | Some tmpDir \<Rightarrow> Inr (maintenance (cfg3\<lparr>cfg_InternalSocketDir := tmpDir\<rparr>)))
         else Inr (maintenance cfg3))"

definition Load :: "(string \<Rightarrow> Cfg option) \<Rightarrow> os \<Rightarrow> string \<Rightarrow> cfg_error + Cfg" where
  "Load Decode os file =
     (case Decode file of
        None \<Rightarrow> Inl LoadToml
      | Some cfg0 \<Rightarrow>
          (case cfg_setDefaults os cfg0 of
             Inl err \<Rightarrow> Inl err
           | Inr cfg \<Rightarrow>
               Inr (cfg\<lparr>cfg_Storages := map (\<lambda>s. s\<lparr>st_Path := Clean (st_Path s)\<rparr>) (cfg_Storages cfg)\<rparr>)))"

section \<open>Checks\<close>

definition validateListeners :: "Cfg \<Rightarrow> cfg_error + Cfg" where
  "validateListeners cfg =
     (if cfg_SocketPath cfg = [] \<and> cfg_ListenAddr cfg = [] \<and> cfg_TLSListenAddr cfg = []
      then Inl NoListener else Inr cfg)"

definition validateIsDirectory :: "os \<Rightarrow> string \<Rightarrow> string \<Rightarrow> cfg_error option" where
  "validateIsDirectory os path name =
     (case os_Stat os path of
        Inl ErrNotExist \<Rightarrow> Some (DirError name (PathDoesNotExist path))
      | Inl StatFailed \<Rightarrow> Some (DirError name DirStatFailed)
      | Inr NotDir \<Rightarrow> Some (DirError name (NotADirectory path))
      | Inr IsDir \<Rightarrow> None)"

definition validateShell :: "os \<Rightarrow> Cfg \<Rightarrow> cfg_error + Cfg" where
  "validateShell os cfg =
     (if cfg_GitlabShellDir cfg = [] then Inl ShellDirNotSet
      else case validateIsDirectory os (cfg_GitlabShellDir cfg) ''gitlab-shell.dir'' of
             Some err \<Rightarrow> Inl err
           | None \<Rightarrow> Inr cfg)"

definition checkExecutable :: "os \<Rightarrow> string \<Rightarrow> string option" where
  "checkExecutable os path =
     (case os_Access os path of
        None \<Rightarrow> None
      | Some ErrPermission \<Rightarrow> Some (''not executable: '' @ path)
      | Some AccessFailed \<Rightarrow> Some [])"

definition SkipHooks :: "os \<Rightarrow> bool" where
  "SkipHooks os = fst (env_GetBool os ''GITALY_TESTING_NO_GIT_HOOKS'' False)"

definition validateHooks :: "os \<Rightarrow> Cfg \<Rightarrow> cfg_error + Cfg" where
  "validateHooks os cfg =
     (if SkipHooks os then Inr cfg
      else
        let errs = List.map_filter
              (\<lambda>hookName. checkExecutable os (path_Join [ruby_Dir (cfg_Ruby cfg), ''git-hooks'', hookName]))
              [''pre-receive'', ''post-receive'', ''update'']
        in if errs \<noteq> [] then Inl (HookErrs errs) else Inr cfg)"

text \<open>The inner loop of \<open>validateStorages\<close>, over the storages declared before.\<close>

fun checkOthers :: "Storage \<Rightarrow> Storage list \<Rightarrow> cfg_error option" where
  "checkOthers storage [] = None"
| "checkOthers storage (other # others) =
     (if st_Name other = st_Name storage then Some (StorageTwice (st_Name storage))
      else if st_Path storage = st_Path other then checkOthers storage others
      else if prefix (st_Path other) (st_Path storage) \<or> prefix (st_Path storage) (st_Path other) then
        (if Dir (st_Path storage) = Dir (st_Path other) then checkOthers storage others
         else Some (StoragesNest (st_Name storage) (st_Name other)))
      else checkOthers storage others)"

fun checkStorages :: "os \<Rightarrow> Storage list \<Rightarrow> Storage list \<Rightarrow> cfg_error option" where
  "checkStorages os before [] = None"
| "checkStorages os before (storage # rest) =
     (if st_Name storage = [] then Some (EmptyStorageName (length before + 1))
      else if st_Path storage = [] then Some (EmptyStoragePath (st_Name storage))
      else
        (case os_Stat os (st_Path storage) of
           Inl ErrNotExist \<Rightarrow> Some (StoragePathMissing (st_Name storage))
         | Inl StatFailed \<Rightarrow> Some (StorageStat (st_Name storage))
         | Inr NotDir \<Rightarrow> Some (StorageNotDir (st_Name storage))
         | Inr IsDir \<Rightarrow>
             (case checkOthers storage before of
                Some err \<Rightarrow> Some err
              | None \<Rightarrow> checkStorages os (before @ [storage]) rest)))"

definition validateStorages :: "os \<Rightarrow> Cfg \<Rightarrow> cfg_error + Cfg" where
  "validateStorages os cfg =
     (if cfg_Storages cfg = [] then Inl NoStorages
      else case checkStorages os [] (cfg_Storages cfg) of Some err \<Rightarrow> Inl err | None \<Rightarrow> Inr cfg)"

definition SetGitPath :: "os \<Rightarrow> Cfg \<Rightarrow> cfg_error + Cfg" where
  "SetGitPath os cfg =
     (if BinPath (cfg_Git cfg) \<noteq> [] then Inr cfg
      else
        (case os_LookupEnv os ''GITALY_TESTING_GIT_BINARY'' of
           Some path \<Rightarrow> Inr (cfg\<lparr>cfg_Git := (cfg_Git cfg)\<lparr>BinPath := path\<rparr>\<rparr>)
         | None \<Rightarrow>
             (case os_LookPath os ''git'' of
                Inl ErrNotFound \<Rightarrow> Inl GitNotFound
              | Inl LookPathFailed \<Rightarrow> Inr (cfg\<lparr>cfg_Git := (cfg_Git cfg)\<lparr>BinPath := []\<rparr>\<rparr>)
              | Inr resolvedPath \<Rightarrow> Inr (cfg\<lparr>cfg_Git := (cfg_Git cfg)\<lparr>BinPath := resolvedPath\<rparr>\<rparr>))))"

definition storage_of :: "Cfg \<Rightarrow> string \<Rightarrow> Storage option" where
  "storage_of cfg storageName = List.find (\<lambda>storage. st_Name storage = storageName) (cfg_Storages cfg)"

definition StoragePath :: "Cfg \<Rightarrow> string \<Rightarrow> string option" where
  "StoragePath cfg storageName = map_option st_Path (storage_of cfg storageName)"

definition GitalyInternalSocketPath :: "os \<Rightarrow> Cfg \<Rightarrow> string" where
  "GitalyInternalSocketPath os cfg =
     path_Join [cfg_InternalSocketDir cfg, ''internal_'' @ os_Getpid os @ ''.sock'']"

definition validateBinDir :: "os \<Rightarrow> Cfg \<Rightarrow> cfg_error + Cfg" where
  "validateBinDir os cfg =
     (if cfg_BinDir cfg = [] then Inl BinDirNotSet
      else
        (case validateIsDirectory os (cfg_BinDir cfg) ''bin_dir'' of
           Some err \<Rightarrow> Inl err
         | None \<Rightarrow>
             (case path_Abs os (cfg_BinDir cfg) of
                None \<Rightarrow> Inl AbsFailed
              | Some dir \<Rightarrow> Inr (cfg\<lparr>cfg_BinDir := dir\<rparr>))))"

definition validateGitConfigKey :: "string \<Rightarrow> key_error option" where
  "validateGitConfigKey key =
     (if key = [] then Some KeyEmpty
      else if CHR ''='' \<in> set key then Some KeyAssignment
      else if CHR ''.'' \<notin> set key then Some KeyNoSection
      else if hd key = CHR ''.'' \<or> last key = CHR ''.'' then Some KeyDot
      else None)"

fun checkGitConfigs :: "GitConfig list \<Rightarrow> cfg_error option" where
  "checkGitConfigs [] = None"
| "checkGitConfigs (configPair # pairs) =
     (case validateGitConfigKey (gc_Key configPair) of
        Some err \<Rightarrow> Some (InvalidKey (gc_Key configPair) err)
      | None \<Rightarrow> if gc_Value configPair = [] then Some InvalidValue else checkGitConfigs pairs)"

definition validateGit :: "os \<Rightarrow> Cfg \<Rightarrow> cfg_error + Cfg" where
  "validateGit os cfg0 =
     (case SetGitPath os cfg0 of
        Inl err \<Rightarrow> Inl err
      | Inr cfg \<Rightarrow>
          (case checkGitConfigs (GitConfigs (cfg_Git cfg)) of Some err \<Rightarrow> Inl err | None \<Rightarrow> Inr cfg))"

definition validateToken :: "Cfg \<Rightarrow> cfg_error + Cfg" where
  "validateToken cfg = Inr cfg"

definition trySocketCreation :: "os \<Rightarrow> string \<Rightarrow> cfg_error option" where
  "trySocketCreation os dir =
     (case os_RandomHex os of
        None \<Rightarrow> Some RandomFailed
      | Some b \<Rightarrow>
          (let socketPath = path_Join [dir, ''test-'' @ b @ ''.sock'']
           in if \<not> os_Listen os socketPath then Some (TrySocket dir)
              else if \<not> os_Close os socketPath then Some SocketClose
              else None))"

definition validateInternalSocketDir :: "os \<Rightarrow> Cfg \<Rightarrow> cfg_error + Cfg" where
  "validateInternalSocketDir os cfg =
     (if cfg_InternalSocketDir cfg = [] then Inr cfg
      else
        (case validateIsDirectory os (cfg_InternalSocketDir cfg) ''internal_socket_dir'' of
           Some err \<Rightarrow> Inl err
         | None \<Rightarrow>
             (case trySocketCreation os (cfg_InternalSocketDir cfg) of Some err \<Rightarrow> Inl err | None \<Rightarrow> Inr cfg)))"

definition validateMaintenance :: "Cfg \<Rightarrow> cfg_error + Cfg" where
  "validateMaintenance cfg =
     (let dm = cfg_DailyMaintenance cfg; sNames = map st_Name (cfg_Storages cfg)
      in case List.find (\<lambda>sName. sName \<notin> set sNames) (job_Storages dm) of
           Some sName \<Rightarrow> Inl (MaintenanceStorage sName)
         | None \<Rightarrow>
             if job_Hour dm > 23 then Inl MaintenanceHour
             else if job_Minute dm > 59 then Inl MaintenanceMinute
             else if job_Duration dm > 24 * Hours then Inl MaintenanceDuration
             else Inr cfg)"

definition validateCgroups :: "Cfg \<Rightarrow> cfg_error + Cfg" where
  "validateCgroups cfg =
     (let cg = cfg_Cgroups cfg
      in if cg_Count cg = 0 then Inr cfg
         else if Mountpoint cg = [] then Inl CgroupsMountpoint
         else if HierarchyRoot cg = [] then Inl CgroupsHierarchyRoot
         else if CPU_Enabled cg \<and> CPU_Shares cg = 0 then Inl CgroupsShares
         else if Memory_Enabled cg \<and> (Memory_Limit cg = 0 \<or> Memory_Limit cg < -1) then Inl CgroupsLimit
         else Inr cfg)"

definition ConfigureRuby :: "os \<Rightarrow> Cfg \<Rightarrow> cfg_error + Cfg" where
  "ConfigureRuby os cfg =
     (let r0 = cfg_Ruby cfg;
          r1 = (if ruby_GracefulRestartTimeout r0 = 0 then r0\<lparr>ruby_GracefulRestartTimeout := 10 * Minutes\<rparr> else r0);
          r2 = (if MaxRSS r1 = 0 then r1\<lparr>MaxRSS := 200 * 1024 * 1024\<rparr> else r1);
          r3 = (if RestartDelay r2 = 0 then r2\<lparr>RestartDelay := 5 * Minutes\<rparr> else r2)
      in if ruby_Dir r3 = [] then Inl RubyDirNotSet
         else
           let r4 = (if NumWorkers r3 < 2 then r3\<lparr>NumWorkers := 2\<rparr> else r3)
           in case path_Abs os (ruby_Dir r4) of
                None \<Rightarrow> Inl AbsFailed
              | Some dir \<Rightarrow>
                  (let r5 = r4\<lparr>ruby_Dir := dir\<rparr>;
                       search = (if RuggedGitConfigSearchPath r5 = [] then Some []
                                 else path_Abs os (RuggedGitConfigSearchPath r5))
                   in case search of
                        None \<Rightarrow> Inl AbsFailed
                      | Some path \<Rightarrow>
                          (let r6 = r5\<lparr>RuggedGitConfigSearchPath := path\<rparr>
                           in case validateIsDirectory os (ruby_Dir r6) ''gitaly-ruby.dir'' of
                                Some err \<Rightarrow> Inl err
                              | None \<Rightarrow> Inr (cfg\<lparr>cfg_Ruby := r6\<rparr>))))"

definition configurePackObjectsCache :: "Cfg \<Rightarrow> cfg_error + Cfg" where
  "configurePackObjectsCache cfg =
     (let poc0 = cfg_PackObjectsCache cfg
      in if \<not> poc_Enabled poc0 then Inr cfg
         else if poc_MaxAge poc0 < 0 then Inl PackObjectsCacheNegativeMaxAge
         else
           let poc1 = (if poc_MaxAge poc0 = 0 then poc0\<lparr>poc_MaxAge := 5 * Minutes\<rparr> else poc0)
           in if poc_Dir poc1 = [] \<and> cfg_Storages cfg = [] then Inl PackObjectsCacheNoStorages
              else
                let poc2 = (if poc_Dir poc1 = []
                            then poc1\<lparr>poc_Dir := path_Join [st_Path (hd (cfg_Storages cfg)), GitalyDataPrefix, ''PackObjectsCache'']\<rparr>
                            else poc1)
                in if \<not> IsAbs (poc_Dir poc2) then Inl PackObjectsCacheRelativePath
                   else Inr (cfg\<lparr>cfg_PackObjectsCache := poc2\<rparr>))"

fun run_checks :: "(Cfg \<Rightarrow> cfg_error + Cfg) list \<Rightarrow> Cfg \<Rightarrow> cfg_error + Cfg" where
  "run_checks [] cfg = Inr cfg"
| "run_checks (run # runs) cfg = (case run cfg of Inl err \<Rightarrow> Inl err | Inr cfg' \<Rightarrow> run_checks runs cfg')"

definition cfg_Validate :: "os \<Rightarrow> Cfg \<Rightarrow> cfg_error + Cfg" where
  "cfg_Validate os =
     run_checks
       [validateListeners, validateStorages os, validateToken, validateGit os, validateShell os,
        ConfigureRuby os, validateBinDir os, validateInternalSocketDir os, validateHooks os,
        validateMaintenance, validateCgroups, configurePackObjectsCache]"

section \<open>Concurrency limits\<close>

definition ConfigureConcurrencyLimits :: "Cfg \<Rightarrow> (string, int) gomap" where
  "ConfigureConcurrencyLimits cfg =
     (let m = fold (\<lambda>v m. AList.update (conc_RPC v) (MaxPerRepo v) m) (cfg_Concurrency cfg) [];
          method = ''/gitaly.RepositoryService/ReplicateRepository''
      in if map_of m method = None then AList.update method 1 m else m)"

end
