(* ===== verification/Storage_Locator.thy ===== *)
theory Storage_Locator
  imports Gitaly_Config
begin

text \<open>
  The locator, which turns the storage name and relative path of a request into a path of the file
  system (\<open>internal/gitaly/config/locator.go\<close>, \<open>internal/gitaly/storage/locator.go\<close>). The
  lemmas show that a resolved path has the components of the storage as a prefix, and that storages
  accepted by the configuration do not share repositories.
\<close>

section \<open>Relative paths and quarantine directories\<close>

record GitRepo =
  StorageName :: string
  RelativePath :: string
  GitObjectDirectory :: string
  GitAlternateObjectDirectories :: "string list"

datatype relative_error = ErrRelativePathEscapesRoot | RelError

definition ValidateRelativePath :: "string \<Rightarrow> string \<Rightarrow> relative_error + string" where
  "ValidateRelativePath rootDir relativePath =
     (let absPath = path_Join [rootDir, relativePath]
      in if rootDir \<noteq> absPath \<and> \<not> prefix (rootDir @ [slash]) absPath then Inl ErrRelativePathEscapesRoot
         else case Rel rootDir absPath of None \<Rightarrow> Inl RelError | Some r \<Rightarrow> Inr r)"

definition IsGitDirectory :: "os \<Rightarrow> string \<Rightarrow> bool" where
  "IsGitDirectory os dir \<longleftrightarrow>
     dir \<noteq> [] \<and> list_all (\<lambda>element. \<not> isl (os_Stat os (path_Join [dir, element]))) [''objects'', ''refs'', ''HEAD'']"

definition hex_char :: "byte \<Rightarrow> char" where
  "hex_char b = ''0123456789abcdef'' ! unat b"

definition fmt_x :: "byte list \<Rightarrow> string" where
  "fmt_x bs = concat (map (\<lambda>b. [hex_char (b div 16), hex_char (b mod 16)]) bs)"

text \<open>The hash function is an argument; \<open>None\<close> is the nil repository.\<close>

definition QuarantineDirectoryPrefix :: "(string \<Rightarrow> byte list) \<Rightarrow> GitRepo option \<Rightarrow> string" where
  "QuarantineDirectoryPrefix sha1 repo =
     (let hash = (case repo of None \<Rightarrow> replicate 20 0 | Some r \<Rightarrow> sha1 (RelativePath r))
      in ''quarantine-'' @ fmt_x (take 8 hash) @ ''-'')"

section \<open>The locator\<close>

datatype codes = InvalidArgument | NotFound | Internal

datatype locator_error =
    NoSuchStorage string
  | StorageDoesNotExist
  | StoragePathError
  | RelativePathMissing
  | InvalidRelativePath relative_error
  | EmptyRepoPath
  | NotAGitRepository string
  | EmptyDirectory
  | ObjectDirectoryMissing string

fun status_code :: "locator_error \<Rightarrow> codes" where
  "status_code StorageDoesNotExist = NotFound"
| "status_code (NotAGitRepository _) = NotFound"
| "status_code (ObjectDirectoryMissing _) = NotFound"
| "status_code StoragePathError = Internal"
| "status_code _ = InvalidArgument"

definition GetStorageByName :: "Cfg \<Rightarrow> string \<Rightarrow> locator_error + string" where
  "GetStorageByName conf storageName =
     (case StoragePath conf storageName of None \<Rightarrow> Inl (NoSuchStorage storageName) | Some p \<Rightarrow> Inr p)"

definition GetPath :: "os \<Rightarrow> Cfg \<Rightarrow> GitRepo \<Rightarrow> locator_error + string" where
  "GetPath os conf repo =
     (case GetStorageByName conf (StorageName repo) of
        Inl err \<Rightarrow> Inl err
      | Inr storagePath \<Rightarrow>
          (case os_Stat os storagePath of
             Inl ErrNotExist \<Rightarrow> Inl StorageDoesNotExist
           | Inl StatFailed \<Rightarrow> Inl StoragePathError
           | Inr _ \<Rightarrow>
               if RelativePath repo = [] then Inl RelativePathMissing
               else
                 (case ValidateRelativePath storagePath (RelativePath repo) of
                    Inl err \<Rightarrow> Inl (InvalidRelativePath err)
                  | Inr _ \<Rightarrow> Inr (path_Join [storagePath, RelativePath repo]))))"

definition GetRepoPath :: "os \<Rightarrow> Cfg \<Rightarrow> GitRepo \<Rightarrow> locator_error + string" where
  "GetRepoPath os conf repo =
     (case GetPath os conf repo of
        Inl err \<Rightarrow> Inl err
      | Inr repoPath \<Rightarrow>
          if repoPath = [] then Inl EmptyRepoPath
          else if IsGitDirectory os repoPath then Inr repoPath
          else Inl (NotAGitRepository repoPath))"

definition getPath :: "Cfg \<Rightarrow> string \<Rightarrow> string \<Rightarrow> locator_error + string" where
  "getPath conf storageName pfx =
     (case StoragePath conf storageName of
        None \<Rightarrow> Inl (NoSuchStorage storageName)
      | Some storagePath \<Rightarrow> Inr (path_Join [storagePath, pfx]))"

definition CacheDir :: "Cfg \<Rightarrow> string \<Rightarrow> locator_error + string" where
  "CacheDir conf storageName = getPath conf storageName (GitalyDataPrefix @ ''/cache'')"

definition StateDir :: "Cfg \<Rightarrow> string \<Rightarrow> locator_error + string" where
  "StateDir conf storageName = getPath conf storageName (GitalyDataPrefix @ ''/state'')"

definition TempDir :: "Cfg \<Rightarrow> string \<Rightarrow> locator_error + string" where
  "TempDir conf storageName = getPath conf storageName (GitalyDataPrefix @ ''/tmp'')"

text \<open>
  The error of the temporary directory replaces the original one; both have the same status code.
\<close>

definition GetObjectDirectoryPath :: "(string \<Rightarrow> byte list) \<Rightarrow> os \<Rightarrow> Cfg \<Rightarrow> GitRepo \<Rightarrow> locator_error + string" where
  "GetObjectDirectoryPath sha1 os conf repo =
     (case GetRepoPath os conf repo of
        Inl err \<Rightarrow> Inl err
      | Inr repoPath \<Rightarrow>
          (let objectDirectoryPath = GitObjectDirectory repo;
               fullPath = path_Join [repoPath, objectDirectoryPath];
               finish = (if os_Stat os fullPath = Inl ErrNotExist then Inl (ObjectDirectoryMissing fullPath)
                         else Inr fullPath)
           in if objectDirectoryPath = [] then Inl EmptyDirectory
              else
                (case ValidateRelativePath repoPath objectDirectoryPath of
                   Inr _ \<Rightarrow> finish
                 | Inl origError \<Rightarrow>
                     (case TempDir conf (StorageName repo) of
                        Inl err \<Rightarrow> Inl err
                      | Inr tempDir \<Rightarrow>
                          if prefix (path_Join [tempDir, QuarantineDirectoryPrefix sha1 (Some repo)]) fullPath
                          then finish else Inl (InvalidRelativePath origError)))))"

definition InfoAlternatesPath :: "os \<Rightarrow> Cfg \<Rightarrow> GitRepo \<Rightarrow> locator_error + string" where
  "InfoAlternatesPath os conf repo =
     (case GetRepoPath os conf repo of
        Inl err \<Rightarrow> Inl err
      | Inr repoPath \<Rightarrow> Inr (path_Join [repoPath, ''objects'', ''info'', ''alternates'']))"

section \<open>An example\<close>

text \<open>A host with two storages side by side, every file present.\<close>

definition example_os :: os where
  "example_os =
     \<lparr> os_Stat = (\<lambda>_. Inr IsDir), os_Access = (\<lambda>_. None), os_Getwd = Some ''/'', os_LookupEnv = (\<lambda>_. None),
       os_LookPath = (\<lambda>_. Inr ''/usr/bin/git''), os_TempDir = Some ''/tmp/gitaly-internal'',
       os_RandomHex = Some ''ab'', os_Listen = (\<lambda>_. True), os_Close = (\<lambda>_. True), os_Getpid = ''7'' \<rparr>"

definition example_file :: Cfg where
  "example_file =
     \<lparr> cfg_SocketPath = ''/run/gitaly.sock'', cfg_ListenAddr = [], cfg_TLSListenAddr = [], cfg_BinDir = ''/bin'',
       cfg_Git = \<lparr> BinPath = ''/git'', CatfileCacheSize = 0, GitConfigs = [] \<rparr>,
       cfg_Storages = [\<lparr> st_Name = ''a'', st_Path = ''/d/./a/'' \<rparr>, \<lparr> st_Name = ''b'', st_Path = ''/d/ab'' \<rparr>],
       cfg_LoggingDir = [],
       cfg_Auth = \<lparr> Transitioning = False, Token = [] \<rparr>,
       cfg_Ruby = \<lparr> ruby_Dir = ''/ruby'', MaxRSS = 0, ruby_GracefulRestartTimeout = 0, RestartDelay = 0,
                    NumWorkers = 0, RuggedGitConfigSearchPath = [] \<rparr>,
       cfg_SecretFile = [], cfg_GitlabShellDir = ''/shell'', cfg_CustomHooksDir = [], cfg_Concurrency = [],
       cfg_GracefulRestartTimeout = 0, cfg_InternalSocketDir = [], cfg_DailyMaintenance = zero_DailyJob,
       cfg_Cgroups = \<lparr> cg_Count = 0, Mountpoint = [], HierarchyRoot = [], CPU_Enabled = False, CPU_Shares = 0,
                       Memory_Enabled = False, Memory_Limit = 0 \<rparr>,
       cfg_PackObjectsCache = \<lparr> poc_Enabled = True, poc_Dir = [], poc_MaxAge = 0 \<rparr> \<rparr>"

definition example_conf :: Cfg where
  "example_conf = projr (Load (\<lambda>_. Some example_file) example_os [])"

definition example_valid :: Cfg where
  "example_valid = projr (cfg_Validate example_os example_conf)"

definition example_repo :: "string \<Rightarrow> string \<Rightarrow> GitRepo" where
  "example_repo storage path =
     \<lparr> StorageName = storage, RelativePath = path, GitObjectDirectory = ''../+gitaly/tmp/quarantine-0000000000000000-1'',
       GitAlternateObjectDirectories = [] \<rparr>"

section \<open>Relative paths\<close>

lemma ValidateRelativePath_ok:
  assumes "list_all comp_ok cs" "ValidateRelativePath (abs_path cs) rel = Inr r"
  obtains ds where "list_all comp_ok (cs @ ds)" "path_Join [abs_path cs, rel] = abs_path (cs @ ds)"
    and "cs = [] \<Longrightarrow> ds = []"
proof -
  obtain es where es: "list_all comp_ok es" "path_Join [abs_path cs, rel] = abs_path es"
    using Join_comps [OF assms(1)] by blast
  from assms(2) es consider "abs_path cs = abs_path es" | "prefix (abs_path cs @ [slash]) (abs_path es)"
    by (auto simp: ValidateRelativePath_def Let_def split: if_splits)
  then show thesis
  proof cases
    case 1
    with es assms(1) that [of "[]"] show ?thesis by simp
  next
    case 2
    from prefix_components [OF assms(1) es(1) 2] obtain ds where "cs \<noteq> []" "es = cs @ ds"
      by (auto simp: strict_prefix_def prefix_def)
    with that [of ds] es show ?thesis by simp
  qed
qed


lemma Rel_inside:
  assumes "list_all comp_ok (cs @ ds)"
  shows "Rel (abs_path cs) (abs_path (cs @ ds)) = Some (if ds = [] then ''.'' else join_with [slash] ds)"
proof -
  have abs: "IsAbs (abs_path xs)" for xs by (simp add: IsAbs_def abs_path_def)
  have "abs_path (cs @ ds) = abs_path cs \<longleftrightarrow> ds = []" using assms by (simp add: abs_path_inject)
  with assms abs show ?thesis by (simp add: Rel_def Clean_abs_path comps_of_abs_path Let_def)
qed

text \<open>A validated path names the same directory as the relative path it was made from.\<close>

lemma ValidateRelativePath_round_trip:
  assumes "list_all comp_ok cs" "ValidateRelativePath (abs_path cs) rel = Inr r"
  shows "path_Join [abs_path cs, r] = path_Join [abs_path cs, rel] \<and> list_all (\<lambda>c. c \<noteq> ''..'') (split_on slash r)"
proof -
  obtain ds where ds: "list_all comp_ok (cs @ ds)" "path_Join [abs_path cs, rel] = abs_path (cs @ ds)"
    using ValidateRelativePath_ok [OF assms] by blast
  then have r: "r = (if ds = [] then ''.'' else join_with [slash] ds)"
    using assms(2) by (auto simp: ValidateRelativePath_def Let_def Rel_inside split: if_splits)
  show ?thesis
  proof (cases "ds = []")
    case True
    with r ds Join_abs_path [OF assms(1)] show ?thesis by simp
  next
    case False
    with r ds have "split_on slash r = ds" by (simp add: split_on_join list_all_iff comp_ok_def)
    with ds Join_abs_path [OF assms(1), of r] show ?thesis
      by (simp add: clean_comps_ok list_all_iff comp_ok_def)
  qed
qed

section \<open>Storages\<close>

text \<open>What the nested loop of \<open>validateStorages\<close> finds of two storages.\<close>

definition separate :: "Storage \<Rightarrow> Storage \<Rightarrow> bool" where
  "separate a b \<longleftrightarrow>
     st_Path a = st_Path b \<or> Dir (st_Path a) = Dir (st_Path b) \<or>
     \<not> prefix (st_Path a) (st_Path b) \<and> \<not> prefix (st_Path b) (st_Path a)"

lemma separate_sym: "separate a b \<Longrightarrow> separate b a"
  by (auto simp: separate_def)

lemma separate_refl [simp]: "separate a a"
  by (simp add: separate_def)

lemma checkOthers_Cons:
  "checkOthers s (a # as) = None \<longleftrightarrow> st_Name a \<noteq> st_Name s \<and> separate a s \<and> checkOthers s as = None"
  unfolding checkOthers.simps separate_def
  by (cases "st_Path s = st_Path a"; cases "Dir (st_Path s) = Dir (st_Path a)") simp_all

lemma checkOthers_separate:
  "checkOthers s as = None \<longleftrightarrow> (\<forall>a \<in> set as. st_Name a \<noteq> st_Name s \<and> separate a s)"
proof (induction as)
  case (Cons a as)
  then show ?case unfolding checkOthers_Cons by simp
qed simp

lemma checkStorages_separate:
  "checkStorages os before rest = None \<Longrightarrow>
   sorted_wrt (\<lambda>a b. st_Name a \<noteq> st_Name b \<and> separate a b) before \<Longrightarrow>
   sorted_wrt (\<lambda>a b. st_Name a \<noteq> st_Name b \<and> separate a b) (before @ rest)"
proof (induction os before rest rule: checkStorages.induct)
  case (2 os before s rest)
  from "2.prems"(1) have None: "checkOthers s before = None" "checkStorages os (before @ [s]) rest = None"
      and "st_Name s \<noteq> []" "st_Path s \<noteq> []" "os_Stat os (st_Path s) = Inr IsDir"
    by (auto split: if_splits sum.splits stat_error.splits file_info.splits option.splits)
  moreover have "sorted_wrt (\<lambda>a b. st_Name a \<noteq> st_Name b \<and> separate a b) (before @ [s])"
    using "2.prems"(2) None(1) by (simp add: sorted_wrt_append checkOthers_separate)
  ultimately show ?case using "2.IH" by simp
qed simp

lemma validateStorages_separate:
  assumes "validateStorages os cfg = Inr cfg'" "a \<in> set (cfg_Storages cfg)" "b \<in> set (cfg_Storages cfg)"
  shows "separate a b"
proof -
  have "sorted_wrt (\<lambda>a b. st_Name a \<noteq> st_Name b \<and> separate a b) (cfg_Storages cfg)"
    using assms(1) checkStorages_separate [of os "[]" "cfg_Storages cfg"]
    by (auto simp: validateStorages_def split: if_splits option.splits)
  moreover from assms obtain i j where "i < length (cfg_Storages cfg)" "cfg_Storages cfg ! i = a"
      "j < length (cfg_Storages cfg)" "cfg_Storages cfg ! j = b" by (auto simp: in_set_conv_nth)
  ultimately show ?thesis
    by (cases i j rule: linorder_cases) (auto simp: sorted_wrt_iff_nth_less intro: separate_sym)
qed

lemma list_all_butlast: "list_all P xs \<Longrightarrow> list_all P (butlast xs)"
  by (auto simp: list_all_iff dest: in_set_butlastD)

text \<open>Components of separate storages are not nested.\<close>

lemma separate_components:
  assumes "separate a b" "st_Path a = abs_path cs" "st_Path b = abs_path es"
    and "list_all comp_ok cs" "list_all comp_ok es" "cs \<noteq> []"
  shows "\<not> strict_prefix cs es"
proof
  assume sp: "strict_prefix cs es"
  then have "length cs < length es" by (rule prefix_length_less)
  moreover have "0 < length cs" using assms(6) by simp
  ultimately have "length (butlast cs) \<noteq> length (butlast es)" unfolding length_butlast by linarith
  then have "butlast cs \<noteq> butlast es" by metis
  then have "Dir (st_Path a) \<noteq> Dir (st_Path b)"
    using abs_path_inject [OF list_all_butlast [OF assms(4)] list_all_butlast [OF assms(5)]] assms
    by (simp add: Dir_abs_path)
  moreover have "st_Path a \<noteq> st_Path b" using assms sp by (auto simp: abs_path_inject)
  ultimately show False
    using assms(1) abs_path_prefix [OF sp] by (simp add: separate_def assms(2,3))
qed

section \<open>Validation keeps the storages\<close>

lemma keeps_storages:
  "validateListeners c = Inr c' \<Longrightarrow> cfg_Storages c' = cfg_Storages c"
  "validateStorages os c = Inr c' \<Longrightarrow> cfg_Storages c' = cfg_Storages c"
  "validateToken c = Inr c' \<Longrightarrow> cfg_Storages c' = cfg_Storages c"
  "validateGit os c = Inr c' \<Longrightarrow> cfg_Storages c' = cfg_Storages c"
  "validateShell os c = Inr c' \<Longrightarrow> cfg_Storages c' = cfg_Storages c"
  "validateBinDir os c = Inr c' \<Longrightarrow> cfg_Storages c' = cfg_Storages c"
  "validateInternalSocketDir os c = Inr c' \<Longrightarrow> cfg_Storages c' = cfg_Storages c"
  "validateHooks os c = Inr c' \<Longrightarrow> cfg_Storages c' = cfg_Storages c"
  "validateMaintenance c = Inr c' \<Longrightarrow> cfg_Storages c' = cfg_Storages c"
  "validateCgroups c = Inr c' \<Longrightarrow> cfg_Storages c' = cfg_Storages c"
  "configurePackObjectsCache c = Inr c' \<Longrightarrow> cfg_Storages c' = cfg_Storages c"
  by (auto simp: validateListeners_def validateStorages_def validateToken_def validateGit_def SetGitPath_def
      validateShell_def validateBinDir_def validateInternalSocketDir_def validateHooks_def
      validateMaintenance_def validateCgroups_def configurePackObjectsCache_def Let_def
      split: if_splits option.splits sum.splits lookpath_error.splits)

lemma ConfigureRuby_storages: "ConfigureRuby os c = Inr c' \<Longrightarrow> cfg_Storages c' = cfg_Storages c"
  by (auto simp: ConfigureRuby_def Let_def split: if_splits option.splits)

lemma run_checks_storages:
  assumes "run_checks runs c = Inr c'"
    and "\<And>run c c'. run \<in> set runs \<Longrightarrow> run c = Inr c' \<Longrightarrow> cfg_Storages c' = cfg_Storages c"
  shows "cfg_Storages c' = cfg_Storages c"
  using assms
proof (induction runs c rule: run_checks.induct)
  case (2 run runs c)
  from "2.prems"(1) obtain d where d: "run c = Inr d" "run_checks runs d = Inr c'"
    by (auto split: sum.splits)
  have "cfg_Storages c' = cfg_Storages d"
    by (rule "2.IH" [OF d]) (auto intro: "2.prems"(2))
  moreover have "cfg_Storages d = cfg_Storages c" using "2.prems"(2) [of run c d] d(1) by simp
  ultimately show ?case by simp
qed simp

lemma cfg_Validate_storages:
  assumes "cfg_Validate os c = Inr c'"
  shows "cfg_Storages c' = cfg_Storages c"
  using assms unfolding cfg_Validate_def
  by (rule run_checks_storages) (auto dest: keeps_storages ConfigureRuby_storages)

lemma cfg_Validate_validateStorages:
  assumes "cfg_Validate os c = Inr c'"
  shows "validateStorages os c = Inr c"
  using assms
  by (auto simp: cfg_Validate_def validateListeners_def validateStorages_def split: sum.splits if_splits option.splits)

lemma Load_clean:
  assumes "Load Decode os file = Inr c" "s \<in> set (cfg_Storages c)" "IsAbs (st_Path s)"
  obtains cs where "list_all comp_ok cs" "st_Path s = abs_path cs"
proof -
  from assms(1,2) obtain p where p: "st_Path s = Clean p"
    by (auto simp: Load_def split: option.splits sum.splits)
  with assms(3) have "IsAbs p" by (simp add: IsAbs_Clean)
  then show thesis using Clean_rooted [of p] p that by metis
qed

lemma StoragePath_in: "StoragePath cfg n = Some p \<Longrightarrow> \<exists>s \<in> set (cfg_Storages cfg). st_Path s = p"
  by (auto simp: StoragePath_def storage_of_def find_Some_iff)

lemma GetPath_ok:
  assumes "GetPath os conf repo = Inr p"
  obtains storagePath r where "StoragePath conf (StorageName repo) = Some storagePath"
    and "ValidateRelativePath storagePath (RelativePath repo) = Inr r"
    and "p = path_Join [storagePath, RelativePath repo]"
  using assms
  by (auto simp: GetPath_def GetStorageByName_def split: sum.splits option.splits stat_error.splits if_splits)

lemma GetPath_comps:
  assumes "GetPath os conf repo = Inr p" "StoragePath conf (StorageName repo) = Some (abs_path cs)"
    and "list_all comp_ok cs"
  obtains ds where "list_all comp_ok (cs @ ds)" "p = abs_path (cs @ ds)" "cs = [] \<Longrightarrow> ds = []"
proof -
  from GetPath_ok [OF assms(1)] assms(2) obtain r where
      "ValidateRelativePath (abs_path cs) (RelativePath repo) = Inr r"
      "p = path_Join [abs_path cs, RelativePath repo]" by auto
  with ValidateRelativePath_ok [OF assms(3)] that show thesis by metis
qed

section \<open>Requests stay in their storage\<close>

text \<open>
  C31. Whatever relative path a request carries, the path that \<open>GetPath\<close> returns for it has the
  components of the storage's directory as its first components and no \<open>..\<close> among the others, for
  every loaded configuration whose storage path is absolute.
\<close>

theorem repository_stays_in_storage:
  assumes "Load Decode os file = Inr conf" "StoragePath conf (StorageName repo) = Some root" "IsAbs root"
    and "GetPath os' conf repo = Inr p"
  shows "\<exists>cs ds. root = abs_path cs \<and> p = abs_path (cs @ ds) \<and> list_all comp_ok (cs @ ds)"
proof -
  obtain s where "s \<in> set (cfg_Storages conf)" "st_Path s = root" using StoragePath_in [OF assms(2)] by blast
  then obtain cs where cs: "list_all comp_ok cs" "root = abs_path cs"
    using Load_clean [OF assms(1)] assms(3) by metis
  from GetPath_comps [OF assms(4)] assms(2) cs show ?thesis by metis
qed


lemma example_runs:
  "Load (\<lambda>_. Some example_file) example_os [] = Inr example_conf"
  "cfg_Validate example_os example_conf = Inr example_valid"
  "GetPath example_os example_conf (example_repo ''a'' ''x/../y.git'') = Inr ''/d/a/y.git''"
  "GetPath example_os example_valid (example_repo ''a'' ''x/../y.git'') = Inr ''/d/a/y.git''"
  "GetPath example_os example_valid (example_repo ''b'' ''y.git'') = Inr ''/d/ab/y.git''"
  "StoragePath example_conf ''a'' = Some ''/d/a''"
  "StoragePath example_valid ''a'' = Some ''/d/a''"
  "StoragePath example_valid ''b'' = Some ''/d/ab''"
  by code_simp+

theorem repository_stays_in_storage_witness:
  "\<exists>cs ds. ''/d/a'' = abs_path cs \<and> ''/d/a/y.git'' = abs_path (cs @ ds) \<and> list_all comp_ok (cs @ ds)"
  using repository_stays_in_storage [OF example_runs(1), of "example_repo ''a'' ''x/../y.git''"] example_runs
  by (simp add: example_repo_def IsAbs_def)


section \<open>Object directories\<close>

lemma hex_char_no_slash:
  assumes "b < 16"
  shows "hex_char b \<noteq> slash"
proof -
  have "unat b < 16" using assms by (simp add: word_less_nat_alt)
  then have "hex_char b \<in> set ''0123456789abcdef''" unfolding hex_char_def by (intro nth_mem) simp
  then show ?thesis by auto
qed

lemma fmt_x_no_slash: "slash \<notin> set (fmt_x bs)"
proof -
  have "b div 16 < 16" "b mod 16 < 16" for b :: byte
    by (simp_all add: word_less_nat_alt unat_div unat_mod) (use unsigned_less [of b, where ?'a = nat] in simp)
  then have "hex_char (b div 16) \<noteq> slash" "hex_char (b mod 16) \<noteq> slash" for b :: byte
    by (simp_all add: hex_char_no_slash)
  then show ?thesis by (simp add: fmt_x_def eq_commute [of slash])
qed

lemma QuarantineDirectoryPrefix_comp: "comp_ok (QuarantineDirectoryPrefix sha1 repo)"
  using fmt_x_no_slash by (simp add: QuarantineDirectoryPrefix_def comp_ok_def Let_def)

lemma split_on_prefix:
  "sep \<notin> set c \<Longrightarrow> split_on sep (c @ s) = (case split_on sep s of [] \<Rightarrow> [] | w # ws \<Rightarrow> (c @ w) # ws)"
proof (induction c)
  case Nil
  then show ?case by (cases "split_on sep s") simp_all
next
  case (Cons a c)
  then show ?case by (cases "split_on sep s") auto
qed

lemma prefix_last_component:
  assumes "list_all comp_ok (cs @ [c])" "cs \<noteq> []" "list_all comp_ok es"
    and "prefix (abs_path (cs @ [c])) (abs_path es)"
  shows "\<exists>suffix rest. es = cs @ (c @ suffix) # rest"
proof -
  from assms(2,4) obtain s where s: "abs_path es = abs_path cs @ slash # c @ s"
    by (auto simp: abs_path_snoc prefix_def)
  then have "es \<noteq> []" using assms(2) by (cases cs) (auto simp: abs_path_def)
  then have "[] # es = split_on slash (abs_path cs) @ split_on slash (c @ s)"
    using split_abs_path [OF assms(3)] by (simp add: s split_on_append)
  also have "split_on slash (abs_path cs) = [] # cs" using assms(1,2) by (simp add: split_abs_path)
  also obtain w ws where "split_on slash (c @ s) = (c @ w) # ws"
    using assms(1) by (cases "split_on slash s") (auto simp: split_on_prefix comp_ok_def)
  finally show ?thesis by auto
qed

lemma TempDir_comps:
  assumes "StoragePath conf n = Some (abs_path cs)" "list_all comp_ok cs"
  shows "TempDir conf n = Inr (abs_path (cs @ [''+gitaly'', ''tmp'']))"
  using assms Join_abs_path [OF assms(2), of "''+gitaly/tmp''"]
  by (simp add: TempDir_def getPath_def GitalyDataPrefix_def)

lemma GetRepoPath_ok: "GetRepoPath os conf repo = Inr p \<Longrightarrow> GetPath os conf repo = Inr p"
  by (auto simp: GetRepoPath_def split: sum.splits if_splits)

lemma GetObjectDirectoryPath_ok:
  assumes "GetObjectDirectoryPath sha1 os conf repo = Inr p"
  obtains repoPath where "GetRepoPath os conf repo = Inr repoPath" "p = path_Join [repoPath, GitObjectDirectory repo]"
    and "(\<exists>r. ValidateRelativePath repoPath (GitObjectDirectory repo) = Inr r) \<or>
         (\<exists>tempDir. TempDir conf (StorageName repo) = Inr tempDir \<and>
            prefix (path_Join [tempDir, QuarantineDirectoryPrefix sha1 (Some repo)]) p)"
  using assms by (auto simp: GetObjectDirectoryPath_def Let_def split: sum.splits if_splits)

text \<open>
  C32. An object directory that a request names, whether inside the repository or a quarantine
  directory, is a directory of the repository's own storage. Outside the repository, it is one below
  the storage's temporary directory, and its name there starts with the prefix made from the hash of
  the repository's relative path: a request cannot make git read or write the objects of
  another repository.
\<close>

theorem object_directory_is_own:
  assumes "Load Decode os file = Inr conf" "StoragePath conf (StorageName repo) = Some root" "IsAbs root"
    and "GetObjectDirectoryPath sha1 os' conf repo = Inr p"
  shows "\<exists>cs es. root = abs_path cs \<and> p = abs_path es \<and> list_all comp_ok es \<and>
           ((\<exists>ds. GetRepoPath os' conf repo = Inr (abs_path (cs @ ds)) \<and> prefix (cs @ ds) es) \<or>
            (\<exists>suffix rest. es =
               cs @ [''+gitaly'', ''tmp'', QuarantineDirectoryPrefix sha1 (Some repo) @ suffix] @ rest))"
proof -
  obtain s where "s \<in> set (cfg_Storages conf)" "st_Path s = root" using StoragePath_in [OF assms(2)] by blast
  then obtain cs where cs: "list_all comp_ok cs" "root = abs_path cs"
    using Load_clean [OF assms(1)] assms(3) by metis
  obtain repoPath where rp: "GetRepoPath os' conf repo = Inr repoPath" "p = path_Join [repoPath, GitObjectDirectory repo]"
    and either: "(\<exists>r. ValidateRelativePath repoPath (GitObjectDirectory repo) = Inr r) \<or>
         (\<exists>tempDir. TempDir conf (StorageName repo) = Inr tempDir \<and>
            prefix (path_Join [tempDir, QuarantineDirectoryPrefix sha1 (Some repo)]) p)"
    using GetObjectDirectoryPath_ok [OF assms(4)] by blast
  obtain ds where ds: "list_all comp_ok (cs @ ds)" "repoPath = abs_path (cs @ ds)"
    using GetPath_comps [OF GetRepoPath_ok [OF rp(1)]] assms(2) cs by metis
  obtain es where es: "list_all comp_ok es" "p = abs_path es"
    using Join_comps [OF ds(1)] rp(2) ds(2) by metis
  show ?thesis using either
  proof
    assume "\<exists>r. ValidateRelativePath repoPath (GitObjectDirectory repo) = Inr r"
    then obtain fs where "p = abs_path ((cs @ ds) @ fs)" "list_all comp_ok ((cs @ ds) @ fs)"
      using ValidateRelativePath_ok [OF ds(1)] rp(2) ds(2) by metis
    with es have "es = (cs @ ds) @ fs" by (metis comps_of_abs_path)
    then have "prefix (cs @ ds) es" by simp
    with cs es rp(1) ds(2) show ?thesis by blast
  next
    let ?q = "QuarantineDirectoryPrefix sha1 (Some repo)" and ?ts = "cs @ [''+gitaly'', ''tmp'']"
    have ok: "list_all comp_ok (?ts @ [?q])"
      using cs QuarantineDirectoryPrefix_comp by (simp add: comp_ok_def)
    then have "path_Join [abs_path ?ts, ?q] = abs_path (?ts @ [?q])"
      using Join_abs_path [of ?ts ?q] QuarantineDirectoryPrefix_comp [of sha1 "Some repo"]
      by (simp add: split_on_word comp_ok_def clean_comps_ok)
    moreover assume "\<exists>tempDir. TempDir conf (StorageName repo) = Inr tempDir \<and> prefix (path_Join [tempDir, ?q]) p"
    ultimately have "prefix (abs_path (?ts @ [?q])) (abs_path es)"
      using TempDir_comps [of conf "StorageName repo" cs] assms(2) cs es(2) by auto
    then have "\<exists>suffix rest. es = ?ts @ (?q @ suffix) # rest"
      using prefix_last_component [OF ok _ es(1)] by blast
    then show ?thesis using cs es by fastforce
  qed
qed

theorem object_directory_is_own_witness:
  "\<exists>cs es. ''/d/a'' = abs_path cs \<and>
     ''/d/a/+gitaly/tmp/quarantine-0000000000000000-1'' = abs_path es \<and> list_all comp_ok es \<and>
     ((\<exists>ds. GetRepoPath example_os example_conf (example_repo ''a'' ''y.git'') = Inr (abs_path (cs @ ds)) \<and> prefix (cs @ ds) es) \<or>
      (\<exists>suffix rest. es = cs @ [''+gitaly'', ''tmp'',
         QuarantineDirectoryPrefix (\<lambda>_. replicate 20 0) (Some (example_repo ''a'' ''y.git'')) @ suffix] @ rest))"
proof (rule object_directory_is_own [OF example_runs(1)])
  show "GetObjectDirectoryPath (\<lambda>_. replicate 20 0) example_os example_conf (example_repo ''a'' ''y.git'') =
          Inr ''/d/a/+gitaly/tmp/quarantine-0000000000000000-1''"
    by code_simp
qed (simp_all add: example_repo_def example_runs IsAbs_def)

section \<open>What the checks accept and refuse\<close>

text \<open>
  A storage at the root of the file system serves no repository: the prefix that the validation
  looks for is then \<open>//\<close>, which no clean path has.
\<close>

lemma root_storage_serves_nothing:
  assumes "StoragePath conf (StorageName repo) = Some ''/''" "GetPath os conf repo = Inr p"
  shows "p = ''/''"
proof -
  have root: "''/'' = abs_path []" by (simp add: abs_path_def)
  from GetPath_comps [OF assms(2), of "[]"] assms(1) show ?thesis by (auto simp: root)
qed

text \<open>
  The check for nested storages compares strings and parent directories: it refuses two storages
  of which neither contains the other, and accepts a storage inside the root directory's.
\<close>

lemma storages_refused_although_apart:
  "checkStorages example_os [] [\<lparr> st_Name = ''a'', st_Path = ''/d/repos'' \<rparr>, \<lparr> st_Name = ''b'', st_Path = ''/d/repos2/x'' \<rparr>]
     = Some (StoragesNest ''b'' ''a'')"
  by code_simp

lemma storages_accepted_although_nested:
  "checkStorages example_os [] [\<lparr> st_Name = ''a'', st_Path = ''/'' \<rparr>, \<lparr> st_Name = ''b'', st_Path = ''/b'' \<rparr>] = None"
  by code_simp

end
