(* ===== verification/Gitaly_Config_Props.thy ===== *)
theory Gitaly_Config_Props
  imports Storage_Locator
begin

text \<open>
  What \<open>Validate\<close> guarantees to the rest of Gitaly: a well-formedness predicate on
  configurations, established check by check and kept by the later checks. The concurrency limits
  handed to the limiter are related to the configuration file.
\<close>

section \<open>Well-formed configurations\<close>

definition storages_wf :: "os \<Rightarrow> Cfg \<Rightarrow> bool" where
  "storages_wf os cfg \<longleftrightarrow>
     cfg_Storages cfg \<noteq> [] \<and> distinct (map st_Name (cfg_Storages cfg)) \<and>
     list_all (\<lambda>s. st_Name s \<noteq> [] \<and> st_Path s \<noteq> [] \<and> os_Stat os (st_Path s) = Inr IsDir) (cfg_Storages cfg)"

definition git_wf :: "Cfg \<Rightarrow> bool" where
  "git_wf cfg \<longleftrightarrow>
     list_all (\<lambda>p. CHR ''='' \<notin> set (gc_Key p) \<and> CHR ''.'' \<in> set (gc_Key p) \<and> gc_Value p \<noteq> []) (GitConfigs (cfg_Git cfg))"

definition ruby_wf :: "os \<Rightarrow> Cfg \<Rightarrow> bool" where
  "ruby_wf os cfg \<longleftrightarrow>
     IsAbs (ruby_Dir (cfg_Ruby cfg)) \<and> os_Stat os (ruby_Dir (cfg_Ruby cfg)) = Inr IsDir \<and>
     NumWorkers (cfg_Ruby cfg) \<ge> 2 \<and> MaxRSS (cfg_Ruby cfg) \<noteq> 0 \<and> RestartDelay (cfg_Ruby cfg) \<noteq> 0"

definition maintenance_wf :: "Cfg \<Rightarrow> bool" where
  "maintenance_wf cfg \<longleftrightarrow>
     (let dm = cfg_DailyMaintenance cfg
      in set (job_Storages dm) \<subseteq> st_Name ` set (cfg_Storages cfg) \<and>
         unat (job_Hour dm) \<le> 23 \<and> unat (job_Minute dm) \<le> 59 \<and> job_Duration dm \<le> 24 * Hours)"

definition cache_wf :: "Cfg \<Rightarrow> bool" where
  "cache_wf cfg \<longleftrightarrow>
     (let poc = cfg_PackObjectsCache cfg
      in if poc_Enabled poc then IsAbs (poc_Dir poc) \<and> poc_MaxAge poc > 0 else True)"

definition cfg_wf :: "os \<Rightarrow> Cfg \<Rightarrow> bool" where
  "cfg_wf os cfg \<longleftrightarrow>
     (cfg_SocketPath cfg \<noteq> [] \<or> cfg_ListenAddr cfg \<noteq> [] \<or> cfg_TLSListenAddr cfg \<noteq> []) \<and>
     storages_wf os cfg \<and> git_wf cfg \<and> ruby_wf os cfg \<and> IsAbs (cfg_BinDir cfg) \<and>
     maintenance_wf cfg \<and> cache_wf cfg"

lemmas cfg_wf_parts = storages_wf_def git_wf_def ruby_wf_def maintenance_wf_def cache_wf_def

section \<open>Each check establishes its part\<close>

lemma checkStorages_wf:
  "checkStorages os before rest = None \<Longrightarrow>
   list_all (\<lambda>s. st_Name s \<noteq> [] \<and> st_Path s \<noteq> [] \<and> os_Stat os (st_Path s) = Inr IsDir) rest"
proof (induction rest arbitrary: before)
  case (Cons s rest)
  from Cons.prems have "checkStorages os (before @ [s]) rest = None"
      and "st_Name s \<noteq> []" "st_Path s \<noteq> []" "os_Stat os (st_Path s) = Inr IsDir"
    by (auto split: if_splits sum.splits stat_error.splits file_info.splits option.splits)
  with Cons.IH show ?case by simp
qed simp

lemma sorted_wrt_distinct: "sorted_wrt (\<lambda>a b. f a \<noteq> f b \<and> Q a b) xs \<Longrightarrow> distinct (map f xs)"
  by (induction xs) auto

lemma validateStorages_wf: "validateStorages os cfg = Inr cfg' \<Longrightarrow> storages_wf os cfg"
  using checkStorages_wf [of os "[]" "cfg_Storages cfg"] checkStorages_separate [of os "[]" "cfg_Storages cfg"]
  by (auto simp: validateStorages_def storages_wf_def intro: sorted_wrt_distinct split: if_splits option.splits)

lemma checkGitConfigs_wf:
  "checkGitConfigs ps = None \<Longrightarrow>
   list_all (\<lambda>p. CHR ''='' \<notin> set (gc_Key p) \<and> CHR ''.'' \<in> set (gc_Key p) \<and> gc_Value p \<noteq> []) ps"
  by (induction ps) (auto simp: validateGitConfigKey_def split: if_splits)

lemma validateGit_wf:
  assumes "validateGit os cfg = Inr cfg'"
  obtains g where "cfg' = cfg\<lparr>cfg_Git := g\<rparr>" "git_wf cfg'"
proof -
  from assms have "SetGitPath os cfg = Inr cfg'" "git_wf cfg'"
    using checkGitConfigs_wf by (auto simp: validateGit_def git_wf_def split: sum.splits option.splits)
  moreover from this(1) have "\<exists>g. cfg' = cfg\<lparr>cfg_Git := g\<rparr>"
    unfolding SetGitPath_def
    by (auto split: if_splits option.splits sum.splits lookpath_error.splits
        intro: exI [of _ "cfg_Git cfg"])
  ultimately show thesis using that by blast
qed

definition getwd_abs :: "os \<Rightarrow> bool" where
  "getwd_abs os = (case os_Getwd os of None \<Rightarrow> True | Some wd \<Rightarrow> IsAbs wd)"

lemma IsAbs_Join: "IsAbs a \<Longrightarrow> IsAbs (path_Join (a # es))"
proof -
  assume a: "IsAbs a"
  then obtain c s where "a = c # s" by (cases a) (auto simp: IsAbs_def)
  then have "IsAbs (join_with [slash] (a # es))" using a by (cases es) (simp_all add: IsAbs_def)
  then show ?thesis using a by (simp add: path_Join_def IsAbs_Clean) (simp add: IsAbs_def)
qed

lemma path_Abs_abs: "getwd_abs os \<Longrightarrow> path_Abs os p = Some q \<Longrightarrow> IsAbs q"
  by (auto simp: path_Abs_def getwd_abs_def IsAbs_Clean IsAbs_Join split: if_splits option.splits)

lemma validateIsDirectory_ok: "validateIsDirectory os p n = None \<longleftrightarrow> os_Stat os p = Inr IsDir"
  by (auto simp: validateIsDirectory_def split: sum.splits stat_error.splits file_info.splits)

lemma ConfigureRuby_wf:
  assumes "ConfigureRuby os cfg = Inr cfg'" "getwd_abs os"
  obtains r where "cfg' = cfg\<lparr>cfg_Ruby := r\<rparr>" "ruby_wf os cfg'"
  using assms path_Abs_abs [OF assms(2)]
  by (auto simp: ConfigureRuby_def Let_def ruby_wf_def validateIsDirectory_ok split: if_splits option.splits)

lemma validateBinDir_wf:
  assumes "validateBinDir os cfg = Inr cfg'" "getwd_abs os"
  obtains d where "cfg' = cfg\<lparr>cfg_BinDir := d\<rparr>" "IsAbs d"
  using assms path_Abs_abs [OF assms(2)] by (auto simp: validateBinDir_def split: if_splits option.splits)

lemma validateMaintenance_wf: "validateMaintenance cfg = Inr cfg' \<Longrightarrow> cfg' = cfg \<and> maintenance_wf cfg"
  by (auto simp: validateMaintenance_def maintenance_wf_def Let_def find_None_iff word_less_nat_alt not_less
      split: if_splits option.splits)

lemma configurePackObjectsCache_wf:
  assumes "configurePackObjectsCache cfg = Inr cfg'"
  shows "cfg' = cfg\<lparr>cfg_PackObjectsCache := cfg_PackObjectsCache cfg'\<rparr> \<and> cache_wf cfg'"
proof (cases "poc_Enabled (cfg_PackObjectsCache cfg)")
  case True
  define p0 where "p0 = cfg_PackObjectsCache cfg"
  define p1 where "p1 = (if poc_MaxAge p0 = 0 then p0\<lparr>poc_MaxAge := 5 * Minutes\<rparr> else p0)"
  define p2 where "p2 = (if poc_Dir p1 = []
      then p1\<lparr>poc_Dir := path_Join [st_Path (hd (cfg_Storages cfg)), GitalyDataPrefix, ''PackObjectsCache'']\<rparr> else p1)"
  have "\<not> poc_MaxAge p0 < 0 \<and> IsAbs (poc_Dir p2) \<and> cfg' = cfg\<lparr>cfg_PackObjectsCache := p2\<rparr>"
    using assms True
    unfolding configurePackObjectsCache_def Let_def p0_def [symmetric] p1_def [symmetric] p2_def [symmetric]
    by (simp split: if_split_asm)
  moreover from this have "poc_MaxAge p2 > 0" by (simp add: p1_def p2_def)
  ultimately show ?thesis by (simp add: cache_wf_def Let_def)
next
  case False
  with assms show ?thesis by (simp add: configurePackObjectsCache_def cache_wf_def Let_def)
qed

text \<open>The checks that change nothing.\<close>

lemma unchanged:
  "validateListeners c = Inr d \<Longrightarrow>
     d = c \<and> (cfg_SocketPath c \<noteq> [] \<or> cfg_ListenAddr c \<noteq> [] \<or> cfg_TLSListenAddr c \<noteq> [])"
  "validateStorages os c = Inr d \<Longrightarrow> d = c"
  "validateToken c = Inr d \<Longrightarrow> d = c"
  "validateShell os c = Inr d \<Longrightarrow> d = c"
  "validateInternalSocketDir os c = Inr d \<Longrightarrow> d = c"
  "validateHooks os c = Inr d \<Longrightarrow> d = c"
  "validateCgroups c = Inr d \<Longrightarrow> d = c"
  by (auto simp: validateListeners_def validateStorages_def validateToken_def validateShell_def
      validateInternalSocketDir_def validateHooks_def validateCgroups_def Let_def
      split: if_splits option.splits)

lemma run_checks_Cons:
  "run_checks (run # runs) c = Inr e \<longleftrightarrow> (\<exists>d. run c = Inr d \<and> run_checks runs d = Inr e)"
  by (auto split: sum.splits)

lemma run_checks_Nil: "run_checks [] c = Inr e \<longleftrightarrow> c = e"
  by simp

text \<open>
  C33. A configuration that \<open>Validate\<close> accepts is well-formed: there is a listener; the storages are
  named, distinct and existing directories; no key of the git configuration holds an assignment; the
  directories for binaries, for Ruby and for the cache are absolute; at least two Ruby workers;
  the maintenance window names known storages and lies within a day.
\<close>

theorem Validate_wf:
  assumes "cfg_Validate os cfg = Inr cfg'" "getwd_abs os"
  shows "cfg_wf os cfg'"
proof -
  from assms(1) obtain c1 c2 c3 c4 c5 c6 c7 c8 c9 c10 c11 where
      run: "validateListeners cfg = Inr c1" "validateStorages os c1 = Inr c2" "validateToken c2 = Inr c3"
        "validateGit os c3 = Inr c4" "validateShell os c4 = Inr c5" "ConfigureRuby os c5 = Inr c6"
        "validateBinDir os c6 = Inr c7" "validateInternalSocketDir os c7 = Inr c8" "validateHooks os c8 = Inr c9"
        "validateMaintenance c9 = Inr c10" "validateCgroups c10 = Inr c11" "configurePackObjectsCache c11 = Inr cfg'"
    unfolding cfg_Validate_def run_checks_Cons run_checks_Nil by blast
  note same = unchanged(1) [OF run(1)] unchanged(2) [OF run(2)] unchanged(3) [OF run(3)] unchanged(4) [OF run(5)]
    unchanged(5) [OF run(8)] unchanged(6) [OF run(9)] unchanged(7) [OF run(11)]
  obtain g where g: "c4 = c3\<lparr>cfg_Git := g\<rparr>" "git_wf c4" using validateGit_wf [OF run(4)] .
  obtain r where r: "c6 = c5\<lparr>cfg_Ruby := r\<rparr>" "ruby_wf os c6" using ConfigureRuby_wf [OF run(6) assms(2)] .
  obtain b where b: "c7 = c6\<lparr>cfg_BinDir := b\<rparr>" "IsAbs b" using validateBinDir_wf [OF run(7) assms(2)] .
  note m = validateMaintenance_wf [OF run(10)]
  obtain p where p: "cfg' = c11\<lparr>cfg_PackObjectsCache := p\<rparr>" "cache_wf cfg'"
    using configurePackObjectsCache_wf [OF run(12)] by metis
  show ?thesis
    using same g r b m p validateStorages_wf [OF run(2)]
    unfolding cfg_wf_def by (simp add: cfg_wf_parts)
qed

theorem Validate_wf_witness: "cfg_wf example_os example_valid"
  using Validate_wf [OF example_runs(2)] by (simp add: getwd_abs_def example_os_def IsAbs_def)

section \<open>Concurrency limits\<close>

lemma fold_update_last:
  "map_of (fold (\<lambda>v m. AList.update (key v) (val v) m) vs m) k =
     (case List.find (\<lambda>v. key v = k) (rev vs) of None \<Rightarrow> map_of m k | Some v \<Rightarrow> Some (val v))"
proof (induction vs rule: rev_induct)
  case (snoc v vs)
  then show ?case by (simp add: update_conv')
qed simp

text \<open>
  The limit of a method is that of its last entry; a method without an entry has none, except
  \<open>ReplicateRepository\<close>, which then runs once per repository.
\<close>

lemma concurrency_limit:
  "map_of (ConfigureConcurrencyLimits cfg) method =
     (case List.find (\<lambda>v. conc_RPC v = method) (rev (cfg_Concurrency cfg)) of
        Some v \<Rightarrow> Some (MaxPerRepo v)
      | None \<Rightarrow> if method = ''/gitaly.RepositoryService/ReplicateRepository'' then Some 1 else None)"
  by (simp add: ConfigureConcurrencyLimits_def Let_def fold_update_last update_conv' split: option.split)

text \<open>
  A failure of the search for git other than a missing executable leaves the path empty, and the
  configuration is accepted.
\<close>

lemma lookpath_failure_is_accepted:
  assumes "BinPath (cfg_Git cfg) = []" "os_LookupEnv os ''GITALY_TESTING_GIT_BINARY'' = None"
    and "os_LookPath os ''git'' = Inl LookPathFailed"
  shows "SetGitPath os cfg = Inr cfg"
  using assms by (cases cfg; cases "cfg_Git cfg") (auto simp: SetGitPath_def)

end
