(* ===== verification/Hooks_Payload.thy ===== *)
theory Hooks_Payload
  imports Storage_Locator
begin

text \<open>
  What Gitaly hands to the hooks of a git command: the identity of the reference transaction in
  the metadata of a call (\<open>internal/transaction/txinfo/transaction.go\<close>) and the payload in the
  environment of the process (\<open>internal/git/hooks_payload.go\<close>). Base64 and the environment of a
  child process are modelled; the JSON encoding, which contains the encoding of a protobuf message,
  is the argument \<open>codec\<close>. Both encodings are shown to lose nothing.
\<close>

section \<open>Base64\<close>

definition b64_alphabet :: string where
  "b64_alphabet = ''ABCDEFGHIJKLMNOPQRSTUVWXYZabcdefghijklmnopqrstuvwxyz0123456789+/''"

definition enc6 :: "nat \<Rightarrow> char" where
  "enc6 n = b64_alphabet ! n"

fun index_of :: "char \<Rightarrow> string \<Rightarrow> nat option" where
  "index_of c [] = None"
| "index_of c (d # ds) = (if c = d then Some 0 else map_option Suc (index_of c ds))"

definition dec6 :: "char \<Rightarrow> nat option" where
  "dec6 c = index_of c b64_alphabet"

definition ord :: "char \<Rightarrow> nat" where
  "ord c = of_char c"

definition chr :: "nat \<Rightarrow> char" where
  "chr n = char_of n"

fun EncodeToString :: "string \<Rightarrow> string" where
  "EncodeToString [] = []"
| "EncodeToString [a] = [enc6 (ord a div 4), enc6 (ord a mod 4 * 16), CHR ''='', CHR ''='']"
| "EncodeToString [a, b] =
     [enc6 (ord a div 4), enc6 (ord a mod 4 * 16 + ord b div 16), enc6 (ord b mod 16 * 4), CHR ''='']"
| "EncodeToString (a # b # c # s) =
     enc6 (ord a div 4) # enc6 (ord a mod 4 * 16 + ord b div 16) #
     enc6 (ord b mod 16 * 4 + ord c div 64) # enc6 (ord c mod 64) # EncodeToString s"

fun decode_quanta :: "string \<Rightarrow> string option" where
  "decode_quanta [] = Some []"
| "decode_quanta (a # b # c # d # s) =
     (case (dec6 a, dec6 b) of
        (Some w, Some x) \<Rightarrow>
          (case (dec6 c, dec6 d) of
             (Some y, Some z) \<Rightarrow>
               map_option (\<lambda>t. chr (w * 4 + x div 16) # chr (x mod 16 * 16 + y div 4) # chr (y mod 4 * 64 + z) # t)
                 (decode_quanta s)
           | (Some y, None) \<Rightarrow>
               if d = CHR ''='' \<and> s = [] then Some [chr (w * 4 + x div 16), chr (x mod 16 * 16 + y div 4)] else None
           | (None, _) \<Rightarrow>
               if c = CHR ''='' \<and> d = CHR ''='' \<and> s = [] then Some [chr (w * 4 + x div 16)] else None)
      | _ \<Rightarrow> None)"
| "decode_quanta _ = None"

text \<open>Line breaks are skipped wherever they are.\<close>

definition DecodeString :: "string \<Rightarrow> string option" where
  "DecodeString s = decode_quanta (filter (\<lambda>c. ord c \<noteq> 10 \<and> ord c \<noteq> 13) s)"

lemma index_of_nth: "distinct s \<Longrightarrow> n < length s \<Longrightarrow> index_of (s ! n) s = Some n"
proof (induction s arbitrary: n)
  case (Cons c s)
  then show ?case by (cases n) (auto simp: nth_mem)
qed simp

lemma b64_alphabet_ok:
  "distinct b64_alphabet" "length b64_alphabet = 64" "list_all (\<lambda>c. ord c \<noteq> 10 \<and> ord c \<noteq> 13 \<and> c \<noteq> CHR ''='') b64_alphabet"
  by code_simp+

lemma dec6_enc6 [simp]: "n < 64 \<Longrightarrow> dec6 (enc6 n) = Some n"
  by (simp add: dec6_def enc6_def index_of_nth b64_alphabet_ok)

lemma dec6_pad [simp]: "dec6 (CHR ''='') = None"
  by code_simp

lemma enc6_plain: "n < 64 \<Longrightarrow> ord (enc6 n) \<noteq> 10 \<and> ord (enc6 n) \<noteq> 13"
  using b64_alphabet_ok by (auto simp: enc6_def list_all_length)

lemma ord_less: "ord c < 256"
  by (simp add: ord_def)

lemma chr_ord [simp]: "chr (ord c) = c"
  by (simp add: chr_def ord_def)

lemma sextets [simp]:
  "a div 4 * 4 + (a mod 4 * 16 + x) div 16 = a" if "x < 16" for a x :: nat
  using that by simp

lemma sextets_low:
  fixes a x y :: nat
  assumes "a < 256"
  shows "a div 4 < 64" "a div 16 < 16" "a div 64 < 4" "a mod 4 * 16 < 64" "a mod 16 * 4 < 64" "a mod 64 < 64"
    and "x < 16 \<Longrightarrow> a mod 4 * 16 + x < 64" "y < 4 \<Longrightarrow> a mod 16 * 4 + y < 64"
proof -
  have m: "a mod 4 < 4" "a mod 16 < 16" by simp_all
  show "a div 4 < 64" "a div 16 < 16" "a div 64 < 4" "a mod 64 < 64"
    using assms by (simp_all add: less_mult_imp_div_less)
  show "a mod 4 * 16 < 64" "a mod 16 * 4 < 64" using m by linarith+
  show "x < 16 \<Longrightarrow> a mod 4 * 16 + x < 64" "y < 4 \<Longrightarrow> a mod 16 * 4 + y < 64" using m by linarith+
qed

lemma encode_plain: "filter (\<lambda>c. ord c \<noteq> 10 \<and> ord c \<noteq> 13) (EncodeToString s) = EncodeToString s"
proof -
  have pad: "ord CHR ''='' \<noteq> 10 \<and> ord CHR ''='' \<noteq> 13" by code_simp
  note low = sextets_low [OF ord_less]
  show ?thesis
    by (induction s rule: EncodeToString.induct) (simp_all add: enc6_plain pad low)
qed

lemma decode_encode: "decode_quanta (EncodeToString s) = Some s"
proof (induction s rule: EncodeToString.induct)
  case (4 a b c s)
  note low = sextets_low [OF ord_less]
  show ?case using "4.IH" by (simp add: low)
qed (simp_all add: sextets_low [OF ord_less])

lemma base64_round_trip: "DecodeString (EncodeToString s) = Some s"
  by (simp add: DecodeString_def encode_plain decode_encode)

section \<open>Environments\<close>

text \<open>\<open>strings.SplitN(s, sep, 2)\<close> where it has two parts.\<close>

definition cut :: "char \<Rightarrow> string \<Rightarrow> (string \<times> string) option" where
  "cut sep s =
     (if sep \<in> set s then Some (takeWhile (\<lambda>c. c \<noteq> sep) s, tl (dropWhile (\<lambda>c. c \<noteq> sep) s)) else None)"

fun lookupEnv :: "string list \<Rightarrow> string \<Rightarrow> string option" where
  "lookupEnv [] key = None"
| "lookupEnv (env # envs) key =
     (case cut CHR ''='' env of
        None \<Rightarrow> lookupEnv envs key
      | Some (k, v) \<Rightarrow> if k = key then Some v else lookupEnv envs key)"

text \<open>
  Starting a process, Go removes duplicate variables: a later value replaces the earlier one in
  its place.
\<close>

fun putEnv :: "string \<Rightarrow> string \<Rightarrow> string list \<Rightarrow> string list" where
  "putEnv k kv [] = [kv]"
| "putEnv k kv (e # es) =
     (if map_option fst (cut CHR ''='' e) = Some k then kv # es else e # putEnv k kv es)"

fun dedup_into :: "string list \<Rightarrow> string list \<Rightarrow> string list" where
  "dedup_into out [] = out"
| "dedup_into out (kv # kvs) =
     (case cut CHR ''='' kv of
        None \<Rightarrow> dedup_into (out @ [kv]) kvs
      | Some (k, _) \<Rightarrow> dedup_into (putEnv k kv out) kvs)"

definition dedupEnv :: "string list \<Rightarrow> string list" where
  "dedupEnv env = dedup_into [] env"

lemma cut_pair: "sep \<notin> set k \<Longrightarrow> cut sep (k @ sep # v) = Some (k, v)"
  by (simp add: cut_def takeWhile_append2 dropWhile_append2) (metis (mono_tags, lifting) append.right_neutral takeWhile_append2 dropWhile_append2 dropWhile.simps(2) list.sel(3) takeWhile.simps(2))

lemma lookupEnv_append:
  "lookupEnv (es @ fs) k = (case lookupEnv es k of None \<Rightarrow> lookupEnv fs k | Some v \<Rightarrow> Some v)"
  by (induction es) (auto split: option.split)

lemma lookupEnv_putEnv:
  assumes "cut CHR ''='' kv = Some (k, v)"
  shows "lookupEnv (putEnv k kv out) key = (if key = k then Some v else lookupEnv out key)"
  using assms by (induction out) (auto split: option.splits)

lemma lookupEnv_dedup_into:
  "lookupEnv (dedup_into out env) key =
     (case lookupEnv (rev env) key of None \<Rightarrow> lookupEnv out key | Some v \<Rightarrow> Some v)"
proof (induction env arbitrary: out)
  case (Cons kv env)
  show ?case
  proof (cases "cut CHR ''='' kv")
    case None
    with Cons show ?thesis by (auto simp: lookupEnv_append split: option.splits)
  next
    case (Some p)
    then obtain k v where "cut CHR ''='' kv = Some (k, v)" by (cases p) simp
    with Cons lookupEnv_putEnv [OF this] show ?thesis by (auto simp: lookupEnv_append split: option.splits)
  qed
qed simp

text \<open>The process sees the last value of a variable.\<close>

lemma lookupEnv_dedupEnv: "lookupEnv (dedupEnv env) key = lookupEnv (rev env) key"
  by (simp add: dedupEnv_def lookupEnv_dedup_into split: option.split)

section \<open>Transactions in the metadata of a call\<close>

record TxInfo =
  BackchannelID :: uint
  tx_ID :: uint
  tx_Node :: string
  tx_Primary :: bool

text \<open>What the context of a call holds: the incoming metadata and the identity of the peer.\<close>

datatype peer_error = ErrNonMultiplexedConnection | PeerFailed

record call_ctx =
  incoming :: "(string, string list) gomap option"
  peer_id :: "peer_error + uint"

datatype tx_err = ErrTransactionNotFound | FromSerialized | GetPeerIDFailed

definition TransactionMetadataKey :: string where
  "TransactionMetadataKey = ''gitaly-reference-transaction''"

definition serialize :: "(TxInfo \<Rightarrow> string option) \<Rightarrow> TxInfo \<Rightarrow> string option" where
  "serialize Marshal t = map_option EncodeToString (Marshal t)"

definition transactionFromSerialized :: "(string \<Rightarrow> TxInfo option) \<Rightarrow> string \<Rightarrow> TxInfo option" where
  "transactionFromSerialized Unmarshal serialized =
     (case DecodeString serialized of None \<Rightarrow> None | Some decoded \<Rightarrow> Unmarshal decoded)"

definition InjectTransaction ::
  "(TxInfo \<Rightarrow> string option) \<Rightarrow> call_ctx \<Rightarrow> uint \<Rightarrow> string \<Rightarrow> bool \<Rightarrow> call_ctx option" where
  "InjectTransaction Marshal ctx transactionID node primary =
     (let t = \<lparr> BackchannelID = 0, tx_ID = transactionID, tx_Node = node, tx_Primary = primary \<rparr>;
          md = (case incoming ctx of None \<Rightarrow> [] | Some md \<Rightarrow> md)
      in map_option
           (\<lambda>serialized. ctx\<lparr>incoming := Some (AList.update TransactionMetadataKey [serialized] md)\<rparr>)
           (serialize Marshal t))"

definition TransactionFromContext :: "(string \<Rightarrow> TxInfo option) \<Rightarrow> call_ctx \<Rightarrow> tx_err + TxInfo" where
  "TransactionFromContext Unmarshal ctx =
     (case incoming ctx of
        None \<Rightarrow> Inl ErrTransactionNotFound
      | Some md \<Rightarrow>
          (case map_of md TransactionMetadataKey of
             None \<Rightarrow> Inl ErrTransactionNotFound
           | Some [] \<Rightarrow> Inl ErrTransactionNotFound
           | Some (serialized # _) \<Rightarrow>
               (case transactionFromSerialized Unmarshal serialized of
                  None \<Rightarrow> Inl FromSerialized
                | Some t \<Rightarrow>
                    (case peer_id ctx of
                       Inr i \<Rightarrow> Inr (t\<lparr>BackchannelID := i\<rparr>)
                     | Inl ErrNonMultiplexedConnection \<Rightarrow> Inr (t\<lparr>BackchannelID := 0\<rparr>)
                     | Inl PeerFailed \<Rightarrow> Inl GetPeerIDFailed))))"

lemma injected_transaction:
  assumes "InjectTransaction Marshal ctx i node primary = Some ctx'"
    and json: "\<And>s. Marshal \<lparr> BackchannelID = 0, tx_ID = i, tx_Node = node, tx_Primary = primary \<rparr> = Some s \<Longrightarrow>
                   Unmarshal s = Some \<lparr> BackchannelID = 0, tx_ID = i, tx_Node = node, tx_Primary = primary \<rparr>"
    and "peer_id ctx = Inr peer"
  shows "TransactionFromContext Unmarshal ctx' =
           Inr \<lparr> BackchannelID = peer, tx_ID = i, tx_Node = node, tx_Primary = primary \<rparr>"
proof -
  let ?t = "\<lparr> BackchannelID = 0, tx_ID = i, tx_Node = node, tx_Primary = primary \<rparr>"
  from assms(1) obtain js where "Marshal ?t = Some js"
    and "ctx' = ctx\<lparr>incoming := Some (AList.update TransactionMetadataKey [EncodeToString js]
                 (case incoming ctx of None \<Rightarrow> [] | Some md \<Rightarrow> md))\<rparr>"
    by (auto simp: InjectTransaction_def serialize_def Let_def)
  with json assms(3) show ?thesis
    by (simp add: TransactionFromContext_def transactionFromSerialized_def base64_round_trip update_conv')
qed

section \<open>The payload\<close>

type_synonym Hook = uint

definition ReferenceTransactionHook :: Hook where "ReferenceTransactionHook = 1"
definition UpdateHook :: Hook where "UpdateHook = 2"
definition PreReceiveHook :: Hook where "PreReceiveHook = 4"
definition PostReceiveHook :: Hook where "PostReceiveHook = 8"
definition PackObjectsHook :: Hook where "PackObjectsHook = 16"

unbundle bit_operations_syntax

definition AllHooks :: Hook where
  "AllHooks = ReferenceTransactionHook OR UpdateHook OR PreReceiveHook OR PostReceiveHook OR PackObjectsHook"

definition ReceivePackHooks :: Hook where
  "ReceivePackHooks = ReferenceTransactionHook OR UpdateHook OR PreReceiveHook OR PostReceiveHook"

record PbRepository = GitRepo +
  GlRepository :: string
  GlProjectPath :: string

record ReceiveHooksPayload =
  rh_Username :: string
  rh_UserID :: string
  rh_Protocol :: string

record HooksPayload =
  RequestedHooks :: Hook
  FeatureFlags :: "string \<rightharpoonup> string"
  hp_Repo :: "PbRepository option"
  hp_BinDir :: string
  hp_GitPath :: string
  InternalSocket :: string
  InternalSocketToken :: string
  hp_Transaction :: "TxInfo option"
  hp_ReceiveHooks :: "ReceiveHooksPayload option"

record codec =
  tx_Marshal :: "TxInfo \<Rightarrow> string option"
  tx_Unmarshal :: "string \<Rightarrow> TxInfo option"
  hp_Marshal :: "HooksPayload \<Rightarrow> string option"
  hp_Unmarshal :: "string \<Rightarrow> HooksPayload option"

definition NewHooksPayload ::
  "os \<Rightarrow> Cfg \<Rightarrow> PbRepository option \<Rightarrow> TxInfo option \<Rightarrow> ReceiveHooksPayload option \<Rightarrow> Hook \<Rightarrow> (string \<rightharpoonup> string) \<Rightarrow> HooksPayload" where
  "NewHooksPayload os cfg repo tx receiveHooksPayload requestedHooks featureFlags =
     \<lparr> RequestedHooks = requestedHooks, FeatureFlags = featureFlags, hp_Repo = repo, hp_BinDir = cfg_BinDir cfg,
       hp_GitPath = BinPath (cfg_Git cfg), InternalSocket = GitalyInternalSocketPath os cfg,
       InternalSocketToken = Token (cfg_Auth cfg), hp_Transaction = tx, hp_ReceiveHooks = receiveHooksPayload \<rparr>"

definition EnvHooksPayload :: string where
  "EnvHooksPayload = ''GITALY_HOOKS_PAYLOAD''"

definition payload_Env :: "codec \<Rightarrow> HooksPayload \<Rightarrow> string option" where
  "payload_Env codec p = map_option (\<lambda>m. EnvHooksPayload @ ''='' @ EncodeToString m) (hp_Marshal codec p)"

datatype payload_error = ErrPayloadNotFound | InvalidBase64 | InvalidJSON

definition HooksPayloadFromEnv :: "codec \<Rightarrow> string list \<Rightarrow> payload_error + HooksPayload" where
  "HooksPayloadFromEnv codec envs =
     (case lookupEnv envs EnvHooksPayload of
        None \<Rightarrow> Inl ErrPayloadNotFound
      | Some encoded \<Rightarrow>
          (case DecodeString encoded of
             None \<Rightarrow> Inl InvalidBase64
           | Some decoded \<Rightarrow>
               (case hp_Unmarshal codec decoded of
                  None \<Rightarrow> Inl InvalidJSON
                | Some p0 \<Rightarrow>
                    (let p1 = (if hp_GitPath p0 = []
                               then p0\<lparr>hp_GitPath := (case lookupEnv envs ''GITALY_GIT_BIN_PATH'' of None \<Rightarrow> [] | Some v \<Rightarrow> v)\<rparr>
                               else p0)
                     in Inr (if RequestedHooks p1 = 0 then p1\<lparr>RequestedHooks := AllHooks\<rparr> else p1)))))"

definition IsHookRequested :: "HooksPayload \<Rightarrow> Hook \<Rightarrow> bool" where
  "IsHookRequested p hook \<longleftrightarrow> RequestedHooks p AND hook \<noteq> 0"

lemma EnvHooksPayload_key: "CHR ''='' \<notin> set EnvHooksPayload"
  by (simp add: EnvHooksPayload_def)

lemma cut_payload: "payload_Env codec p = Some e \<Longrightarrow>
    \<exists>js. hp_Marshal codec p = Some js \<and> cut CHR ''='' e = Some (EnvHooksPayload, EncodeToString js)"
  using cut_pair [OF EnvHooksPayload_key] by (auto simp: payload_Env_def)

text \<open>
  The payload that was put into an environment is read back by the process that is started with it,
  if no later variable has the name, whatever the earlier ones are.
\<close>

lemma payload_round_trip:
  assumes "payload_Env codec p = Some e" "lookupEnv post EnvHooksPayload = None"
    and json: "\<And>js. hp_Marshal codec p = Some js \<Longrightarrow> hp_Unmarshal codec js = Some p"
    and "hp_GitPath p \<noteq> []" "RequestedHooks p \<noteq> 0"
  shows "HooksPayloadFromEnv codec (dedupEnv (pre @ e # post)) = Inr p"
proof -
  obtain js where js: "hp_Marshal codec p = Some js" "cut CHR ''='' e = Some (EnvHooksPayload, EncodeToString js)"
    using cut_payload [OF assms(1)] by blast
  have "lookupEnv (rev post) k = None" if "lookupEnv post k = None" for k
    using that by (induction post) (auto simp: lookupEnv_append split: option.splits if_splits)
  then have "lookupEnv (rev post) EnvHooksPayload = None" using assms(2) by blast
  then have "lookupEnv (dedupEnv (pre @ e # post)) EnvHooksPayload = Some (EncodeToString js)"
    using js(2) by (simp add: lookupEnv_dedupEnv lookupEnv_append)
  then show ?thesis
    using json [OF js(1)] assms(4,5) by (simp add: HooksPayloadFromEnv_def base64_round_trip Let_def)
qed

end
