(* ===== verification/Git_Command.thy ===== *)
theory Git_Command
  imports Hooks_Payload
begin

text \<open>
  How Gitaly builds the command line and the environment of every git process (\<open>internal/git\<close>:
  \<open>command.go\<close>, \<open>command_options.go\<close>, \<open>staticargs.go\<close>, \<open>command_description.go\<close>,
  \<open>hooks_options.go\<close>, \<open>command_factory.go\<close>, with \<open>alternates/alternates.go\<close>,
  \<open>hooks/hooks.go\<close> and the environment part of \<open>internal/command/command.go\<close>). The regular
  expressions are boolean functions. A stream handed to a command is a number that identifies it.
\<close>

section \<open>Options\<close>

definition alnum :: "char \<Rightarrow> bool" where
  "alnum c \<longleftrightarrow> (let n = ord c in 48 \<le> n \<and> n \<le> 57 \<or> 65 \<le> n \<and> n \<le> 90 \<or> 97 \<le> n \<and> n \<le> 122)"

definition alnum_dash :: "string \<Rightarrow> bool" where
  "alnum_dash s \<longleftrightarrow> s \<noteq> [] \<and> alnum (hd s) \<and> list_all (\<lambda>c. alnum c \<or> c = CHR ''-'') s"

definition actionRegex :: "string \<Rightarrow> bool" where
  "actionRegex s = alnum_dash s"

definition configKeyOptionRegex :: "string \<Rightarrow> bool" where
  "configKeyOptionRegex s \<longleftrightarrow>
     (let ws = split_on CHR ''.'' s; middle = butlast (tl ws)
      in length ws \<ge> 2 \<and> alnum_dash (hd ws) \<and> alnum_dash (last ws) \<and>
         (middle = [] \<or> join_with ''.'' middle \<noteq> [] \<and> list_all (\<lambda>c. ord c \<noteq> 10) (join_with ''.'' middle)))"

definition configKeyGlobalRegex :: "string \<Rightarrow> bool" where
  "configKeyGlobalRegex s \<longleftrightarrow>
     (let ws = split_on CHR ''.'' s
      in length ws \<ge> 2 \<and> hd ws \<noteq> [] \<and> list_all alnum (hd ws) \<and>
         list_all (\<lambda>w. w \<noteq> [] \<and> list_all (\<lambda>c. alnum c \<or> c \<in> {CHR ''-'', slash, CHR ''_''}) w) (tl ws))"

fun flagRegex :: "string \<Rightarrow> bool" where
  "flagRegex (a # b # c # s) \<longleftrightarrow> a = CHR ''-'' \<and> (alnum b \<or> b = CHR ''-'' \<and> alnum c)"
| "flagRegex [a, b] \<longleftrightarrow> a = CHR ''-'' \<and> alnum b"
| "flagRegex _ \<longleftrightarrow> False"

record ConfigPair =
  cp_Key :: string
  cp_Value :: string
  cp_Origin :: string
  cp_Scope :: string

datatype Option = OptConfig ConfigPair | OptFlag string | OptValueFlag string string | OptStatic string

datatype GlobalOption = GlobalConfig ConfigPair | GlobalFlag string | GlobalValueFlag string string

definition config_pair :: "string \<Rightarrow> string \<Rightarrow> ConfigPair" where
  "config_pair key value = \<lparr> cp_Key = key, cp_Value = value, cp_Origin = [], cp_Scope = [] \<rparr>"

datatype git_error =
    InvalidSubCommand string
  | InvalidAction string
  | InvalidConfigKey string
  | InvalidFlag string
  | InvalidValueFlag string
  | DashArg string
  | RevListArg git_error
  | ErrHookPayloadRequired string
  | MissingRepo
  | HooksAlreadyConfigured
  | TransactionInfo tx_err
  | PayloadEnv
  | OptWrap string git_error
  | CannotConvert string
  | NoDir
  | RepoPath locator_error
  | NullByte string
  | SpawnTimeout
  | StartFailed
  | CgroupFailed

text \<open>The errors that wrap \<open>ErrInvalidArg\<close>.\<close>

fun IsInvalidArgErr :: "git_error \<Rightarrow> bool" where
  "IsInvalidArgErr (InvalidSubCommand _) = True"
| "IsInvalidArgErr (InvalidAction _) = True"
| "IsInvalidArgErr (InvalidConfigKey _) = True"
| "IsInvalidArgErr (InvalidFlag _) = True"
| "IsInvalidArgErr (InvalidValueFlag _) = True"
| "IsInvalidArgErr (DashArg _) = True"
| "IsInvalidArgErr (RevListArg e) = IsInvalidArgErr e"
| "IsInvalidArgErr MissingRepo = True"
| "IsInvalidArgErr (OptWrap _ e) = IsInvalidArgErr e"
| "IsInvalidArgErr _ = False"

definition ConfigPair_OptionArgs :: "ConfigPair \<Rightarrow> git_error + string list" where
  "ConfigPair_OptionArgs cp =
     (if \<not> configKeyOptionRegex (cp_Key cp) then Inl (InvalidConfigKey (cp_Key cp))
      else Inr [cp_Key cp, cp_Value cp])"

definition ConfigPair_GlobalArgs :: "ConfigPair \<Rightarrow> git_error + string list" where
  "ConfigPair_GlobalArgs cp =
     (if \<not> configKeyGlobalRegex (cp_Key cp) then Inl (InvalidConfigKey (cp_Key cp))
      else Inr [''-c'', cp_Key cp @ ''='' @ cp_Value cp])"

definition Flag_OptionArgs :: "string \<Rightarrow> git_error + string list" where
  "Flag_OptionArgs name = (if \<not> flagRegex name then Inl (InvalidFlag name) else Inr [name])"

definition ValueFlag_OptionArgs :: "string \<Rightarrow> string \<Rightarrow> git_error + string list" where
  "ValueFlag_OptionArgs name val = (if \<not> flagRegex name then Inl (InvalidValueFlag name) else Inr [name, val])"

fun OptionArgs :: "Option \<Rightarrow> git_error + string list" where
  "OptionArgs (OptConfig cp) = ConfigPair_OptionArgs cp"
| "OptionArgs (OptFlag name) = Flag_OptionArgs name"
| "OptionArgs (OptValueFlag name val) = ValueFlag_OptionArgs name val"
| "OptionArgs (OptStatic val) = Inr [val]"

fun GlobalArgs :: "GlobalOption \<Rightarrow> git_error + string list" where
  "GlobalArgs (GlobalConfig cp) = ConfigPair_GlobalArgs cp"
| "GlobalArgs (GlobalFlag name) = Flag_OptionArgs name"
| "GlobalArgs (GlobalValueFlag name val) = ValueFlag_OptionArgs name val"

fun collect_args :: "('a \<Rightarrow> git_error + string list) \<Rightarrow> 'a list \<Rightarrow> git_error + string list" where
  "collect_args f [] = Inr []"
| "collect_args f (o1 # os) =
     (case f o1 of
        Inl err \<Rightarrow> Inl err
      | Inr args \<Rightarrow> (case collect_args f os of Inl err \<Rightarrow> Inl err | Inr rest \<Rightarrow> Inr (args @ rest)))"

fun ConvertConfigOptions :: "string list \<Rightarrow> git_error + ConfigPair list" where
  "ConvertConfigOptions [] = Inr []"
| "ConvertConfigOptions (opt # opts) =
     (case cut CHR ''='' opt of
        None \<Rightarrow> Inl (CannotConvert opt)
      | Some (k, v) \<Rightarrow>
          (case ConvertConfigOptions opts of
             Inl err \<Rightarrow> Inl err
           | Inr cps \<Rightarrow> Inr (config_pair k v # cps)))"

section \<open>Descriptions of commands\<close>

definition scNoRefUpdates :: uint where "scNoRefUpdates = 1"
definition scNoEndOfOptions :: uint where "scNoEndOfOptions = 2"
definition scGeneratesPackfiles :: uint where "scGeneratesPackfiles = 4"

record commandDescription =
  cd_flags :: uint
  cd_opts :: "GlobalOption list"
  validatePositionalArgs :: "(string list \<Rightarrow> git_error option) option"

definition InternalRefPrefixes :: "string list" where
  "InternalRefPrefixes = [''refs/environments/'', ''refs/keep-around/'', ''refs/merge-requests/'', ''refs/pipelines/'']"

definition hiddenReceivePackRefPrefixes :: "GlobalOption list" where
  "hiddenReceivePackRefPrefixes = map (\<lambda>ns. GlobalConfig (config_pair ''receive.hideRefs'' ns)) InternalRefPrefixes"

definition DefaultBranch :: string where
  "DefaultBranch = ''main''"

definition validatePositionalArg :: "string \<Rightarrow> git_error option" where
  "validatePositionalArg arg = (if prefix ''-'' arg then Some (DashArg arg) else None)"

fun first_error :: "('a \<Rightarrow> git_error option) \<Rightarrow> 'a list \<Rightarrow> git_error option" where
  "first_error f [] = None"
| "first_error f (a # as) = (case f a of Some err \<Rightarrow> Some err | None \<Rightarrow> first_error f as)"

definition validateRevListArgs :: "string list \<Rightarrow> git_error option" where
  "validateRevListArgs args =
     first_error (\<lambda>arg. if arg = ''--all'' \<or> arg = ''--not'' then None
                        else map_option RevListArg (validatePositionalArg arg)) args"

definition config_opts :: "(string \<times> string) list \<Rightarrow> GlobalOption list" where
  "config_opts opts = map (\<lambda>(k, v). GlobalConfig (config_pair k v)) opts"

definition command :: "uint \<Rightarrow> (string \<times> string) list \<Rightarrow> commandDescription" where
  "command flags opts =
     \<lparr> cd_flags = flags, cd_opts = config_opts opts, validatePositionalArgs = None \<rparr>"

definition commandDescriptions :: "(string, commandDescription) gomap" where
  "commandDescriptions =
     (let noRefs = scNoRefUpdates; noEnd = scNoEndOfOptions; packs = scGeneratesPackfiles
      in [(''am'', command 0 []),
          (''apply'', command noRefs []),
          (''archive'', command (noRefs OR noEnd) []),
          (''blame'', command (noRefs OR noEnd) []),
          (''bundle'', command (noRefs OR packs) []),
          (''cat-file'', command noRefs []),
          (''check-ref-format'', command (noRefs OR noEnd) []),
          (''checkout'', command noEnd []),
          (''clone'', command packs []),
          (''commit'', command 0 []),
          (''commit-graph'', command noRefs []),
          (''commit-tree'', command noRefs []),
          (''config'', command noRefs []),
          (''count-objects'', command noRefs []),
          (''diff'', command noRefs []),
          (''diff-tree'', command noRefs []),
          (''fetch'', command 0
             [(''fetch.fsckObjects'', ''true''), (''fetch.fsck.badTimezone'', ''ignore''),
              (''fetch.fsck.missingSpaceBeforeDate'', ''ignore''), (''fetch.writeCommitGraph'', ''false'')]),
          (''for-each-ref'', command noRefs []),
          (''format-patch'', command noRefs []),
          (''fsck'', command noRefs []),
          (''gc'', command (noRefs OR packs) []),
          (''grep'', command (noRefs OR noEnd) []),
          (''hash-object'', command noRefs []),
          (''init'', command noRefs [(''init.defaultBranch'', DefaultBranch)]),
          (''linguist'', command noEnd []),
          (''log'', command noRefs []),
          (''ls-remote'', command noRefs []),
          (''ls-tree'', command noRefs []),
          (''merge-base'', command noRefs []),
          (''merge-file'', command noRefs []),
          (''mktag'', command noRefs []),
          (''multi-pack-index'', command noRefs []),
          (''pack-refs'', command noRefs []),
          (''pack-objects'', command (noRefs OR packs) []),
          (''push'', command noRefs []),
          (''receive-pack'',
             \<lparr> cd_flags = 0,
               cd_opts = config_opts
                 [(''core.alternateRefsCommand'', ''exit 0 #''), (''receive.fsckObjects'', ''true''),
                  (''receive.fsck.badTimezone'', ''ignore''), (''receive.fsck.missingSpaceBeforeDate'', ''ignore''),
                  (''receive.advertisePushOptions'', ''true'')] @ hiddenReceivePackRefPrefixes,
               validatePositionalArgs = None \<rparr>),
          (''remote'', command noEnd []),
          (''repack'', command (noRefs OR packs) [(''repack.writeBitmaps'', ''true'')]),
          (''rev-list'', (command (noRefs OR noEnd) [])\<lparr>validatePositionalArgs := Some validateRevListArgs\<rparr>),
          (''rev-parse'', command (noRefs OR noEnd) []),
          (''show'', command noRefs []),
          (''show-ref'', command noRefs []),
          (''symbolic-ref'', command 0 []),
          (''tag'', command 0 []),
          (''update-ref'', command 0 []),
          (''upload-archive'', command (noRefs OR noEnd) []),
          (''upload-pack'', command (noRefs OR packs)
             [(''uploadpack.allowFilter'', ''true''), (''uploadpack.allowAnySHA1InWant'', ''true'')]),
          (''version'', command noRefs []),
          (''worktree'', command 0 [])])"

definition mayUpdateRef :: "commandDescription \<Rightarrow> bool" where
  "mayUpdateRef c \<longleftrightarrow> cd_flags c AND scNoRefUpdates = 0"

definition mayGeneratePackfiles :: "commandDescription \<Rightarrow> bool" where
  "mayGeneratePackfiles c \<longleftrightarrow> cd_flags c AND scGeneratesPackfiles \<noteq> 0"

definition supportsEndOfOptions :: "commandDescription \<Rightarrow> bool" where
  "supportsEndOfOptions c \<longleftrightarrow> cd_flags c AND scNoEndOfOptions = 0"

definition description_args ::
  "commandDescription \<Rightarrow> Option list \<Rightarrow> string list \<Rightarrow> string list \<Rightarrow> git_error + string list" where
  "description_args c flags args postSepArgs =
     (case collect_args OptionArgs flags of
        Inl err \<Rightarrow> Inl err
      | Inr flagArgs \<Rightarrow>
          (case (case validatePositionalArgs c of
                   Some validate \<Rightarrow> validate args
                 | None \<Rightarrow> first_error validatePositionalArg args) of
             Some err \<Rightarrow> Inl err
           | None \<Rightarrow>
               Inr (flagArgs @ (if supportsEndOfOptions c then [''--end-of-options''] else []) @ args @
                    (if postSepArgs \<noteq> [] then [''--''] else []) @ postSepArgs)))"

text \<open>The check at program start that no internal prefix is forgotten: \<open>None\<close> if it passes.\<close>

definition description_init :: "(string, commandDescription) gomap \<Rightarrow> string option" where
  "description_init descs =
     (case map_of descs ''receive-pack'' of
        None \<Rightarrow> Some ''receive-pack''
      | Some desc \<Rightarrow>
          (let hidden = List.map_filter
                 (\<lambda>opt. case opt of
                          GlobalConfig cp \<Rightarrow> if cp_Key cp = ''receive.hideRefs'' then Some (cp_Value cp) else None
                        | _ \<Rightarrow> None) (cd_opts desc)
           in List.find (\<lambda>internalRef. internalRef \<notin> set hidden) InternalRefPrefixes))"

section \<open>Commands\<close>

text \<open>A \<open>SubCmd\<close> has no action; a \<open>SubSubCmd\<close> has one.\<close>

record Cmd =
  Name :: string
  Action :: "string option"
  Flags :: "Option list"
  Args :: "string list"
  PostSepArgs :: "string list"

definition CommandArgs :: "Cmd \<Rightarrow> git_error + string list" where
  "CommandArgs sc =
     (case map_of commandDescriptions (Name sc) of
        None \<Rightarrow> Inl (InvalidSubCommand (Name sc))
      | Some desc \<Rightarrow>
          (case Action sc of
             Some action \<Rightarrow>
               if \<not> actionRegex action then Inl (InvalidAction action)
               else map_sum id (\<lambda>as. Name sc # action # as) (description_args desc (Flags sc) (Args sc) (PostSepArgs sc))
           | None \<Rightarrow> map_sum id (\<lambda>as. Name sc # as) (description_args desc (Flags sc) (Args sc) (PostSepArgs sc))))"

section \<open>Options of a command\<close>

record cmdCfg =
  cc_env :: "string list"
  cc_globals :: "GlobalOption list"
  cc_stdin :: "nat option"
  cc_stdout :: "nat option"
  cc_stderr :: "nat option"
  hooksConfigured :: bool

type_synonym CmdOpt = "cmdCfg \<Rightarrow> git_error + cmdCfg"

definition zero_cmdCfg :: cmdCfg where
  "zero_cmdCfg = \<lparr> cc_env = [], cc_globals = [], cc_stdin = None, cc_stdout = None, cc_stderr = None, hooksConfigured = False \<rparr>"

definition WithStdin :: "nat \<Rightarrow> CmdOpt" where
  "WithStdin r c = Inr (c\<lparr>cc_stdin := Some r\<rparr>)"

definition WithStdout :: "nat \<Rightarrow> CmdOpt" where
  "WithStdout w c = Inr (c\<lparr>cc_stdout := Some w\<rparr>)"

definition WithStderr :: "nat \<Rightarrow> CmdOpt" where
  "WithStderr w c = Inr (c\<lparr>cc_stderr := Some w\<rparr>)"

definition WithEnv :: "string list \<Rightarrow> CmdOpt" where
  "WithEnv envs c = Inr (c\<lparr>cc_env := cc_env c @ envs\<rparr>)"

definition WithConfig :: "ConfigPair list \<Rightarrow> CmdOpt" where
  "WithConfig configPairs c = Inr (c\<lparr>cc_globals := cc_globals c @ map GlobalConfig configPairs\<rparr>)"

function Itoa :: "nat \<Rightarrow> string" where
  "Itoa n = (if n < 10 then [''0123456789'' ! n] else Itoa (n div 10) @ [''0123456789'' ! (n mod 10)])"
  by auto
termination
  by (relation "measure id") auto

declare Itoa.simps [simp del]

definition WithConfigEnv :: "ConfigPair list \<Rightarrow> CmdOpt" where
  "WithConfigEnv configPairs c =
     (let env = concat (map (\<lambda>(i, cp). [''GIT_CONFIG_KEY_'' @ Itoa i @ ''='' @ cp_Key cp,
                                        ''GIT_CONFIG_VALUE_'' @ Itoa i @ ''='' @ cp_Value cp])
                          (enumerate 0 configPairs))
                @ [''GIT_CONFIG_COUNT='' @ Itoa (length configPairs)]
      in Inr (c\<lparr>cc_env := cc_env c @ env\<rparr>))"

definition WithGlobalOption :: "GlobalOption list \<Rightarrow> CmdOpt" where
  "WithGlobalOption opts c = Inr (c\<lparr>cc_globals := cc_globals c @ opts\<rparr>)"

definition ConvertGlobalOptions :: "bool option \<Rightarrow> CmdOpt list" where
  "ConvertGlobalOptions literalPathspecs =
     (if literalPathspecs = Some True then [WithEnv [''GIT_LITERAL_PATHSPECS=1'']] else [])"

definition WithDisabledHooks :: CmdOpt where
  "WithDisabledHooks cc = Inr (cc\<lparr>hooksConfigured := True\<rparr>)"

text \<open>The variable \<open>Override\<close> of the package, for tests, is an argument.\<close>

definition hooks_Path :: "string \<Rightarrow> os \<Rightarrow> Cfg \<Rightarrow> string" where
  "hooks_Path Override os cfg =
     (if Override \<noteq> [] then Override
      else if SkipHooks os then ''/var/empty''
      else path_Join [ruby_Dir (cfg_Ruby cfg), ''git-hooks''])"

definition ffPrefix :: string where
  "ffPrefix = ''gitaly-feature-''"

definition RawFromContext :: "call_ctx \<Rightarrow> string \<rightharpoonup> string" where
  "RawFromContext ctx =
     (case incoming ctx of
        None \<Rightarrow> (\<lambda>_. None)
      | Some md \<Rightarrow>
          (\<lambda>key. if \<not> prefix ffPrefix key then None
                 else case map_of md key of Some (value # _) \<Rightarrow> Some value | _ \<Rightarrow> None))"

text \<open>What the options for hooks take from the program: the encoders and the host.\<close>

record hook_setup =
  hs_codec :: codec
  hs_os :: os
  hs_Override :: string

definition configureHooks ::
  "hook_setup \<Rightarrow> call_ctx \<Rightarrow> PbRepository option \<Rightarrow> Cfg \<Rightarrow> ReceiveHooksPayload option \<Rightarrow> Hook \<Rightarrow> CmdOpt" where
  "configureHooks hs ctx repo cfg receiveHooksPayload requestedHooks cc =
     (if hooksConfigured cc then Inl HooksAlreadyConfigured
      else
        (case (case TransactionFromContext (tx_Unmarshal (hs_codec hs)) ctx of
                 Inr tx \<Rightarrow> Inr (Some tx)
               | Inl ErrTransactionNotFound \<Rightarrow> Inr None
               | Inl err \<Rightarrow> Inl (TransactionInfo err)) of
           Inl err \<Rightarrow> Inl err
         | Inr transaction \<Rightarrow>
             (case payload_Env (hs_codec hs)
                     (NewHooksPayload (hs_os hs) cfg repo transaction receiveHooksPayload requestedHooks (RawFromContext ctx)) of
                None \<Rightarrow> Inl PayloadEnv
              | Some payload \<Rightarrow>
                  Inr (cc\<lparr>cc_env := cc_env cc @ [payload, ''GITALY_BIN_DIR='' @ cfg_BinDir cfg, ''GITALY_LOG_DIR='' @ cfg_LoggingDir cfg],
                          cc_globals := cc_globals cc @ [GlobalConfig (config_pair ''core.hooksPath'' (hooks_Path (hs_Override hs) (hs_os hs) cfg))],
                          hooksConfigured := True\<rparr>))))"

definition WithRefTxHook :: "hook_setup \<Rightarrow> call_ctx \<Rightarrow> GitRepo option \<Rightarrow> Cfg \<Rightarrow> CmdOpt" where
  "WithRefTxHook hs ctx repo cfg cc =
     (case repo of
        None \<Rightarrow> Inl MissingRepo
      | Some r \<Rightarrow>
          map_sum (OptWrap ''ref hook env var'') id
            (configureHooks hs ctx
               (Some \<lparr> StorageName = StorageName r, RelativePath = RelativePath r, GitObjectDirectory = GitObjectDirectory r,
                       GitAlternateObjectDirectories = GitAlternateObjectDirectories r, GlRepository = [], GlProjectPath = [] \<rparr>)
               cfg None ReferenceTransactionHook cc))"

definition WithPackObjectsHookEnv :: "hook_setup \<Rightarrow> call_ctx \<Rightarrow> PbRepository option \<Rightarrow> Cfg \<Rightarrow> CmdOpt" where
  "WithPackObjectsHookEnv hs ctx repo cfg cc =
     (if \<not> poc_Enabled (cfg_PackObjectsCache cfg) then Inr cc
      else
        (case repo of
           None \<Rightarrow> Inl MissingRepo
         | Some r \<Rightarrow>
             (case configureHooks hs ctx (Some r) cfg None PackObjectsHook cc of
                Inl err \<Rightarrow> Inl (OptWrap ''pack-objects hook configuration'' err)
              | Inr cc' \<Rightarrow>
                  Inr (cc'\<lparr>cc_globals := cc_globals cc' @
                     [GlobalConfig (config_pair ''uploadpack.packObjectsHook'' (path_Join [cfg_BinDir cfg, ''gitaly-hooks'']))]\<rparr>))))"

record ReceivePackRequest =
  GlId :: string
  GlUsername :: string
  rp_Repository :: "PbRepository option"

definition WithReceivePackHooks :: "hook_setup \<Rightarrow> call_ctx \<Rightarrow> Cfg \<Rightarrow> ReceivePackRequest \<Rightarrow> string \<Rightarrow> CmdOpt" where
  "WithReceivePackHooks hs ctx cfg req protocol cc =
     configureHooks hs ctx (rp_Repository req) cfg
       (Some \<lparr> rh_Username = GlUsername req, rh_UserID = GlId req, rh_Protocol = protocol \<rparr>) ReceivePackHooks cc"

section \<open>The command factory\<close>

definition globalOptions :: "GlobalOption list" where
  "globalOptions =
     [GlobalConfig (config_pair ''core.fsyncObjectFiles'' ''true''), GlobalConfig (config_pair ''gc.auto'' ''0''),
      GlobalConfig (config_pair ''core.autocrlf'' ''input'')]"

fun apply_opts :: "CmdOpt list \<Rightarrow> cmdCfg \<Rightarrow> git_error + cmdCfg" where
  "apply_opts [] c = Inr c"
| "apply_opts (opt # opts) c = (case opt c of Inl err \<Rightarrow> Inl err | Inr c' \<Rightarrow> apply_opts opts c')"

definition combineOpts :: "Cmd \<Rightarrow> CmdOpt list \<Rightarrow> git_error + cmdCfg" where
  "combineOpts sc opts =
     (case map_of commandDescriptions (Name sc) of
        None \<Rightarrow> Inl (InvalidSubCommand (Name sc))
      | Some desc \<Rightarrow>
          (case apply_opts opts zero_cmdCfg of
             Inl err \<Rightarrow> Inl err
           | Inr c \<Rightarrow>
               if \<not> hooksConfigured c \<and> mayUpdateRef desc then Inl (ErrHookPayloadRequired (Name sc)) else Inr c))"

definition combinedGlobals :: "GitConfig list \<Rightarrow> commandDescription \<Rightarrow> cmdCfg \<Rightarrow> GlobalOption list" where
  "combinedGlobals gitConfig desc cc =
     globalOptions @
     (cd_opts desc @
      (if mayGeneratePackfiles desc
       then [GlobalConfig (config_pair ''pack.windowMemory'' ''100m''), GlobalConfig (config_pair ''pack.writeReverseIndex'' ''true'')]
       else [])) @
     cc_globals cc @
     map (\<lambda>configPair. GlobalConfig (config_pair (gc_Key configPair) (gc_Value configPair))) gitConfig"

definition combineArgs :: "GitConfig list \<Rightarrow> Cmd \<Rightarrow> cmdCfg \<Rightarrow> git_error + string list" where
  "combineArgs gitConfig sc cc =
     (case map_of commandDescriptions (Name sc) of
        None \<Rightarrow> Inl (InvalidSubCommand (Name sc))
      | Some desc \<Rightarrow>
          (case collect_args GlobalArgs (combinedGlobals gitConfig desc cc) of
             Inl err \<Rightarrow> Inl err
           | Inr args \<Rightarrow> (case CommandArgs sc of Inl err \<Rightarrow> Inl err | Inr scArgs \<Rightarrow> Inr (args @ scArgs))))"

definition alternates_Env :: "string \<Rightarrow> string \<Rightarrow> string list \<Rightarrow> string list" where
  "alternates_Env repoPath objectDirectory alternateObjectDirectories =
     (if objectDirectory \<noteq> [] then [''GIT_OBJECT_DIRECTORY='' @ path_Join [repoPath, objectDirectory]] else []) @
     (if alternateObjectDirectories \<noteq> []
      then [''GIT_ALTERNATE_OBJECT_DIRECTORIES='' @
              join_with '':'' (map (\<lambda>dir. path_Join [repoPath, dir]) alternateObjectDirectories)]
      else [])"

definition GitEnv :: "string list" where
  "GitEnv = [''LANG=en_US.UTF-8'']"

definition exportedEnvVars :: "string list" where
  "exportedEnvVars =
     [''HOME'', ''PATH'', ''LD_LIBRARY_PATH'', ''TZ'', ''GIT_TRACE'', ''GIT_TRACE_PACK_ACCESS'', ''GIT_TRACE_PACKET'',
      ''GIT_TRACE_PERFORMANCE'', ''GIT_TRACE_SETUP'', ''all_proxy'', ''http_proxy'', ''HTTP_PROXY'', ''https_proxy'',
      ''HTTPS_PROXY'', ''no_proxy'', ''NO_PROXY'']"

definition AllowedEnvironment :: "string list \<Rightarrow> string list" where
  "AllowedEnvironment envs =
     concat (map (\<lambda>env. map (\<lambda>_. env) (filter (\<lambda>exportedEnv. prefix (exportedEnv @ ''='') env) exportedEnvVars)) envs)"

definition checkNullArgv :: "string list \<Rightarrow> git_error option" where
  "checkNullArgv args = map_option NullByte (List.find (\<lambda>arg. \<exists>c \<in> set arg. ord c = 0) args)"

text \<open>The process that is started, with the variables it sees.\<close>

record process =
  pr_Path :: string
  pr_Args :: "string list"
  pr_Dir :: string
  pr_Env :: "string list"
  pr_stdin :: "nat option"
  pr_stdout :: "nat option"
  pr_stderr :: "nat option"

text \<open>
  The host as \<open>command.New\<close> uses it: the variables of the server, those that tracing adds, whether a
  spawn token is granted, whether the process starts, and whether it can be put into a control group.
\<close>

record spawner =
  sp_Environ :: "string list"
  sp_injector :: "string list \<Rightarrow> string list"
  sp_token :: bool
  sp_start :: "process \<Rightarrow> bool"
  sp_cgroup :: "process \<Rightarrow> bool"

definition command_New ::
  "spawner \<Rightarrow> string \<Rightarrow> string list \<Rightarrow> string \<Rightarrow> cmdCfg \<Rightarrow> string list \<Rightarrow> git_error + process" where
  "command_New sp path args dir cc env =
     (case checkNullArgv (path # args) of
        Some err \<Rightarrow> Inl err
      | None \<Rightarrow>
          if \<not> sp_token sp then Inl SpawnTimeout
          else
            let p = \<lparr> pr_Path = path, pr_Args = path # args, pr_Dir = dir,
                      pr_Env = dedupEnv (sp_injector sp (env @ [''GIT_TERMINAL_PROMPT=0''] @ AllowedEnvironment (sp_Environ sp))),
                      pr_stdin = cc_stdin cc, pr_stdout = cc_stdout cc, pr_stderr = cc_stderr cc \<rparr>
            in if \<not> sp_start sp p then Inl StartFailed else Inr p)"

text \<open>The end of \<open>newCommand\<close>, once the arguments and the variables are known.\<close>

definition run_command ::
  "spawner \<Rightarrow> Cfg \<Rightarrow> string \<Rightarrow> cmdCfg \<Rightarrow> string list \<Rightarrow> string list \<Rightarrow> git_error + process" where
  "run_command sp cfg dir cc args env =
     (case command_New sp (BinPath (cfg_Git cfg)) args dir cc (env @ GitEnv) of
        Inl err \<Rightarrow> Inl err
      | Inr p \<Rightarrow> if \<not> sp_cgroup sp p then Inl CgroupFailed else Inr p)"

definition newCommand ::
  "spawner \<Rightarrow> os \<Rightarrow> Cfg \<Rightarrow> GitRepo option \<Rightarrow> string \<Rightarrow> Cmd \<Rightarrow> CmdOpt list \<Rightarrow> git_error + process" where
  "newCommand sp os cfg repo dir sc opts =
     (case combineOpts sc opts of
        Inl err \<Rightarrow> Inl err
      | Inr cc \<Rightarrow>
          (case combineArgs (GitConfigs (cfg_Git cfg)) sc cc of
             Inl err \<Rightarrow> Inl err
           | Inr args \<Rightarrow>
               (case repo of
                  None \<Rightarrow> run_command sp cfg dir cc args (cc_env cc)
                | Some r \<Rightarrow>
                    (case GetRepoPath os cfg r of
                       Inl err \<Rightarrow> Inl (RepoPath err)
                     | Inr repoPath \<Rightarrow>
                         run_command sp cfg dir cc ([''--git-dir'', repoPath] @ args)
                           (alternates_Env repoPath (GitObjectDirectory r) (GitAlternateObjectDirectories r) @ cc_env cc)))))"

definition factory_New :: "spawner \<Rightarrow> os \<Rightarrow> Cfg \<Rightarrow> GitRepo \<Rightarrow> Cmd \<Rightarrow> CmdOpt list \<Rightarrow> git_error + process" where
  "factory_New sp os cfg repo sc opts = newCommand sp os cfg (Some repo) [] sc opts"

definition NewWithoutRepo :: "spawner \<Rightarrow> os \<Rightarrow> Cfg \<Rightarrow> Cmd \<Rightarrow> CmdOpt list \<Rightarrow> git_error + process" where
  "NewWithoutRepo sp os cfg sc opts = newCommand sp os cfg None [] sc opts"

definition NewWithDir :: "spawner \<Rightarrow> os \<Rightarrow> Cfg \<Rightarrow> string \<Rightarrow> Cmd \<Rightarrow> CmdOpt list \<Rightarrow> git_error + process" where
  "NewWithDir sp os cfg dir sc opts =
     (if dir = [] then Inl NoDir else newCommand sp os cfg None dir sc opts)"

end
