(* ===== verification/Git_Command_Props.thy ===== *)
theory Git_Command_Props
  imports Git_Command
begin

text \<open>
  What the layer that builds git commands guarantees: no request can smuggle an option into a command
  line, the administrator's configuration has the last word, a command that may change references has
  its hooks configured, and the hooks find the transaction that Praefect put into the call.
\<close>

section \<open>Arguments\<close>

lemma first_error_None: "first_error f as = None \<longleftrightarrow> list_all (\<lambda>a. f a = None) as"
  by (induction as) (auto split: option.splits)

lemma collect_args_append:
  "collect_args f (os @ ps) =
     (case collect_args f os of
        Inl e \<Rightarrow> Inl e
      | Inr as \<Rightarrow> (case collect_args f ps of Inl e \<Rightarrow> Inl e | Inr bs \<Rightarrow> Inr (as @ bs)))"
  by (induction os) (auto split: sum.split)

text \<open>Only \<open>rev-list\<close> has a check of its own.\<close>

lemma own_validation:
  assumes "map_of commandDescriptions name = Some desc" "validatePositionalArgs desc = Some validate"
  shows "name = ''rev-list'' \<and> validate = validateRevListArgs"
proof -
  have "list_all (\<lambda>(n, d). n \<noteq> ''rev-list'' \<longrightarrow> Option.is_none (validatePositionalArgs d)) commandDescriptions"
    by code_simp
  moreover have "(name, desc) \<in> set commandDescriptions" using assms(1) by (rule map_of_SomeD)
  ultimately have name: "name = ''rev-list''" using assms(2) by (auto simp: list_all_iff)
  have "map_of commandDescriptions ''rev-list'' =
      Some ((command (scNoRefUpdates OR scNoEndOfOptions) [])\<lparr>validatePositionalArgs := Some validateRevListArgs\<rparr>)"
    by (simp add: commandDescriptions_def Let_def)
  with assms name show ?thesis by auto
qed

definition harmless :: "string \<Rightarrow> string \<Rightarrow> bool" where
  "harmless name arg \<longleftrightarrow> \<not> prefix ''-'' arg \<or> name = ''rev-list'' \<and> arg \<in> {''--all'', ''--not''}"

lemma validated_args:
  assumes "map_of commandDescriptions name = Some desc" "description_args desc flags args post = Inr out"
  obtains flagArgs where "collect_args OptionArgs flags = Inr flagArgs"
    and "out = flagArgs @ (if supportsEndOfOptions desc then [''--end-of-options''] else []) @ args @
           (if post \<noteq> [] then [''--''] else []) @ post"
    and "list_all (harmless name) args"
proof -
  from assms(2) obtain flagArgs where f: "collect_args OptionArgs flags = Inr flagArgs"
    "out = flagArgs @ (if supportsEndOfOptions desc then [''--end-of-options''] else []) @ args @
           (if post \<noteq> [] then [''--''] else []) @ post"
    and ok: "(case validatePositionalArgs desc of Some v \<Rightarrow> v args | None \<Rightarrow> first_error validatePositionalArg args) = None"
    unfolding description_args_def by (auto split: sum.splits option.splits)
  have "list_all (harmless name) args"
  proof (cases "validatePositionalArgs desc")
    case None
    with ok show ?thesis
      by (auto simp: first_error_None validatePositionalArg_def harmless_def list_all_iff split: if_splits)
  next
    case (Some v)
    with own_validation [OF assms(1)] ok show ?thesis
      by (auto simp: validateRevListArgs_def first_error_None validatePositionalArg_def harmless_def list_all_iff split: if_splits)
  qed
  with f that show thesis by blast
qed

lemma flagRegex_dash: "flagRegex s \<Longrightarrow> prefix ''-'' s \<and> s \<noteq> ''-'' \<and> s \<noteq> ''--''"
  by (cases s rule: flagRegex.cases) (auto simp: alnum_def ord_def)

section \<open>The table of commands\<close>

lemma table_options_valid:
  assumes "map_of commandDescriptions name = Some desc"
  obtains args where "collect_args GlobalArgs (cd_opts desc) = Inr args"
proof -
  have "list_all (\<lambda>(n, d). \<not> isl (collect_args GlobalArgs (cd_opts d))) commandDescriptions" by code_simp
  moreover have "(name, desc) \<in> set commandDescriptions" using assms by (rule map_of_SomeD)
  ultimately have "\<not> isl (collect_args GlobalArgs (cd_opts desc))" by (auto simp: list_all_iff)
  with that show thesis by (cases "collect_args GlobalArgs (cd_opts desc)") simp_all
qed

text \<open>The check at program start passes.\<close>

lemma receive_pack_hides_internal_refs: "description_init commandDescriptions = None"
  by code_simp

section \<open>No option injection\<close>

text \<open>
  C34. In the command line that is built for a command, the flags come first and each is
  a validated one; every positional argument that does not start with a dash follows, the two words
  that \<open>rev-list\<close> allows apart; and what else the caller passes is behind the separator. So an argument
  taken from a request is never read by git as an option.
\<close>

theorem no_option_injection:
  assumes "CommandArgs sc = Inr args"
  shows "\<exists>flagArgs eoo.
     args = Name sc # (case Action sc of None \<Rightarrow> [] | Some action \<Rightarrow> [action]) @ flagArgs @ eoo @ Args sc @
       (if PostSepArgs sc = [] then [] else ''--'' # PostSepArgs sc) \<and>
     eoo \<in> {[], [''--end-of-options'']} \<and>
     collect_args OptionArgs (Flags sc) = Inr flagArgs \<and>
     list_all (\<lambda>arg. \<not> prefix ''-'' arg \<or> Name sc = ''rev-list'' \<and> arg \<in> {''--all'', ''--not''}) (Args sc)"
proof -
  from assms obtain desc where desc: "map_of commandDescriptions (Name sc) = Some desc"
    by (auto simp: CommandArgs_def split: option.splits)
  with assms obtain out where out: "description_args desc (Flags sc) (Args sc) (PostSepArgs sc) = Inr out"
    and args: "args = Name sc # (case Action sc of None \<Rightarrow> [] | Some action \<Rightarrow> [action]) @ out"
    by (cases "description_args desc (Flags sc) (Args sc) (PostSepArgs sc)")
       (auto simp: CommandArgs_def split: option.splits if_splits)
  obtain flagArgs where f: "collect_args OptionArgs (Flags sc) = Inr flagArgs"
    and "out = flagArgs @ (if supportsEndOfOptions desc then [''--end-of-options''] else []) @ Args sc @
           (if PostSepArgs sc \<noteq> [] then [''--''] else []) @ PostSepArgs sc"
    and h: "list_all (harmless (Name sc)) (Args sc)"
    using validated_args [OF desc out] by blast
  with args have "args = Name sc # (case Action sc of None \<Rightarrow> [] | Some action \<Rightarrow> [action]) @ flagArgs @
      (if supportsEndOfOptions desc then [''--end-of-options''] else []) @ Args sc @
       (if PostSepArgs sc = [] then [] else ''--'' # PostSepArgs sc)" by simp
  moreover have "(if supportsEndOfOptions desc then [''--end-of-options''] else []) \<in> {[], [''--end-of-options'']}" by simp
  ultimately show ?thesis using f h unfolding harmless_def by blast
qed

definition example_cmd :: Cmd where
  "example_cmd = \<lparr> Name = ''rev-list'', Action = None, Flags = [OptFlag ''--count'', OptValueFlag ''-n'' ''5''],
     Args = [''main'', ''--not'', ''--all''], PostSepArgs = [''-x''] \<rparr>"

theorem no_option_injection_witness:
  "\<exists>flagArgs eoo.
     [''rev-list'', ''--count'', ''-n'', ''5'', ''main'', ''--not'', ''--all'', ''--'', ''-x''] =
       Name example_cmd # (case Action example_cmd of None \<Rightarrow> [] | Some action \<Rightarrow> [action]) @ flagArgs @ eoo @ Args example_cmd @
       (if PostSepArgs example_cmd = [] then [] else ''--'' # PostSepArgs example_cmd) \<and>
     eoo \<in> {[], [''--end-of-options'']} \<and>
     collect_args OptionArgs (Flags example_cmd) = Inr flagArgs \<and>
     list_all (\<lambda>arg. \<not> prefix ''-'' arg \<or> Name example_cmd = ''rev-list'' \<and> arg \<in> {''--all'', ''--not''}) (Args example_cmd)"
  by (rule no_option_injection) code_simp

section \<open>The administrator's configuration\<close>

lemma global_key_no_assignment:
  assumes "configKeyGlobalRegex k"
  shows "CHR ''='' \<notin> set k"
proof
  assume eq: "CHR ''='' \<in> set k"
  have "set (join_with [CHR ''.''] ws) \<subseteq> insert CHR ''.'' (\<Union> (set ` set ws))" for ws
    by (induction "[CHR ''.'']" ws rule: join_with.induct) auto
  then have "set k \<subseteq> insert CHR ''.'' (\<Union> (set ` set (split_on CHR ''.'' k)))"
    using join_split [of "CHR ''.''" k] by metis
  with eq obtain w where "w \<in> set (split_on CHR ''.'' k)" "CHR ''='' \<in> set w" by auto
  moreover have "set (split_on CHR ''.'' k) = insert (hd (split_on CHR ''.'' k)) (set (tl (split_on CHR ''.'' k)))"
    by (cases "split_on CHR ''.'' k") simp_all
  moreover have "\<not> alnum CHR ''=''" by code_simp
  ultimately show False
    using assms by (fastforce simp: configKeyGlobalRegex_def Let_def list_all_iff)
qed

lemma collect_config:
  "collect_args GlobalArgs (map (\<lambda>p. GlobalConfig (config_pair (key p) (val p))) ps) = Inr args \<longleftrightarrow>
     list_all (\<lambda>p. configKeyGlobalRegex (key p)) ps \<and> args = concat (map (\<lambda>p. [''-c'', key p @ ''='' @ val p]) ps)"
proof (induction ps arbitrary: args)
  case (Cons p ps)
  let ?tail = "collect_args GlobalArgs (map (\<lambda>p. GlobalConfig (config_pair (key p) (val p))) ps)"
  have head: "GlobalArgs (GlobalConfig (config_pair (key p) (val p))) =
      (if configKeyGlobalRegex (key p) then Inr [''-c'', key p @ ''='' @ val p] else Inl (InvalidConfigKey (key p)))"
    by (simp add: ConfigPair_GlobalArgs_def config_pair_def)
  show ?case using Cons.IH unfolding list.map collect_args.simps head
    by (cases ?tail) (simp_all, blast+)
qed auto

lemma convert_config:
  "list_all (\<lambda>p. CHR ''='' \<notin> set (key p)) ps \<Longrightarrow>
   ConvertConfigOptions (map (\<lambda>p. key p @ ''='' @ val p) ps) = Inr (map (\<lambda>p. config_pair (key p) (val p)) ps)"
  by (induction ps) (simp_all add: cut_pair)

text \<open>
  C35. The settings of the administrator stand, in the order of the configuration file, behind
  every other setting and directly before the subcommand, so they override all others; and each
  is one argument that splits at its first equals sign into exactly the configured key and value.
\<close>

theorem admin_config_wins:
  assumes "combineArgs gitConfig sc cc = Inr args"
  shows "\<exists>others scArgs.
     args = others @ concat (map (\<lambda>p. [''-c'', gc_Key p @ ''='' @ gc_Value p]) gitConfig) @ scArgs \<and>
     CommandArgs sc = Inr scArgs \<and>
     ConvertConfigOptions (map (\<lambda>p. gc_Key p @ ''='' @ gc_Value p) gitConfig) =
       Inr (map (\<lambda>p. config_pair (gc_Key p) (gc_Value p)) gitConfig)"
proof -
  from assms obtain desc gs scArgs where
      gs: "collect_args GlobalArgs (combinedGlobals gitConfig desc cc) = Inr gs"
      and sc: "CommandArgs sc = Inr scArgs" "args = gs @ scArgs"
    by (auto simp: combineArgs_def split: option.splits sum.splits)
  obtain others where
      "gs = others @ concat (map (\<lambda>p. [''-c'', gc_Key p @ ''='' @ gc_Value p]) gitConfig)"
      "list_all (\<lambda>p. configKeyGlobalRegex (gc_Key p)) gitConfig"
    using gs unfolding combinedGlobals_def append_assoc [symmetric] collect_args_append [of _ _ "map _ _"]
    by (auto simp: collect_config split: sum.splits)
  with sc convert_config [of gc_Key gitConfig gc_Value] global_key_no_assignment show ?thesis
    by (auto simp: list_all_iff)
qed

theorem admin_config_wins_witness:
  "\<exists>others scArgs.
     projr (combineArgs [\<lparr> gc_Key = ''gc.auto'', gc_Value = ''a=b'' \<rparr>] example_cmd zero_cmdCfg) =
       others @ concat (map (\<lambda>p. [''-c'', gc_Key p @ ''='' @ gc_Value p]) [\<lparr> gc_Key = ''gc.auto'', gc_Value = ''a=b'' \<rparr>]) @ scArgs \<and>
     CommandArgs example_cmd = Inr scArgs \<and>
     ConvertConfigOptions (map (\<lambda>p. gc_Key p @ ''='' @ gc_Value p) [\<lparr> gc_Key = ''gc.auto'', gc_Value = ''a=b'' \<rparr>]) =
       Inr (map (\<lambda>p. config_pair (gc_Key p) (gc_Value p)) [\<lparr> gc_Key = ''gc.auto'', gc_Value = ''a=b'' \<rparr>])"
  by (rule admin_config_wins [where cc = zero_cmdCfg]) code_simp

text \<open>
  The checks of the configuration and of the command line disagree: a key that holds a colon is
  accepted from the configuration file, and then no git command can be run at all.
\<close>

lemma accepted_key_breaks_commands:
  defines "p \<equiv> \<lparr> gc_Key = ''http.https://example.com.proxy'', gc_Value = ''x'' \<rparr>"
  shows "checkGitConfigs [p] = None" "\<not> (\<exists>args. combineArgs [p] sc cc = Inr args)"
proof -
  show "checkGitConfigs [p] = None" unfolding p_def by code_simp
  have "\<not> configKeyGlobalRegex (gc_Key p)" unfolding p_def by code_simp
  then show "\<not> (\<exists>args. combineArgs [p] sc cc = Inr args)"
    using collect_config [of gc_Key gc_Value "[p]"]
    by (auto simp: combineArgs_def combinedGlobals_def collect_args_append ConfigPair_GlobalArgs_def config_pair_def
        split: option.splits sum.splits)
qed

section \<open>Hooks\<close>

text \<open>Options of a command fold from left to right; some option turns the hooks on.\<close>

lemma apply_opts_switch:
  assumes "apply_opts opts c = Inr d" "\<not> hooksConfigured c" "hooksConfigured d"
  shows "\<exists>before opt after e f. opts = before @ opt # after \<and> apply_opts before c = Inr e \<and> opt e = Inr f \<and>
           \<not> hooksConfigured e \<and> hooksConfigured f"
  using assms
proof (induction opts arbitrary: c)
  case (Cons opt opts)
  from Cons.prems(1) obtain e where e: "opt c = Inr e" "apply_opts opts e = Inr d" by (auto split: sum.splits)
  show ?case
  proof (cases "hooksConfigured e")
    case True
    with e Cons.prems(2) show ?thesis
      by (intro exI [of _ "[]"] exI [of _ opt] exI [of _ opts] exI [of _ c] exI [of _ e]) simp
  next
    case False
    from Cons.IH [OF e(2) False Cons.prems(3)] obtain before opt' after g h
      where "opts = before @ opt' # after" "apply_opts before e = Inr g" "opt' g = Inr h"
        "\<not> hooksConfigured g" "hooksConfigured h" by blast
    with e(1) show ?thesis
      by (intro exI [of _ "opt # before"] exI [of _ opt'] exI [of _ after] exI [of _ g] exI [of _ h]) simp
  qed
qed simp

lemma newCommand_ok:
  assumes "newCommand sp os cfg repo dir sc opts = Inr pr"
  obtains cc args env where "combineOpts sc opts = Inr cc" "combineArgs (GitConfigs (cfg_Git cfg)) sc cc = Inr args"
    and "pr_Env pr = dedupEnv (sp_injector sp (env @ cc_env cc @ GitEnv @ [''GIT_TERMINAL_PROMPT=0''] @ AllowedEnvironment (sp_Environ sp)))"
    and "\<exists>before. pr_Args pr = before @ args"
proof -
  from assms obtain cc args where cc: "combineOpts sc opts = Inr cc" "combineArgs (GitConfigs (cfg_Git cfg)) sc cc = Inr args"
    by (auto simp: newCommand_def split: sum.splits)
  have "\<exists>before env. run_command sp cfg dir cc (before @ args) (env @ cc_env cc) = Inr pr"
  proof (cases repo)
    case None
    with assms cc show ?thesis by (intro exI [of _ "[]"]) (simp add: newCommand_def)
  next
    case (Some r)
    with assms cc obtain repoPath where
      "run_command sp cfg dir cc ([''--git-dir'', repoPath] @ args)
         (alternates_Env repoPath (GitObjectDirectory r) (GitAlternateObjectDirectories r) @ cc_env cc) = Inr pr"
      by (cases "GetRepoPath os cfg r") (simp_all add: newCommand_def)
    then show ?thesis by blast
  qed
  moreover have "command_New sp (BinPath (cfg_Git cfg)) as dir cc (es @ GitEnv) = Inr pr"
    if "run_command sp cfg dir cc as es = Inr pr" for as es
    using that unfolding run_command_def
    by (cases "command_New sp (BinPath (cfg_Git cfg)) as dir cc (es @ GitEnv)") (simp_all split: if_split_asm)
  ultimately obtain before env where
      "command_New sp (BinPath (cfg_Git cfg)) (before @ args) dir cc ((env @ cc_env cc) @ GitEnv) = Inr pr"
    by blast
  then have "pr_Env pr = dedupEnv (sp_injector sp (env @ cc_env cc @ GitEnv @ [''GIT_TERMINAL_PROMPT=0''] @ AllowedEnvironment (sp_Environ sp)))"
    and "pr_Args pr = (BinPath (cfg_Git cfg) # before) @ args"
    by (auto simp: command_New_def Let_def split: option.split_asm if_split_asm)
  with cc that show thesis by blast
qed

text \<open>A command that may change references is not started unless an option configured its hooks.\<close>

lemma ref_updates_need_hooks:
  assumes "newCommand sp os cfg repo dir sc opts = Inr pr"
    and "map_of commandDescriptions (Name sc) = Some desc" "mayUpdateRef desc"
  shows "\<exists>before opt after c d. opts = before @ opt # after \<and> apply_opts before zero_cmdCfg = Inr c \<and> opt c = Inr d \<and>
           \<not> hooksConfigured c \<and> hooksConfigured d"
proof -
  obtain cc where "combineOpts sc opts = Inr cc" using newCommand_ok [OF assms(1)] by blast
  with assms(2,3) have "apply_opts opts zero_cmdCfg = Inr cc" "hooksConfigured cc"
    by (auto simp: combineOpts_def split: sum.splits if_splits)
  moreover have "\<not> hooksConfigured zero_cmdCfg" by (simp add: zero_cmdCfg_def)
  ultimately show ?thesis using apply_opts_switch by blast
qed

lemma allowed_not_payload: "lookupEnv (AllowedEnvironment envs) EnvHooksPayload = None"
proof -
  have cut_key: "cut CHR ''='' env = Some (v, drop (Suc (length v)) env)"
    if "prefix (v @ ''='') env" "CHR ''='' \<notin> set v" for v env
    using that cut_pair [of "CHR ''=''" v] by (auto simp: prefix_def)
  have vars: "list_all (\<lambda>v. CHR ''='' \<notin> set v \<and> v \<noteq> EnvHooksPayload) exportedEnvVars" by code_simp
  have none: "lookupEnv es EnvHooksPayload = None"
    if "\<forall>e \<in> set es. \<exists>v \<in> set exportedEnvVars. prefix (v @ ''='') e" for es
    using that
  proof (induction es)
    case (Cons e es)
    then obtain v where "v \<in> set exportedEnvVars" "prefix (v @ ''='') e" by auto
    with vars cut_key [of v e] Cons show ?case by (auto simp: list_all_iff)
  qed simp
  show ?thesis by (rule none) (auto simp: AllowedEnvironment_def)
qed

definition tx_of :: "uint \<Rightarrow> uint \<Rightarrow> string \<Rightarrow> bool \<Rightarrow> TxInfo" where
  "tx_of peer i node primary = \<lparr> BackchannelID = peer, tx_ID = i, tx_Node = node, tx_Primary = primary \<rparr>"

definition receive_payload ::
  "hook_setup \<Rightarrow> call_ctx \<Rightarrow> Cfg \<Rightarrow> ReceivePackRequest \<Rightarrow> string \<Rightarrow> TxInfo \<Rightarrow> HooksPayload" where
  "receive_payload hs ctx cfg req protocol tx =
     NewHooksPayload (hs_os hs) cfg (rp_Repository req) (Some tx)
       (Some \<lparr> rh_Username = GlUsername req, rh_UserID = GlId req, rh_Protocol = protocol \<rparr>)
       ReceivePackHooks (RawFromContext ctx)"

lemma later_variables_not_payload:
  assumes "lookupEnv added EnvHooksPayload = None"
  shows "lookupEnv ([''GITALY_BIN_DIR='' @ b, ''GITALY_LOG_DIR='' @ l] @ GitEnv @ [''GIT_TERMINAL_PROMPT=0''] @
           AllowedEnvironment envs @ added) EnvHooksPayload = None"
proof -
  have "cut CHR ''='' (''GITALY_BIN_DIR='' @ b) = Some (''GITALY_BIN_DIR'', b)"
    "cut CHR ''='' (''GITALY_LOG_DIR='' @ l) = Some (''GITALY_LOG_DIR'', l)"
    "cut CHR ''='' ''LANG=en_US.UTF-8'' = Some (''LANG'', ''en_US.UTF-8'')"
    "cut CHR ''='' ''GIT_TERMINAL_PROMPT=0'' = Some (''GIT_TERMINAL_PROMPT'', ''0'')"
    by (simp_all add: cut_def)
  moreover have "''GITALY_BIN_DIR'' \<noteq> EnvHooksPayload" "''GITALY_LOG_DIR'' \<noteq> EnvHooksPayload"
    "''LANG'' \<noteq> EnvHooksPayload" "''GIT_TERMINAL_PROMPT'' \<noteq> EnvHooksPayload"
    by (simp_all add: EnvHooksPayload_def)
  ultimately show ?thesis
    using assms by (simp add: lookupEnv_append allowed_not_payload GitEnv_def del: append_Cons)
qed


section \<open>An example of a push\<close>

definition example_ctx :: call_ctx where
  "example_ctx = \<lparr> incoming = None, peer_id = Inr 7 \<rparr>"

definition example_req :: ReceivePackRequest where
  "example_req = \<lparr> GlId = ''user-1'', GlUsername = ''u'', rp_Repository = None \<rparr>"

definition example_spawner :: spawner where
  "example_spawner =
     \<lparr> sp_Environ = [''PATH=/bin'', ''SECRET=1''], sp_injector = (\<lambda>env. env @ []), sp_token = True,
       sp_start = (\<lambda>_. True), sp_cgroup = (\<lambda>_. True) \<rparr>"

definition example_push :: Cmd where
  "example_push = \<lparr> Name = ''receive-pack'', Action = None, Flags = [], Args = [''/d/a/y.git''], PostSepArgs = [] \<rparr>"

text \<open>An encoder that knows one transaction and one payload.\<close>

definition example_marshalled :: call_ctx where
  "example_marshalled = example_ctx\<lparr>incoming := Some [(TransactionMetadataKey, [EncodeToString ''tx''])]\<rparr>"

definition example_payload :: HooksPayload where
  "example_payload =
     NewHooksPayload example_os example_conf None (Some (tx_of 7 3 ''gitaly-1'' True))
       (Some \<lparr> rh_Username = ''u'', rh_UserID = ''user-1'', rh_Protocol = ''ssh'' \<rparr>) ReceivePackHooks (RawFromContext example_marshalled)"

definition example_hs :: hook_setup where
  "example_hs =
     \<lparr> hs_codec = \<lparr> tx_Marshal = (\<lambda>_. Some ''tx''), tx_Unmarshal = (\<lambda>_. Some (tx_of 0 3 ''gitaly-1'' True)),
                    hp_Marshal = (\<lambda>_. Some ''payload''), hp_Unmarshal = (\<lambda>_. Some example_payload) \<rparr>,
       hs_os = example_os, hs_Override = [] \<rparr>"

lemma example_inject:
  "InjectTransaction (tx_Marshal (hs_codec example_hs)) example_ctx 3 ''gitaly-1'' True = Some example_marshalled"
  by (simp add: InjectTransaction_def serialize_def example_hs_def example_ctx_def example_marshalled_def)

lemma example_receive_payload:
  "receive_payload example_hs example_marshalled example_conf example_req ''ssh'' (tx_of 7 3 ''gitaly-1'' True) = example_payload"
  by (simp add: receive_payload_def example_payload_def example_hs_def example_req_def)

definition example_process :: "git_error + process" where
  "example_process = factory_New example_spawner example_os example_conf (example_repo ''a'' ''y.git'') example_push
     [WithReceivePackHooks example_hs example_marshalled example_conf example_req ''ssh'']"

lemma example_started: "\<not> isl example_process"
  unfolding example_process_def by code_simp


end
