(* ===== verification/Git_Types.thy ===== *)
theory Git_Types
  imports Hooks_Payload
begin

text \<open>
  The value types of the package \<open>internal/git\<close>: object identifiers (\<open>id.go\<close>), names of references
  (\<open>reference.go\<close>) and versions of git (\<open>version.go\<close>). An accepted object identifier decodes to
  twenty bytes, and the comparison of versions is shown to be a strict order.
\<close>

section \<open>Object identifiers\<close>

type_synonym ObjectID = string

definition hex_lower :: string where
  "hex_lower = ''0123456789abcdef''"

definition EmptyTreeOID :: ObjectID where
  "EmptyTreeOID = ''4b825dc642cb6eb9a060e54bf8d69288fbee4904''"

definition ZeroOID :: ObjectID where
  "ZeroOID = ''0000000000000000000000000000000000000000''"

definition objectIDRegex :: "string \<Rightarrow> bool" where
  "objectIDRegex s \<longleftrightarrow> length s = 40 \<and> list_all (\<lambda>c. c \<in> set hex_lower) s"

datatype oid_error = ErrInvalidObjectID string

definition ValidateObjectID :: "string \<Rightarrow> oid_error option" where
  "ValidateObjectID i = (if objectIDRegex i then None else Some (ErrInvalidObjectID i))"

definition NewObjectIDFromHex :: "string \<Rightarrow> oid_error + ObjectID" where
  "NewObjectIDFromHex hex = (case ValidateObjectID hex of Some err \<Rightarrow> Inl err | None \<Rightarrow> Inr hex)"

text \<open>\<open>hex.DecodeString\<close> also reads capitals; an odd length is an error.\<close>

definition fromHexChar :: "char \<Rightarrow> byte option" where
  "fromHexChar c =
     (case index_of c hex_lower of
        Some n \<Rightarrow> Some (of_nat n)
      | None \<Rightarrow> map_option of_nat (index_of c ''0123456789ABCDEF''))"

fun hex_DecodeString :: "string \<Rightarrow> byte list option" where
  "hex_DecodeString [] = Some []"
| "hex_DecodeString [a] = None"
| "hex_DecodeString (a # b # s) =
     (case (fromHexChar a, fromHexChar b) of
        (Some x, Some y) \<Rightarrow> map_option (\<lambda>t. (x * 16 + y) # t) (hex_DecodeString s)
      | _ \<Rightarrow> None)"

definition oid_Bytes :: "ObjectID \<Rightarrow> byte list option" where
  "oid_Bytes oid = hex_DecodeString oid"

definition IsZeroOID :: "ObjectID \<Rightarrow> bool" where
  "IsZeroOID oid \<longleftrightarrow> oid = ZeroOID"

lemma index_of_mem: "c \<in> set s \<Longrightarrow> \<exists>n < length s. index_of c s = Some n \<and> s ! n = c"
proof (induction s)
  case (Cons d s)
  show ?case
  proof (cases "c = d")
    case False
    with Cons obtain n where "n < length s" "index_of c s = Some n" "s ! n = c" by auto
    with False show ?thesis by (intro exI [of _ "Suc n"]) simp
  qed auto
qed simp

lemma nibbles:
  assumes "x < 16" "y < 16"
  shows "((of_nat x * 16 + of_nat y) :: byte) div 16 = of_nat x" "((of_nat x * 16 + of_nat y) :: byte) mod 16 = of_nat y"
proof -
  define n where "n = x * 16 + y"
  have eq: "(of_nat x * 16 + of_nat y :: byte) = of_nat n" by (simp add: n_def)
  have "n < 256" using assms by (simp add: n_def)
  then have u: "unat (of_nat n :: byte) = n" by (simp add: unat_of_nat take_bit_nat_def)
  have div: "n div 16 = x" and mod: "n mod 16 = y" using assms by (simp_all add: n_def)
  have "unat (of_nat n div 16 :: byte) = x" unfolding unat_div u using div by simp
  then show "((of_nat x * 16 + of_nat y) :: byte) div 16 = of_nat x"
    unfolding eq by (metis of_nat_unat ucast_id)
  have "unat (of_nat n mod 16 :: byte) = y" unfolding unat_mod u using mod by simp
  then show "((of_nat x * 16 + of_nat y) :: byte) mod 16 = of_nat y"
    unfolding eq by (metis of_nat_unat ucast_id)
qed

lemma hex_decode:
  "even (length s) \<Longrightarrow> list_all (\<lambda>c. c \<in> set hex_lower) s \<Longrightarrow>
   \<exists>bs. hex_DecodeString s = Some bs \<and> 2 * length bs = length s \<and> fmt_x bs = s"
proof (induction s rule: hex_DecodeString.induct)
  case (3 a b s)
  have len: "length hex_lower = 16" by (simp add: hex_lower_def)
  from "3.prems" obtain x y where x: "x < 16" "index_of a hex_lower = Some x" "hex_lower ! x = a"
    and y: "y < 16" "index_of b hex_lower = Some y" "hex_lower ! y = b"
    using index_of_mem [of a hex_lower] index_of_mem [of b hex_lower] len by auto
  have dec: "fromHexChar a = Some (of_nat x)" "fromHexChar b = Some (of_nat y)" using x y by (simp_all add: fromHexChar_def)
  from "3.IH" [OF _ _ _] "3.prems" obtain bs where bs: "hex_DecodeString s = Some bs" "2 * length bs = length s" "fmt_x bs = s"
    using dec by auto
  have digit: "hex_char (of_nat n) = hex_lower ! n" if "n < 16" for n
    using that by (simp add: hex_char_def hex_lower_def unat_of_nat take_bit_nat_def)
  have "fmt_x ((of_nat x * 16 + of_nat y) # bs) = a # b # s"
    using bs(3) x y by (simp add: fmt_x_def nibbles digit)
  with dec bs show ?case by simp
qed (simp_all add: fmt_x_def)

text \<open>
  C37. An identifier that \<open>NewObjectIDFromHex\<close> accepts always decodes, to exactly twenty bytes, and
  their hexadecimal form is the identifier again.
\<close>

theorem object_id_is_twenty_bytes:
  assumes "NewObjectIDFromHex hex = Inr oid"
  shows "\<exists>bs. oid_Bytes oid = Some bs \<and> length bs = 20 \<and> fmt_x bs = oid"
proof -
  from assms have "oid = hex" "length hex = 40" "list_all (\<lambda>c. c \<in> set hex_lower) hex"
    by (auto simp: NewObjectIDFromHex_def ValidateObjectID_def objectIDRegex_def split: if_splits)
  with hex_decode [of hex] show ?thesis by (auto simp: oid_Bytes_def)
qed

theorem object_id_is_twenty_bytes_witness:
  "\<exists>bs. oid_Bytes EmptyTreeOID = Some bs \<and> length bs = 20 \<and> fmt_x bs = EmptyTreeOID"
  by (rule object_id_is_twenty_bytes [of EmptyTreeOID]) code_simp

section \<open>Names of references\<close>

type_synonym ReferenceName = string

definition NewReferenceNameFromBranchName :: "string \<Rightarrow> ReferenceName" where
  "NewReferenceNameFromBranchName branch = ''refs/heads/'' @ branch"

definition Branch :: "ReferenceName \<Rightarrow> string option" where
  "Branch r = (if prefix ''refs/heads/'' r then Some (drop (length ''refs/heads/'') r) else None)"

lemma branch_round_trip: "Branch r = Some b \<longleftrightarrow> r = NewReferenceNameFromBranchName b"
  by (auto simp: Branch_def NewReferenceNameFromBranchName_def prefix_def)

section \<open>Versions\<close>

record Version =
  versionString :: string
  major :: "32 word"
  minor :: "32 word"
  patch :: "32 word"
  rc :: bool
  gl :: "32 word"

definition LessThan :: "Version \<Rightarrow> Version \<Rightarrow> bool" where
  "LessThan v other \<longleftrightarrow>
     (if major v < major other then True
      else if major v > major other then False
      else if minor v < minor other then True
      else if minor v > minor other then False
      else if patch v < patch other then True
      else if patch v > patch other then False
      else if rc v \<and> \<not> rc other then True
      else if \<not> rc v \<and> rc other then False
      else if gl v < gl other then True
      else if gl v > gl other then False
      else False)"

definition minimumVersion :: Version where
  "minimumVersion = \<lparr> versionString = ''2.31.0'', major = 2, minor = 31, patch = 0, rc = False, gl = 0 \<rparr>"

definition IsSupported :: "Version \<Rightarrow> bool" where
  "IsSupported v \<longleftrightarrow> \<not> LessThan v minimumVersion"

definition SupportsObjectTypeFilter :: "Version \<Rightarrow> bool" where
  "SupportsObjectTypeFilter v \<longleftrightarrow>
     \<not> LessThan v \<lparr> versionString = [], major = 2, minor = 32, patch = 0, rc = False, gl = 0 \<rparr>"

definition FlushesUpdaterefStatus :: "Version \<Rightarrow> bool" where
  "FlushesUpdaterefStatus v \<longleftrightarrow>
     (if major v = 2 \<and> minor v = 33 \<and> gl v \<ge> 3 then True
      else if major v = 2 \<and> minor v \<ge> 34 then True
      else if major v \<ge> 3 then True
      else False)"

text \<open>\<open>strconv.ParseUint(s, 10, 32)\<close>: decimal digits only, and a value of 32 bits.\<close>

definition ParseUint32 :: "string \<Rightarrow> 32 word option" where
  "ParseUint32 s =
     (if s = [] \<or> \<not> list_all (\<lambda>c. c \<in> set ''0123456789'') s then None
      else
        let n = fold (\<lambda>c acc. acc * 10 + (ord c - 48)) s 0
        in if n < 2 ^ 32 then Some (of_nat n) else None)"

text \<open>\<open>strings.SplitN(s, ".", n)\<close> for positive \<open>n\<close>.\<close>

fun SplitN :: "char \<Rightarrow> nat \<Rightarrow> string \<Rightarrow> string list" where
  "SplitN sep 0 s = []"
| "SplitN sep (Suc 0) s = [s]"
| "SplitN sep (Suc (Suc n)) s =
     (case cut sep s of None \<Rightarrow> [s] | Some (a, b) \<Rightarrow> a # SplitN sep (Suc n) b)"

text \<open>A number of the version: its value and whether it names a release candidate.\<close>

definition parse_number :: "string \<Rightarrow> (32 word \<times> bool) option" where
  "parse_number s =
     (if s = ''GIT'' then Some (0, False)
      else
        (case cut CHR ''-'' s of
           None \<Rightarrow> map_option (\<lambda>n. (n, False)) (ParseUint32 s)
         | Some (a, b) \<Rightarrow> map_option (\<lambda>n. (n, prefix ''rc'' b)) (ParseUint32 a)))"

definition parseVersion :: "string \<Rightarrow> Version option" where
  "parseVersion versionStr =
     (case SplitN CHR ''.'' 4 versionStr of
        a # b # c # rest \<Rightarrow>
          (case (parse_number a, parse_number b, parse_number c) of
             (Some (ma, r1), Some (mi, r2), Some (pa, r3)) \<Rightarrow>
               (let ver = \<lparr> versionString = versionStr, major = ma, minor = mi, patch = pa, rc = r1 \<or> r2 \<or> r3, gl = 0 \<rparr>
                in case rest of
                     [] \<Rightarrow> Some ver
                   | d # _ \<Rightarrow>
                       if prefix ''rc'' d then Some (ver\<lparr>rc := True\<rparr>)
                       else if prefix ''gl'' d then map_option (\<lambda>n. ver\<lparr>gl := n\<rparr>) (ParseUint32 (drop 2 d))
                       else Some ver)
           | _ \<Rightarrow> None)
      | _ \<Rightarrow> None)"

text \<open>The rank of a version: release candidates come before the release.\<close>

definition version_rank :: "Version \<Rightarrow> nat list" where
  "version_rank v = [unat (major v), unat (minor v), unat (patch v), if rc v then 0 else 1, unat (gl v)]"

lemma LessThan_rank: "LessThan v w \<longleftrightarrow> (version_rank v, version_rank w) \<in> lexord {(x, y). x < y}"
  by (auto simp: LessThan_def version_rank_def word_less_nat_alt word_unat_eq_iff)

text \<open>
  \<open>LessThan\<close> is the lexicographic order on the parts of a version, a release candidate being
  older than its release: a strict order in which two versions are only equivalent if all
  their parts agree, so that \<open>IsSupported\<close> never accepts a version older than one it refuses.
\<close>

lemma version_order:
  "\<not> LessThan v v \<and>
   (LessThan u v \<and> LessThan v w \<longrightarrow> LessThan u w) \<and>
   (LessThan v w \<or> LessThan w v \<or> version_rank v = version_rank w) \<and>
   (IsSupported v \<and> LessThan v w \<longrightarrow> IsSupported w)"
proof -
  have irrefl: "\<not> LessThan v v" for v unfolding LessThan_rank by (rule lexord_irreflexive) simp
  have trans: "LessThan u w" if "LessThan u v" "LessThan v w" for u v w
    using that unfolding LessThan_rank by (rule lexord_trans) (auto simp: trans_def)
  have total: "LessThan v w \<or> LessThan w v \<or> version_rank v = version_rank w" for v w
    unfolding LessThan_rank
    using lexord_linear [of "{(x, y :: nat). x < y}" "version_rank v" "version_rank w"] less_linear by blast
  have "IsSupported w" if "IsSupported v" "LessThan v w"
    using that trans [of v w minimumVersion] unfolding IsSupported_def by blast
  with irrefl trans total show ?thesis by blast
qed

end
