(* ===== verification/Diff_Parser.thy ===== *)
theory Diff_Parser
  imports Git_Types "HOL-Library.Monad_Syntax"
begin

text \<open>
  The parser for the output of \<open>git diff --raw --patch\<close> (\<open>internal/gitaly/diff/diff.go\<close>, with the
  helpers of \<open>internal/helper/byte.go\<close>). The buffered reader is the list of bytes that are still to
  come and whether an error ends them: what it has buffered matters only after a look-ahead
  met the end of the stream, when everything that is left is buffered. The regular expressions are
  functions that return the groups. Counters are integers: they are bounded by the length of the stream.
\<close>

section \<open>Bytes\<close>

definition newline :: char where "newline = chr 10"
definition tab :: char where "tab = chr 9"
definition backslash :: char where "backslash = chr 92"
definition quote :: char where "quote = chr 34"

definition ByteSliceHasAnyPrefix :: "string \<Rightarrow> string list \<Rightarrow> bool" where
  "ByteSliceHasAnyPrefix s ps = list_ex (\<lambda>p. prefix p s) ps"

definition IsNumber :: "string \<Rightarrow> bool" where
  "IsNumber s = list_all (\<lambda>c. c \<in> set ''1234567890'') s"

definition UnquoteBytes :: "string \<Rightarrow> string" where
  "UnquoteBytes s = (if length s \<ge> 2 \<and> hd s = quote \<and> last s = quote then butlast (tl s) else s)"

definition parse_octal :: "int \<Rightarrow> string \<Rightarrow> int option" where
  "parse_octal bound s =
     (if s = [] \<or> \<not> list_all (\<lambda>c. c \<in> set ''01234567'') s then None
      else let n = fold (\<lambda>c acc. acc * 8 + (of_char c - 48)) s 0 in if n < bound then Some n else None)"

text \<open>What stands for a backslash followed by the byte.\<close>

definition unescape_byte :: "char \<Rightarrow> string" where
  "unescape_byte c =
     (if c \<in> {quote, backslash, slash, chr 39} then [c]
      else if c = CHR ''b'' then [chr 8]
      else if c = CHR ''f'' then [chr 12]
      else if c = CHR ''n'' then [chr 10]
      else if c = CHR ''r'' then [chr 13]
      else if c = CHR ''t'' then [chr 9]
      else [backslash, c])"

function unescape :: "string \<Rightarrow> string" where
  "unescape [] = []"
| "unescape (c # s) =
     (if c \<noteq> backslash then c # unescape s
      else
        (case (if length s \<ge> 3 \<and> IsNumber (take 3 s) then parse_octal 256 (take 3 s) else None) of
           Some n \<Rightarrow> char_of n # unescape (drop 3 s)
         | None \<Rightarrow> (case s of [] \<Rightarrow> [c] | d # s' \<Rightarrow> unescape_byte d @ unescape s')))"
  by pat_completeness auto
termination
  by (relation "measure length") auto

section \<open>State\<close>

record Diff =
  Binary :: bool
  OverflowMarker :: bool
  Collapsed :: bool
  TooLarge :: bool
  Status :: char
  lineCount :: int
  FromID :: string
  ToID :: string
  OldMode :: "32 word"
  NewMode :: "32 word"
  FromPath :: string
  ToPath :: string
  Patch :: string

definition Reset :: Diff where
  "Reset =
     \<lparr> Binary = False, OverflowMarker = False, Collapsed = False, TooLarge = False, Status = chr 0, lineCount = 0,
       FromID = [], ToID = [], OldMode = 0, NewMode = 0, FromPath = [], ToPath = [], Patch = [] \<rparr>"

record Limits =
  EnforceLimits :: bool
  CollapseDiffs :: bool
  MaxFiles :: int
  MaxLines :: int
  MaxBytes :: int
  SafeMaxFiles :: int
  SafeMaxLines :: int
  SafeMaxBytes :: int
  MaxPatchBytes :: int

datatype diff_error =
    ReadRawLines | PeekLine | ReadHeader | HeaderMismatch | RawLineMismatch | RawOldMode | RawNewMode
  | ReadChunkLine | ReadLine

record byte_stream =
  st_data :: string
  st_fails :: bool

record Parser =
  limits :: Limits
  patchReader :: byte_stream
  rawLines :: "string list"
  currentDiff :: Diff
  nextPatchFromPath :: "string option"
  filesProcessed :: int
  linesProcessed :: int
  bytesProcessed :: int
  finished :: bool
  parser_err :: "diff_error option"

definition enforceUpperBound :: "Limits \<Rightarrow> Limits" where
  "enforceUpperBound l =
     l\<lparr>MaxFiles := min (MaxFiles l) 5000, MaxLines := min (MaxLines l) 250000, MaxBytes := min (MaxBytes l) (5000 * 5120),
       SafeMaxFiles := min (SafeMaxFiles l) 500, SafeMaxLines := min (SafeMaxLines l) 25000,
       SafeMaxBytes := min (SafeMaxBytes l) (500 * 5120), MaxPatchBytes := min (MaxPatchBytes l) 512000\<rparr>"

section \<open>Reading lines\<close>

datatype read_status = LineRead | AtEnd | ReadFailed

definition ReadBytes :: "byte_stream \<Rightarrow> string \<times> read_status \<times> byte_stream" where
  "ReadBytes st =
     (if newline \<in> set (st_data st)
      then (takeWhile (\<lambda>c. c \<noteq> newline) (st_data st) @ [newline], LineRead,
            st\<lparr>st_data := tl (dropWhile (\<lambda>c. c \<noteq> newline) (st_data st))\<rparr>)
      else (st_data st, if st_fails st then ReadFailed else AtEnd, st\<lparr>st_data := []\<rparr>))"

lemma ReadBytes_shrinks:
  "ReadBytes st = (line, status, st') \<Longrightarrow> st_data st \<noteq> [] \<Longrightarrow> length (st_data st') < length (st_data st)"
  "ReadBytes st = (line, status, st') \<Longrightarrow> length (st_data st') \<le> length (st_data st)"
proof -
  have le: "length (dropWhile P xs) \<le> length xs" for P and xs :: string by (rule length_dropWhile_le)
  show "ReadBytes st = (line, status, st') \<Longrightarrow> st_data st \<noteq> [] \<Longrightarrow> length (st_data st') < length (st_data st)"
    using le [of "\<lambda>c. c \<noteq> newline" "st_data st"]
    by (cases "st_data st") (auto simp: ReadBytes_def le_less_trans diff_less split: if_splits)
  then show "ReadBytes st = (line, status, st') \<Longrightarrow> length (st_data st') \<le> length (st_data st)"
    by (cases "st_data st = []") (auto simp: ReadBytes_def)
qed

lemma ReadBytes_line: "ReadBytes st = (line, LineRead, st') \<Longrightarrow> length (st_data st') < length (st_data st)"
  by (rule ReadBytes_shrinks(1)) (auto simp: ReadBytes_def split: if_splits)

function cache_loop :: "byte_stream \<Rightarrow> string list \<Rightarrow> string list \<times> byte_stream \<times> diff_error option" where
  "cache_loop st ls =
     (case ReadBytes st of
        (line, LineRead, st') \<Rightarrow>
          if \<not> prefix '':'' line then (ls, st', None) else cache_loop st' (ls @ [line])
      | (line, AtEnd, st') \<Rightarrow> (ls, st', None)
      | (line, ReadFailed, st') \<Rightarrow> (ls, st', Some ReadRawLines))"
  by pat_completeness auto
termination
  by (relation "measure (\<lambda>(st, ls). length (st_data st))") (auto dest: ReadBytes_line [OF sym])

declare cache_loop.simps [simp del]

definition cacheRawLines :: "Parser \<Rightarrow> byte_stream \<Rightarrow> Parser" where
  "cacheRawLines parser reader =
     (case cache_loop reader [] of
        (ls, st, err) \<Rightarrow>
          parser\<lparr>rawLines := rawLines parser @ ls, patchReader := st, parser_err := err, finished := (err \<noteq> None)\<rparr>)"

definition NewDiffParser :: "byte_stream \<Rightarrow> Limits \<Rightarrow> Parser" where
  "NewDiffParser src ls =
     cacheRawLines
       \<lparr> limits = enforceUpperBound ls, patchReader = src, rawLines = [], currentDiff = Reset, nextPatchFromPath = None,
         filesProcessed = 0, linesProcessed = 0, bytesProcessed = 0, finished = False, parser_err = None \<rparr> src"

section \<open>Raw lines and headers\<close>

fun expect :: "char \<Rightarrow> string \<Rightarrow> string option" where
  "expect c [] = None"
| "expect c (d # s) = (if c = d then Some s else None)"

definition digits1 :: "string \<Rightarrow> (string \<times> string) option" where
  "digits1 s = (let ds = takeWhile (\<lambda>c. c \<in> set ''0123456789'') s in if ds = [] then None else Some (ds, drop (length ds) s))"

definition xdigit40 :: "string \<Rightarrow> (string \<times> string) option" where
  "xdigit40 s =
     (if length s \<ge> 40 \<and> list_all (\<lambda>c. c \<in> set ''0123456789abcdefABCDEF'') (take 40 s) then Some (take 40 s, drop 40 s) else None)"

fun status_group :: "string \<Rightarrow> (char \<times> string) option" where
  "status_group [] = None"
| "status_group (c # s) =
     (if c \<in> set ''ADTUXMRC'' then Some (c, dropWhile (\<lambda>d. d \<in> set ''0123456789'') s) else None)"

text \<open>The groups of \<open>rawLineRegexp\<close>: the modes, the identifiers, the status, one or two paths.\<close>

definition match_raw :: "string \<Rightarrow> (string \<times> string \<times> string \<times> string \<times> char \<times> string \<times> string) option" where
  "match_raw line =
     do {
       s \<leftarrow> expect CHR '':'' (takeWhile (\<lambda>c. c \<noteq> newline) line);
       (m1, s) \<leftarrow> digits1 s;
       s \<leftarrow> expect CHR '' '' s;
       (m2, s) \<leftarrow> digits1 s;
       s \<leftarrow> expect CHR '' '' s;
       (i1, s) \<leftarrow> xdigit40 s;
       s \<leftarrow> expect CHR '' '' s;
       (i2, s) \<leftarrow> xdigit40 s;
       s \<leftarrow> expect CHR '' '' s;
       (c, s) \<leftarrow> status_group s;
       s \<leftarrow> expect tab s;
       (case cut tab s of None \<Rightarrow> Some (m1, m2, i1, i2, c, s, []) | Some (p, q) \<Rightarrow> Some (m1, m2, i1, i2, c, p, q))
     }"

text \<open>The mode is a number of 63 bits, of which 32 are kept.\<close>

definition parseRawLine :: "string \<Rightarrow> Diff \<Rightarrow> diff_error + Diff" where
  "parseRawLine line diff =
     (case match_raw line of
        None \<Rightarrow> Inl RawLineMismatch
      | Some (m1, m2, i1, i2, c, p, q) \<Rightarrow>
          (case parse_octal (2 ^ 63) m1 of
             None \<Rightarrow> Inl RawOldMode
           | Some oldMode \<Rightarrow>
               (case parse_octal (2 ^ 63) m2 of
                  None \<Rightarrow> Inl RawNewMode
                | Some newMode \<Rightarrow>
                    Inr (diff\<lparr>OldMode := of_int oldMode, NewMode := of_int newMode, FromID := i1, ToID := i2, Status := c,
                              FromPath := unescape (UnquoteBytes p),
                              ToPath := (if c = CHR ''C'' \<or> c = CHR ''R'' then unescape (UnquoteBytes q)
                                         else unescape (UnquoteBytes p))\<rparr>))))"

text \<open>The path in front of the first separator that \<open>diffHeaderRegexp\<close> can match.\<close>

definition at_separator :: "string \<Rightarrow> bool" where
  "at_separator s = ByteSliceHasAnyPrefix s [quote # CHR '' '' # quote # ''b/'', quote # '' b/'', CHR '' '' # quote # ''b/'', '' b/'']"

fun header_path :: "string \<Rightarrow> string option" where
  "header_path [] = None"
| "header_path (c # s) = (if at_separator (c # s) then Some [] else map_option (\<lambda>p. c # p) (header_path s))"

definition match_header :: "string \<Rightarrow> string option" where
  "match_header line =
     (let l = takeWhile (\<lambda>c. c \<noteq> newline) line
      in if prefix (''diff --git '' @ [quote] @ ''a/'') l then header_path (drop (length (''diff --git '' @ [quote] @ ''a/'')) l)
         else if prefix ''diff --git a/'' l then header_path (drop (length ''diff --git a/'') l)
         else None)"

section \<open>Parsing one diff\<close>

definition octal_digits :: "int \<Rightarrow> string" where
  "octal_digits n =
     (if n = 0 then ''0''
      else rev (map (\<lambda>i. ''01234567'' ! nat (n div 8 ^ i mod 8)) (filter (\<lambda>i. n div 8 ^ i \<noteq> 0) [0..<11])))"

definition fmt_o :: "32 word \<Rightarrow> string" where
  "fmt_o w = (if sint w < 0 then CHR ''-'' # octal_digits (- sint w) else octal_digits (sint w))"

definition handleTypeChangeDiff :: "Parser \<Rightarrow> Parser" where
  "handleTypeChangeDiff parser =
     (let d = currentDiff parser;
          newRawLine = '':0 '' @ fmt_o (NewMode d) @ '' '' @ ZeroOID @ '' '' @ ToID d @ '' A'' @ [tab] @ FromPath d @ [newline]
      in parser\<lparr>currentDiff := d\<lparr>NewMode := 0, ToID := ZeroOID\<rparr>, rawLines := newRawLine # rawLines parser\<rparr>)"

definition nextRawLine :: "Parser \<Rightarrow> string \<times> Parser" where
  "nextRawLine parser =
     (case rawLines parser of [] \<Rightarrow> ([], parser) | line # ls \<Rightarrow> (line, parser\<lparr>rawLines := ls\<rparr>))"

definition initializeCurrentDiff :: "Parser \<Rightarrow> bool \<times> Parser" where
  "initializeCurrentDiff parser =
     (case nextRawLine (parser\<lparr>currentDiff := Reset\<rparr>) of
        (line, p) \<Rightarrow>
          (case parseRawLine line (currentDiff p) of
             Inl err \<Rightarrow> (False, p\<lparr>parser_err := Some err\<rparr>)
           | Inr d \<Rightarrow>
               (let p1 = p\<lparr>currentDiff := d\<rparr>;
                    p2 = (if Status d = CHR ''T'' then handleTypeChangeDiff p1 else p1)
                in (True, p2\<lparr>filesProcessed := filesProcessed p2 + 1\<rparr>))))"

definition findNextPatchFromPath :: "Parser \<Rightarrow> bool \<times> Parser" where
  "findNextPatchFromPath parser =
     (if nextPatchFromPath parser \<noteq> None then (True, parser)
      else
        (case ReadBytes (patchReader parser) of
           (line, ReadFailed, st) \<Rightarrow> (False, parser\<lparr>patchReader := st, parser_err := Some ReadHeader\<rparr>)
         | (line, AtEnd, st) \<Rightarrow> (True, parser\<lparr>patchReader := st\<rparr>)
         | (line, LineRead, st) \<Rightarrow>
             (case match_header line of
                Some m \<Rightarrow>
                  (True, parser\<lparr>patchReader := st, nextPatchFromPath := (if unescape m = [] then None else Some (unescape m))\<rparr>)
              | None \<Rightarrow> (False, parser\<lparr>patchReader := st, parser_err := Some HeaderMismatch\<rparr>))))"

text \<open>On a failed read the patch of the diff is not used any more and left as it was.\<close>

definition consumeChunkLine :: "bool \<Rightarrow> Parser \<Rightarrow> Parser" where
  "consumeChunkLine updateLineStats parser =
     (case ReadBytes (patchReader parser) of
        (line, status, st) \<Rightarrow>
          if status = ReadFailed then parser\<lparr>patchReader := st, parser_err := Some ReadChunkLine\<rparr>
          else
            let p = parser\<lparr>patchReader := st, currentDiff := (currentDiff parser)\<lparr>Patch := Patch (currentDiff parser) @ line\<rparr>\<rparr>
            in if updateLineStats
               then p\<lparr>bytesProcessed := bytesProcessed p + int (length line),
                      currentDiff := (currentDiff p)\<lparr>lineCount := lineCount (currentDiff p) + 1\<rparr>,
                      linesProcessed := linesProcessed p + 1\<rparr>
               else p)"

definition consumeLine :: "bool \<Rightarrow> Parser \<Rightarrow> Parser" where
  "consumeLine updateStats parser =
     (case ReadBytes (patchReader parser) of
        (line, status, st) \<Rightarrow>
          if status = ReadFailed then parser\<lparr>patchReader := st, parser_err := Some ReadLine\<rparr>
          else
            let p = parser\<lparr>patchReader := st\<rparr>
            in if updateStats
               then p\<lparr>currentDiff := (currentDiff p)\<lparr>lineCount := lineCount (currentDiff p) + 1\<rparr>,
                      linesProcessed := linesProcessed p + 1, bytesProcessed := bytesProcessed p + int (length line)\<rparr>
               else p)"

definition isParsingChunkLines :: "Parser \<Rightarrow> bool" where
  "isParsingChunkLines parser \<longleftrightarrow> Patch (currentDiff parser) \<noteq> []"

text \<open>What is done with a line whose first bytes are known.\<close>

definition consume_next :: "string \<Rightarrow> Parser \<Rightarrow> Parser" where
  "consume_next line parser =
     (if prefix ''@@'' line then consumeChunkLine False parser
      else if ByteSliceHasAnyPrefix line [''---'', ''+++''] \<and> \<not> isParsingChunkLines parser then consumeLine False parser
      else if prefix (CHR ''~'' # [newline]) line then consumeChunkLine True parser
      else if prefix ''Binary'' line
      then consumeChunkLine True (parser\<lparr>currentDiff := (currentDiff parser)\<lparr>Binary := True\<rparr>\<rparr>)
      else if ByteSliceHasAnyPrefix line [''-'', ''+'', '' '', [backslash]] then consumeChunkLine True parser
      else consumeLine False parser)"

lemma consumeChunkLine_reader: "patchReader (consumeChunkLine b p) = snd (snd (ReadBytes (patchReader p)))"
  by (simp add: consumeChunkLine_def Let_def split: prod.split)

lemma consumeLine_reader: "patchReader (consumeLine b p) = snd (snd (ReadBytes (patchReader p)))"
  by (simp add: consumeLine_def Let_def split: prod.split)

lemma consume_next_reader: "patchReader (consume_next line p) = snd (snd (ReadBytes (patchReader p)))"
  by (simp add: consume_next_def consumeChunkLine_reader consumeLine_reader)

lemma double_less_Suc: "2 * a < Suc (2 * b) \<longleftrightarrow> a \<le> b" for a b :: nat
  by linarith

lemma consume_next_shrinks:
  "length (st_data (patchReader (consume_next line p))) \<le> length (st_data (patchReader p))"
  "st_data (patchReader p) \<noteq> [] \<Longrightarrow>
   length (st_data (patchReader (consume_next line p))) < length (st_data (patchReader p))"
proof -
  obtain l status st where rd: "ReadBytes (patchReader p) = (l, status, st)" by (cases "ReadBytes (patchReader p)") auto
  with ReadBytes_shrinks [OF rd]
  show "length (st_data (patchReader (consume_next line p))) \<le> length (st_data (patchReader p))"
    "st_data (patchReader p) \<noteq> [] \<Longrightarrow>
     length (st_data (patchReader (consume_next line p))) < length (st_data (patchReader p))"
    by (simp_all add: consume_next_reader)
qed

function patch_loop :: "bool \<Rightarrow> Parser \<Rightarrow> Parser" where
  "patch_loop currentPatchDone parser =
     (let st = patchReader parser; eof = length (st_data st) < 10; line = take 10 (st_data st)
      in if currentPatchDone \<and> st_data st = [] then parser
         else if eof \<and> st_fails st then parser\<lparr>parser_err := Some PeekLine\<rparr>
         else if prefix ''diff --git'' line then parser
         else
           let p = consume_next line parser
           in if parser_err p \<noteq> None then p else patch_loop (currentPatchDone \<or> eof) p)"
  by pat_completeness auto
termination
  by (relation "measure (\<lambda>(currentPatchDone, p). 2 * length (st_data (patchReader p)) + (if currentPatchDone then 0 else 1))")
     (auto simp: consume_next_shrinks double_less_Suc intro!: consume_next_shrinks(2))

declare patch_loop.simps [simp del]

definition prunePatch :: "Parser \<Rightarrow> Parser" where
  "prunePatch parser =
     parser\<lparr>linesProcessed := linesProcessed parser - lineCount (currentDiff parser),
            bytesProcessed := bytesProcessed parser - int (length (Patch (currentDiff parser))),
            currentDiff := (currentDiff parser)\<lparr>Patch := []\<rparr>\<rparr>"

definition isOverSafeLimits :: "Parser \<Rightarrow> bool" where
  "isOverSafeLimits parser \<longleftrightarrow>
     filesProcessed parser > SafeMaxFiles (limits parser) \<or> linesProcessed parser > SafeMaxLines (limits parser) \<or>
     bytesProcessed parser > SafeMaxBytes (limits parser)"

definition collapse :: "Parser \<Rightarrow> Parser" where
  "collapse p =
     (if CollapseDiffs (limits p) \<and> isOverSafeLimits p \<and> lineCount (currentDiff p) > 0
      then let q = prunePatch p in q\<lparr>currentDiff := (currentDiff q)\<lparr>Collapsed := True\<rparr>\<rparr>
      else p)"

definition enforce_limits :: "Parser \<Rightarrow> Parser" where
  "enforce_limits p =
     (if \<not> EnforceLimits (limits p) then p
      else
        let q = (if int (length (Patch (currentDiff p))) \<ge> MaxPatchBytes (limits p)
                 then let r = prunePatch p in r\<lparr>currentDiff := (currentDiff r)\<lparr>TooLarge := True\<rparr>\<rparr>
                 else p);
            maxFilesExceeded = (filesProcessed q > MaxFiles (limits q));
            maxBytesOrLinesExceeded = (bytesProcessed q \<ge> MaxBytes (limits q) \<or> linesProcessed q \<ge> MaxLines (limits q))
        in if maxFilesExceeded \<or> maxBytesOrLinesExceeded
           then q\<lparr>finished := True, currentDiff := Reset\<lparr>OverflowMarker := True\<rparr>\<rparr>
           else q)"

definition diff_Parse :: "Parser \<Rightarrow> bool \<times> Parser" where
  "diff_Parse parser =
     (if finished parser \<or> rawLines parser = [] then (False, parser\<lparr>patchReader := (patchReader parser)\<lparr>st_data := []\<rparr>\<rparr>)
      else
        (case initializeCurrentDiff parser of
           (False, p) \<Rightarrow> (False, p)
         | (True, p1) \<Rightarrow>
             (case findNextPatchFromPath p1 of
                (False, p) \<Rightarrow> (False, p)
              | (True, p2) \<Rightarrow>
                  if (case nextPatchFromPath p2 of None \<Rightarrow> [] | Some path \<Rightarrow> path) \<noteq> FromPath (currentDiff p2) then (True, p2)
                  else
                    let p3 = patch_loop False (p2\<lparr>nextPatchFromPath := None\<rparr>)
                    in if parser_err p3 \<noteq> None then (False, p3) else (True, enforce_limits (collapse p3)))))"

text \<open>
  The loop of the callers: the diffs that are handed out, and the parser at the end. \<open>None\<close> if \<open>n\<close>
  calls are not enough.
\<close>

fun parse_all :: "nat \<Rightarrow> Parser \<Rightarrow> (Diff list \<times> Parser) option" where
  "parse_all 0 p = None"
| "parse_all (Suc n) p =
     (case diff_Parse p of
        (False, q) \<Rightarrow> Some ([], q)
      | (True, q) \<Rightarrow> map_option (\<lambda>(ds, r). (currentDiff q # ds, r)) (parse_all n q))"

end
