(* ===== verification/Diff_Props.thy ===== *)
theory Diff_Props
  imports Diff_Parser
begin

text \<open>
  Properties of the parser for diffs: it ends, it keeps the limits that a caller asked for, and it
  reads the paths that git writes with escapes. Some inputs on which it does not do what it means to
  are at the end.
\<close>

section \<open>Paths\<close>

text \<open>How git writes a byte of a path between double quotes.\<close>

definition octal3 :: "int \<Rightarrow> string" where
  "octal3 n = [''01234567'' ! nat (n div 64), ''01234567'' ! nat (n div 8 mod 8), ''01234567'' ! nat (n mod 8)]"

definition git_letter :: "nat \<Rightarrow> char option" where
  "git_letter n =
     map_of [(7, CHR ''a''), (8, CHR ''b''), (9, CHR ''t''), (10, CHR ''n''), (11, CHR ''v''), (12, CHR ''f''), (13, CHR ''r''),
             (34, chr 34), (92, chr 92)] n"

definition git_quote_byte :: "char \<Rightarrow> string" where
  "git_quote_byte c =
     (case git_letter (ord c) of
        Some l \<Rightarrow> [backslash, l]
      | None \<Rightarrow> if ord c < 32 \<or> ord c \<ge> 127 then backslash # octal3 (of_char c) else [c])"

lemma of_char_byte: "0 \<le> (of_char c :: int)" "(of_char c :: int) < 256"
  by (metis of_nat_of_char of_nat_0_le_iff) (metis of_nat_of_char ord_less ord_def of_nat_less_iff of_nat_numeral)

lemma octal_char:
  assumes "0 \<le> k" "k < 8"
  shows "''01234567'' ! nat k \<in> set ''01234567''" "''01234567'' ! nat k \<in> set ''1234567890''" "of_char (''01234567'' ! nat k) = 48 + k"
proof -
  have "nat k \<in> set [0..<8]" using assms by auto
  moreover have "list_all (\<lambda>k. ''01234567'' ! k \<in> set ''01234567'' \<and> ''01234567'' ! k \<in> set ''1234567890'' \<and>
      of_char (''01234567'' ! k) = 48 + int k) [0..<8]" by code_simp
  ultimately have "''01234567'' ! nat k \<in> set ''01234567'' \<and> ''01234567'' ! nat k \<in> set ''1234567890'' \<and>
      of_char (''01234567'' ! nat k) = 48 + int (nat k)" unfolding list_all_iff by blast
  then show "''01234567'' ! nat k \<in> set ''01234567''" "''01234567'' ! nat k \<in> set ''1234567890''" "of_char (''01234567'' ! nat k) = 48 + k"
    using assms(1) by (blast, blast, simp only: int_nat_eq if_True)
qed

lemma octal3_reads_back:
  assumes "0 \<le> n" "n < 256"
  shows "IsNumber (octal3 n) \<and> parse_octal 256 (octal3 n) = Some n"
proof -
  define a b c where "a = ''01234567'' ! nat (n div 64)" and "b = ''01234567'' ! nat (n div 8 mod 8)" and "c = ''01234567'' ! nat (n mod 8)"
  have "0 \<le> n div 64" "n div 64 < 8" "0 \<le> n div 8 mod 8" "n div 8 mod 8 < 8" "0 \<le> n mod 8" "n mod 8 < 8" using assms by auto
  note ok = octal_char [OF this(1,2), folded a_def] octal_char [OF this(3,4), folded b_def] octal_char [OF this(5,6), folded c_def]
  have "n div 64 = n div 8 div 8" using zdiv_zmult2_eq [of 8 n 8] by simp
  then have sum: "(n div 64 * 8 + n div 8 mod 8) * 8 + n mod 8 = n" by simp
  have o: "octal3 n = [a, b, c]" by (simp add: octal3_def a_def b_def c_def)
  have "IsNumber [a, b, c]" unfolding IsNumber_def using ok by (simp only: list.pred_inject simp_thms)
  moreover have "list_all (\<lambda>c. c \<in> set ''01234567'') [a, b, c]" using ok by (simp only: list.pred_inject simp_thms)
  moreover have "fold (\<lambda>c acc. acc * 8 + (of_char c - 48)) [a, b, c] 0 = n" using ok sum by (simp only: fold.simps o_apply id_apply) simp
  ultimately show ?thesis unfolding o parse_octal_def Let_def using assms(2) by (simp only: if_False if_True not_True_eq_False list.distinct simp_thms)
qed

lemma unescape_plain: "c \<noteq> backslash \<Longrightarrow> unescape (c # s) = c # unescape s"
  by simp

lemma unescape_octal:
  assumes "0 \<le> n" "n < 256"
  shows "unescape (backslash # octal3 n @ s) = char_of n # unescape s"
proof -
  have "take 3 (octal3 n @ s) = octal3 n" "drop 3 (octal3 n @ s) = s" "length (octal3 n @ s) \<ge> 3" by (simp_all add: octal3_def)
  with octal3_reads_back [OF assms] show ?thesis by simp
qed

lemma unescape_letter:
  assumes "d \<notin> set ''1234567890''"
  shows "unescape (backslash # d # s) = unescape_byte d @ unescape s"
  using assms by (simp add: IsNumber_def take_Cons')

lemma unescape_quoted_byte:
  assumes "ord c \<noteq> 7" "ord c \<noteq> 11"
  shows "unescape (git_quote_byte c @ s) = c # unescape s"
proof (cases "git_letter (ord c)")
  case None
  then have "ord c \<noteq> 92" by (auto simp: git_letter_def)
  from \<open>ord c \<noteq> 92\<close> have plain: "c \<noteq> backslash" by (auto simp: backslash_def chr_def ord_def)
  show ?thesis
    using None plain unescape_octal [OF of_char_byte, of c s] by (simp add: git_quote_byte_def del: unescape.simps(2) add: unescape_plain)
next
  case (Some l)
  have ok: "l \<notin> set ''1234567890'' \<and> unescape_byte l = [chr n]"
    if "git_letter n = Some l" "n \<noteq> 7" "n \<noteq> 11" for n
  proof -
    have "list_all (\<lambda>(n, l). n = 7 \<or> n = 11 \<or> l \<notin> set ''1234567890'' \<and> unescape_byte l = [chr n])
       [(7, CHR ''a''), (8, CHR ''b''), (9, CHR ''t''), (10, CHR ''n''), (11, CHR ''v''), (12, CHR ''f''), (13, CHR ''r''),
        (34, chr 34), (92, chr 92)]"
      by code_simp
    with map_of_SomeD [OF that(1) [unfolded git_letter_def]] that(2,3) show ?thesis unfolding list_all_iff by fastforce
  qed
  from ok [OF Some assms] unescape_letter show ?thesis by (simp add: git_quote_byte_def Some)
qed

text \<open>
  C40. A path that git writes with its escapes is read back byte by byte, whatever the bytes
  are, bells and vertical tabs apart.
\<close>

theorem unescape_reads_git_paths:
  assumes "list_all (\<lambda>c. ord c \<noteq> 7 \<and> ord c \<noteq> 11) path"
  shows "unescape (UnquoteBytes ([quote] @ concat (map git_quote_byte path) @ [quote])) = path"
proof -
  have "unescape (concat (map git_quote_byte path)) = path"
    using assms by (induction path) (simp_all add: unescape_quoted_byte del: unescape.simps(2))
  then show ?thesis by (simp add: UnquoteBytes_def)
qed

theorem unescape_reads_git_paths_witness:
  "unescape (UnquoteBytes ([quote] @ concat (map git_quote_byte [chr 195, chr 169, chr 9, CHR ''1'', backslash, quote]) @ [quote])) =
     [chr 195, chr 169, chr 9, CHR ''1'', backslash, quote]"
  by (rule unescape_reads_git_paths) code_simp

text \<open>The two escapes that are not undone.\<close>

lemma bell_is_not_unescaped: "unescape (git_quote_byte (chr 7)) \<noteq> [chr 7]" "unescape (git_quote_byte (chr 11)) \<noteq> [chr 11]"
  by code_simp+

section \<open>What one call changes\<close>

definition keeps :: "Parser \<Rightarrow> Parser \<Rightarrow> bool" where
  "keeps p q \<longleftrightarrow> limits q = limits p \<and> filesProcessed q = filesProcessed p \<and> rawLines q = rawLines p \<and>
     OverflowMarker (currentDiff q) = OverflowMarker (currentDiff p) \<and> finished q = finished p"

lemma keeps_refl [simp]: "keeps p p"
  by (simp add: keeps_def)

lemma keeps_trans: "keeps p q \<Longrightarrow> keeps q r \<Longrightarrow> keeps p r"
  by (simp add: keeps_def)

lemma consumeChunkLine_keeps: "keeps p (consumeChunkLine b p)"
  by (simp add: keeps_def consumeChunkLine_def Let_def split: prod.split)

lemma consumeLine_keeps: "keeps p (consumeLine b p)"
  by (simp add: keeps_def consumeLine_def Let_def split: prod.split)

lemma consume_next_keeps: "keeps p (consume_next line p)"
proof -
  have "keeps p (consumeChunkLine True (p\<lparr>currentDiff := (currentDiff p)\<lparr>Binary := True\<rparr>\<rparr>))"
    by (rule keeps_trans [OF _ consumeChunkLine_keeps]) (simp add: keeps_def)
  then show ?thesis by (simp add: consume_next_def consumeChunkLine_keeps consumeLine_keeps)
qed

lemma patch_loop_keeps: "keeps p (patch_loop b p)"
proof (induction b p rule: patch_loop.induct)
  case (1 b p)
  let ?d = "st_data (patchReader p)"
  let ?q = "consume_next (take 10 ?d) p" and ?b = "b \<or> length ?d < 10"
  have err: "keeps p (p\<lparr>parser_err := e\<rparr>)" for e by (simp add: keeps_def)
  have rec: "keeps p (patch_loop ?b ?q)"
    if "\<not> (b \<and> ?d = [])" "\<not> (length ?d < 10 \<and> st_fails (patchReader p))" "\<not> prefix ''diff --git'' (take 10 ?d)" "\<not> parser_err ?q \<noteq> None"
    using keeps_trans [OF consume_next_keeps "1.IH" [OF refl refl refl that(1-3) refl that(4)]] .
  show ?case unfolding patch_loop.simps [of b p] Let_def
    by (simp only: keeps_refl err consume_next_keeps split: if_split) (use rec in blast)
qed

lemma parseRawLine_ok:
  assumes "parseRawLine line d = Inr e"
  shows "Patch e = Patch d \<and> OverflowMarker e = OverflowMarker d \<and>
         (\<exists>m1 m2 p q. match_raw line = Some (m1, m2, FromID e, ToID e, Status e, p, q))"
  using assms by (auto simp: parseRawLine_def split: option.splits)

lemma handleTypeChangeDiff_keeps:
  "limits (handleTypeChangeDiff p) = limits p" "filesProcessed (handleTypeChangeDiff p) = filesProcessed p"
  "finished (handleTypeChangeDiff p) = finished p" "Patch (currentDiff (handleTypeChangeDiff p)) = Patch (currentDiff p)"
  "OverflowMarker (currentDiff (handleTypeChangeDiff p)) = OverflowMarker (currentDiff p)"
  by (simp_all add: handleTypeChangeDiff_def Let_def)

lemma initializeCurrentDiff_ok:
  assumes "initializeCurrentDiff p = (True, q)"
  shows "limits q = limits p \<and> filesProcessed q = filesProcessed p + 1 \<and> finished q = finished p \<and>
         Patch (currentDiff q) = [] \<and> \<not> OverflowMarker (currentDiff q)"
proof -
  let ?p = "p\<lparr>currentDiff := Reset\<rparr>"
  obtain line r where r: "nextRawLine ?p = (line, r)" by (cases "nextRawLine ?p")
  then have same: "limits r = limits p" "filesProcessed r = filesProcessed p" "finished r = finished p" "currentDiff r = Reset"
    by (auto simp: nextRawLine_def split: list.splits)
  from assms r obtain d where d: "parseRawLine line (currentDiff r) = Inr d"
    and q: "q = (let p2 = (if Status d = CHR ''T'' then handleTypeChangeDiff (r\<lparr>currentDiff := d\<rparr>) else r\<lparr>currentDiff := d\<rparr>)
                 in p2\<lparr>filesProcessed := filesProcessed p2 + 1\<rparr>)"
    by (auto simp: initializeCurrentDiff_def Let_def split: sum.splits)
  from parseRawLine_ok [OF d] same q show ?thesis by (simp add: Let_def handleTypeChangeDiff_keeps Reset_def)
qed

lemma findNextPatchFromPath_ok:
  assumes "findNextPatchFromPath p = (True, q)"
  shows "keeps p q \<and> currentDiff q = currentDiff p"
  using assms by (auto simp: findNextPatchFromPath_def keeps_def split: if_splits prod.splits read_status.splits option.splits)

lemma collapse_keeps: "keeps p (collapse p)"
  by (simp add: keeps_def collapse_def prunePatch_def Let_def)

lemma enforce_limits_ok:
  assumes "EnforceLimits (limits p)" "\<not> OverflowMarker (currentDiff p)"
  shows "limits (enforce_limits p) = limits p \<and> filesProcessed (enforce_limits p) = filesProcessed p \<and>
         (OverflowMarker (currentDiff (enforce_limits p)) \<longrightarrow> finished (enforce_limits p)) \<and>
         (Patch (currentDiff (enforce_limits p)) = [] \<or>
          int (length (Patch (currentDiff (enforce_limits p)))) < MaxPatchBytes (limits p) \<and> filesProcessed p \<le> MaxFiles (limits p))"
  using assms by (simp add: enforce_limits_def prunePatch_def Let_def Reset_def)

lemma diff_Parse_ok:
  assumes "diff_Parse p = (True, q)" "EnforceLimits (limits p)"
  shows "limits q = limits p \<and> filesProcessed q = filesProcessed p + 1 \<and>
         (OverflowMarker (currentDiff q) \<longrightarrow> finished q) \<and>
         (Patch (currentDiff q) = [] \<or>
          int (length (Patch (currentDiff q))) < MaxPatchBytes (limits p) \<and> filesProcessed q \<le> MaxFiles (limits p))"
proof -
  from assms(1) obtain p1 where p1: "initializeCurrentDiff p = (True, p1)"
    by (auto simp: diff_Parse_def split: if_splits prod.splits bool.splits)
  with assms(1) obtain p2 where p2: "findNextPatchFromPath p1 = (True, p2)"
    by (auto simp: diff_Parse_def split: if_splits prod.splits bool.splits)
  note i = initializeCurrentDiff_ok [OF p1] and f = findNextPatchFromPath_ok [OF p2]
  define p3 where "p3 = patch_loop False (p2\<lparr>nextPatchFromPath := None\<rparr>)"
  have "q = p2 \<or> q = enforce_limits (collapse p3)"
    using assms(1) p1 p2 unfolding diff_Parse_def by (auto simp: Let_def p3_def split: if_splits)
  then show ?thesis
  proof
    assume "q = p2"
    with i f show ?thesis by (simp add: keeps_def)
  next
    assume q: "q = enforce_limits (collapse p3)"
    have "keeps (p2\<lparr>nextPatchFromPath := None\<rparr>) (collapse p3)"
      unfolding p3_def by (rule keeps_trans [OF patch_loop_keeps collapse_keeps])
    with i f have c: "limits (collapse p3) = limits p" "filesProcessed (collapse p3) = filesProcessed p + 1"
      "\<not> OverflowMarker (currentDiff (collapse p3))" by (simp_all add: keeps_def)
    with enforce_limits_ok [of "collapse p3"] assms(2) q show ?thesis by simp
  qed
qed

section \<open>Limits\<close>

lemma finished_ends: "finished p \<Longrightarrow> parse_all n p = Some (ds, q) \<Longrightarrow> ds = []"
  by (cases n) (auto simp: diff_Parse_def)

lemma parse_all_limits:
  "parse_all n p = Some (ds, q) \<Longrightarrow> EnforceLimits (limits p) \<Longrightarrow>
   list_all (\<lambda>d. Patch d = [] \<or> int (length (Patch d)) < MaxPatchBytes (limits p)) ds \<and>
   length (filter (\<lambda>d. Patch d \<noteq> []) ds) \<le> nat (MaxFiles (limits p) - filesProcessed p) \<and>
   list_all (\<lambda>d. \<not> OverflowMarker d) (butlast ds)"
proof (induction n p arbitrary: ds rule: parse_all.induct)
  case (2 n p)
  show ?case
  proof (cases "fst (diff_Parse p)")
    case False
    with "2.prems" show ?thesis by (auto split: prod.splits)
  next
    case True
    then obtain r where r: "diff_Parse p = (True, r)" by (cases "diff_Parse p") auto
    from "2.prems"(1) r obtain es where es: "parse_all n r = Some (es, q)" "ds = currentDiff r # es" by auto
    note ok = diff_Parse_ok [OF r "2.prems"(2)]
    have lim: "EnforceLimits (limits r)" using ok "2.prems"(2) by simp
    have "list_all (\<lambda>d. Patch d = [] \<or> int (length (Patch d)) < MaxPatchBytes (limits p)) es"
      and len: "length (filter (\<lambda>d. Patch d \<noteq> []) es) \<le> nat (MaxFiles (limits p) - (filesProcessed p + 1))"
      and "list_all (\<lambda>d. \<not> OverflowMarker d) (butlast es)"
      using "2.IH" [OF r [symmetric] refl es(1) lim] ok by simp_all
    moreover have "length (filter (\<lambda>d. Patch d \<noteq> []) ds) \<le> nat (MaxFiles (limits p) - filesProcessed p)"
      using len ok unfolding es(2) by (cases "Patch (currentDiff r) = []") auto
    moreover have "OverflowMarker (currentDiff r) \<Longrightarrow> es = []"
      using ok finished_ends [OF _ es(1)] by simp
    ultimately show ?thesis using ok unfolding es(2) by (cases es) auto
  qed
qed simp

lemma NewDiffParser_limits: "limits (NewDiffParser src l) = enforceUpperBound l" "filesProcessed (NewDiffParser src l) = 0"
  by (simp_all add: NewDiffParser_def cacheRawLines_def split: prod.split)

text \<open>
  C38. With enforced limits, whatever git writes and however often the parser is called: no patch
  that is handed out reaches the limit for a single patch or 512000 bytes, at most as many
  patches are handed out as files are allowed, at most 5000, and nothing follows the marker
  of an overflow.
\<close>

theorem diff_limits_hold:
  assumes "parse_all n (NewDiffParser src l) = Some (ds, q)" "EnforceLimits l"
  shows "list_all (\<lambda>d. Patch d = [] \<or> int (length (Patch d)) < min (MaxPatchBytes l) 512000) ds \<and>
         length (filter (\<lambda>d. Patch d \<noteq> []) ds) \<le> nat (min (MaxFiles l) 5000) \<and>
         list_all (\<lambda>d. \<not> OverflowMarker d) (butlast ds)"
proof -
  have "EnforceLimits (limits (NewDiffParser src l))"
    using assms(2) by (simp add: NewDiffParser_limits enforceUpperBound_def)
  from parse_all_limits [OF assms(1) this] show ?thesis
    by (simp add: NewDiffParser_limits enforceUpperBound_def)
qed

section \<open>The parser ends\<close>

definition line_weight :: "string \<Rightarrow> nat" where
  "line_weight line =
     (case match_raw line of Some (_, _, _, _, c, _, _) \<Rightarrow> if c = CHR ''T'' then 2 else 1 | None \<Rightarrow> 1)"

lemma digits1_space: "list_all (\<lambda>c. c \<in> set ''0123456789'') ds \<Longrightarrow>
    digits1 (ds @ CHR '' '' # s) = (if ds = [] then None else Some (ds, CHR '' '' # s))"
  by (simp add: digits1_def Let_def takeWhile_append list_all_iff)

lemma octal_digits_ok: "list_all (\<lambda>c. c \<in> set ''0123456789'') (octal_digits n)"
proof -
  have "''01234567'' ! nat (k mod 8) \<in> set ''0123456789''" for k :: int
  proof -
    have "k mod 8 < 8" by simp
    then have "nat (k mod 8) \<in> set [0..<8]" by auto
    moreover have "list_all (\<lambda>j. ''01234567'' ! j \<in> set ''0123456789'') [0..<8]" by code_simp
    ultimately show ?thesis unfolding list_all_iff by blast
  qed
  then show ?thesis unfolding octal_digits_def by (auto simp: list_all_iff)
qed

lemma match_raw_ids:
  "match_raw line = Some (m1, m2, i1, i2, c, p, q) \<Longrightarrow> length i2 = 40 \<and> list_all (\<lambda>c. c \<in> set ''0123456789abcdefABCDEF'') i2"
  by (auto simp: match_raw_def xdigit40_def split: option.splits if_splits bind_splits)

text \<open>The line that is put back for a changed type is that of an addition.\<close>

lemma added_line_weight:
  assumes "length i = 40" "list_all (\<lambda>c. c \<in> set ''0123456789abcdefABCDEF'') i"
  shows "line_weight ('':0 '' @ fmt_o w @ '' '' @ ZeroOID @ '' '' @ i @ '' A'' @ [tab] @ path @ [newline]) = 1"
proof -
  let ?x = "'':0 '' @ fmt_o w @ '' '' @ ZeroOID @ '' '' @ i @ '' A'' @ [tab]"
  have nl: "newline \<notin> set ''0123456789abcdefABCDEF''" "newline \<notin> set ''0123456789''" "newline \<notin> set '':0 A-''" "newline \<noteq> tab"
    "newline \<notin> set ZeroOID" by code_simp+
  have "newline \<notin> set i" using assms(2) nl(1) unfolding list_all_iff by blast
  moreover have "newline \<notin> set (octal_digits n)" for n using octal_digits_ok [of n] nl(2) unfolding list_all_iff by blast
  then have "newline \<notin> set (fmt_o w)" using nl(3) by (auto simp: fmt_o_def)
  ultimately have "newline \<notin> set ?x" using nl by auto
  then have "takeWhile (\<lambda>c. c \<noteq> newline) (?x @ path @ [newline]) = ?x @ takeWhile (\<lambda>c. c \<noteq> newline) (path @ [newline])"
    by (intro takeWhile_append2) auto
  then obtain t where t: "takeWhile (\<lambda>c. c \<noteq> newline) (?x @ path @ [newline]) = ?x @ t" by blast
  have one: "digits1 (''0'' @ CHR '' '' # s) = Some (''0'', CHR '' '' # s)" for s by (subst digits1_space) simp_all
  have zero: "xdigit40 (ZeroOID @ s) = Some (ZeroOID, s)" for s
  proof -
    have "length ZeroOID = 40" "list_all (\<lambda>c. c \<in> set ''0123456789abcdefABCDEF'') ZeroOID" by code_simp+
    then show ?thesis by (simp add: xdigit40_def)
  qed
  have two: "xdigit40 (i @ s) = Some (i, s)" for s using assms by (simp add: xdigit40_def)
  have mode: "digits1 (fmt_o w @ CHR '' '' # s) \<in> {None, Some (fmt_o w, CHR '' '' # s)}" for s
    using digits1_space [OF octal_digits_ok, of "sint w" s] by (auto simp: fmt_o_def digits1_def)
  have "tab \<notin> set ''0123456789''" by code_simp
  then have status: "status_group (CHR ''A'' # tab # s) = Some (CHR ''A'', tab # s)" for s by simp
  have "c = CHR ''A''" if "match_raw (?x @ path @ [newline]) = Some (m1, m2, i1, i2, c, p, q)" for m1 m2 i1 i2 c p q
    using that one [of "fmt_o w @ '' '' @ ZeroOID @ '' '' @ i @ '' A'' @ [tab] @ t"]
      mode [of "ZeroOID @ '' '' @ i @ '' A'' @ [tab] @ t"]
    unfolding match_raw_def t by (auto simp: zero two status simp del: status_group.simps split: option.splits)
  then have "line_weight (?x @ path @ [newline]) = 1" unfolding line_weight_def by (auto split: option.split)
  then show ?thesis by simp
qed

definition total_weight :: "Parser \<Rightarrow> nat" where
  "total_weight p = sum_list (map line_weight (rawLines p))"

lemma initializeCurrentDiff_weight:
  assumes "initializeCurrentDiff p = (True, q)" "rawLines p \<noteq> []"
  shows "total_weight q < total_weight p"
proof -
  from assms(2) obtain line ls where ls: "rawLines p = line # ls" by (cases "rawLines p") auto
  let ?r = "p\<lparr>currentDiff := Reset, rawLines := ls\<rparr>"
  have "nextRawLine (p\<lparr>currentDiff := Reset\<rparr>) = (line, ?r)" by (simp add: nextRawLine_def ls)
  with assms(1) obtain d where d: "parseRawLine line Reset = Inr d"
    and q: "rawLines q = rawLines (if Status d = CHR ''T'' then handleTypeChangeDiff (?r\<lparr>currentDiff := d\<rparr>) else ?r\<lparr>currentDiff := d\<rparr>)"
    by (auto simp: initializeCurrentDiff_def Let_def split: sum.splits)
  obtain m1 m2 a b where m: "match_raw line = Some (m1, m2, FromID d, ToID d, Status d, a, b)"
    using parseRawLine_ok [OF d] by blast
  show ?thesis
  proof (cases "Status d = CHR ''T''")
    case True
    then have "line_weight line = 2" using m by (simp add: line_weight_def)
    moreover have "rawLines q = ('':0 '' @ fmt_o (NewMode d) @ '' '' @ ZeroOID @ '' '' @ ToID d @ '' A'' @ [tab] @ FromPath d @ [newline]) # ls"
      using q True by (simp add: handleTypeChangeDiff_def Let_def)
    ultimately show ?thesis
      using added_line_weight match_raw_ids [OF m] ls by (simp add: total_weight_def)
  next
    case False
    then have "line_weight line = 1" using m by (simp add: line_weight_def)
    with q False ls show ?thesis by (simp add: total_weight_def)
  qed
qed

lemma enforce_collapse_raw: "rawLines (enforce_limits p) = rawLines p" "rawLines (collapse p) = rawLines p"
  by (simp_all add: enforce_limits_def collapse_def prunePatch_def Let_def)

lemma diff_Parse_weight:
  assumes "diff_Parse p = (True, q)"
  shows "total_weight q < total_weight p"
proof -
  from assms obtain p1 where p1: "initializeCurrentDiff p = (True, p1)" and ne: "rawLines p \<noteq> []"
    by (auto simp: diff_Parse_def split: if_splits prod.splits bool.splits)
  with assms obtain p2 where p2: "findNextPatchFromPath p1 = (True, p2)"
    by (auto simp: diff_Parse_def split: if_splits prod.splits bool.splits)
  have "rawLines (patch_loop False (p2\<lparr>nextPatchFromPath := None\<rparr>)) = rawLines p2"
    using patch_loop_keeps [of "p2\<lparr>nextPatchFromPath := None\<rparr>" False] by (simp add: keeps_def)
  then have "rawLines q = rawLines p2"
    using assms p1 p2 unfolding diff_Parse_def by (auto simp: Let_def enforce_collapse_raw split: if_splits)
  moreover have "rawLines p2 = rawLines p1" using findNextPatchFromPath_ok [OF p2] by (simp add: keeps_def)
  ultimately show ?thesis using initializeCurrentDiff_weight [OF p1 ne] by (simp add: total_weight_def)
qed

lemma parse_all_ends: "total_weight p < n \<Longrightarrow> parse_all n p \<noteq> None"
proof (induction n arbitrary: p)
  case (Suc n)
  obtain ok q where q: "diff_Parse p = (ok, q)" by (cases "diff_Parse p")
  show ?case
  proof (cases ok)
    case True
    with q diff_Parse_weight [of p q] Suc.prems have "total_weight q < n" by simp
    with Suc.IH q True show ?thesis by auto
  qed (use q in simp)
qed simp


section \<open>Examples\<close>

definition raw_line :: "char \<Rightarrow> string \<Rightarrow> string" where
  "raw_line status path = '':0 0 '' @ ZeroOID @ '' '' @ ZeroOID @ '' '' @ [status, tab] @ path @ [newline]"

definition patch_of :: "string \<Rightarrow> string" where
  "patch_of path = ''diff --git a/'' @ path @ '' b/'' @ path @ [newline] @ ''@@ -1 +1 @@'' @ [newline] @ ''+x'' @ [newline]"

definition example_limits :: Limits where
  "example_limits =
     \<lparr> EnforceLimits = True, CollapseDiffs = False, MaxFiles = 10, MaxLines = 10, MaxBytes = 100, SafeMaxFiles = 0, SafeMaxLines = 10,
       SafeMaxBytes = 100, MaxPatchBytes = 50 \<rparr>"

definition example_run :: "Limits \<Rightarrow> string \<Rightarrow> Diff list \<times> Parser" where
  "example_run l s = the (parse_all 5 (NewDiffParser \<lparr> st_data = s, st_fails = False \<rparr> l))"

definition example_stream :: string where
  "example_stream = raw_line CHR ''M'' ''f'' @ raw_line CHR ''M'' ''g'' @ [newline] @ patch_of ''f'' @ patch_of ''g''"

lemma example_run_ok:
  "parse_all 5 (NewDiffParser \<lparr> st_data = example_stream, st_fails = False \<rparr> example_limits) \<noteq> None"
  "map Patch (fst (example_run example_limits example_stream)) =
     [''@@ -1 +1 @@'' @ [newline] @ ''+x'' @ [newline], ''@@ -1 +1 @@'' @ [newline] @ ''+x'' @ [newline]]"
  by code_simp+

theorem diff_limits_hold_witness:
  "list_all (\<lambda>d. Patch d = [] \<or> int (length (Patch d)) < min (MaxPatchBytes example_limits) 512000) (fst (example_run example_limits example_stream)) \<and>
   length (filter (\<lambda>d. Patch d \<noteq> []) (fst (example_run example_limits example_stream))) \<le> nat (min (MaxFiles example_limits) 5000) \<and>
   list_all (\<lambda>d. \<not> OverflowMarker d) (butlast (fst (example_run example_limits example_stream)))"
proof (rule diff_limits_hold)
  show "parse_all 5 (NewDiffParser \<lparr> st_data = example_stream, st_fails = False \<rparr> example_limits) =
      Some (fst (example_run example_limits example_stream), snd (example_run example_limits example_stream))"
    using example_run_ok(1) by (auto simp: example_run_def)
  show "EnforceLimits example_limits" by (simp add: example_limits_def)
qed

section \<open>Surprises\<close>

text \<open>
  A pruned patch is subtracted with its hunk headers, which were never counted: the counter of
  bytes becomes negative, and later patches may exceed the limits by as much.
\<close>

lemma pruning_subtracts_too_much:
  "bytesProcessed (snd (example_run (example_limits\<lparr>CollapseDiffs := True\<rparr>) (raw_line CHR ''M'' ''f'' @ [newline] @ patch_of ''f''))) = -12"
  by code_simp

text \<open>
  A directory whose name ends in a space and the letter b hides its patch, and the patches of all
  files that follow.
\<close>

lemma separator_in_path_hides_patches:
  "map Patch (fst (example_run example_limits
     (raw_line CHR ''M'' ''x b/y'' @ raw_line CHR ''M'' ''z'' @ [newline] @ patch_of ''x b/y'' @ patch_of ''z''))) = [[], []]"
  by code_simp

text \<open>
  The addition that is reported for a file whose type changed has a wrong path if the path holds a
  tab, because the path is written into the new raw line without escapes.
\<close>

lemma type_change_cuts_path:
  "map FromPath (fst (example_run example_limits
     (raw_line CHR ''T'' ([quote] @ concat (map git_quote_byte [CHR ''a'', tab, CHR ''b'']) @ [quote]) @ [newline]))) =
   [[CHR ''a'', tab, CHR ''b''], ''a'']"
  by code_simp

end
