(* ===== verification/Spec2Isabelle.thy ===== *)
theory Spec2Isabelle
  imports Transaction_Manager_Props Nodes_Props Error_Tracker Repository_Store_Props Praefect_Config_Props
    Memory_Queue Coordinator_Props Replicator_Props
    Concurrency_Limiter Storage_Cache Git_Stats Conflict_Parser Gitaly_Config_Props Git_Command_Props Git_Types
    Diff_Props
begin

text \<open>
  A verification of Gitaly, the server for git repositories, and of Praefect, the router in front of a
  cluster of Gitaly nodes.

  \<^bold>\<open>The program.\<close> A client calls Praefect. The coordinator finds out from the registry of methods
  whether the call reads or writes, and a router chooses the nodes: for a write a primary,
  secondaries that take part, and targets that get a replication job later. A write is
  registered as a transaction with the transaction manager; while the nodes execute it, their
  hooks vote on what they are about to change, and the manager lets those commit whose vote has a quorum.
  At the end the coordinator records in the repository store which replicas are up to date and puts
  jobs for the others into the replication queue, from which the replication manager works. On
  its side, Gitaly resolves the repository of a request to a directory, limits how many calls run
  at once, starts git with a command line and an environment of its own making, and parses
  what git writes.

  \<^bold>\<open>How the code is represented.\<close> A struct is a record, an enumeration a datatype, an unsigned
  integer of Go a word where it can wrap, a map an association list. Errors are the left summand of a sum or
  an option. Strings are lists of characters, each for one byte. Operations on shared state under a
  lock are functions on that state; goroutines are interleavings of such steps, given as step relations
  or lists of events. Loops are recursive functions with a termination proof; there is no fuel except in
  \<open>parse_all\<close>, which calls the diff parser at most the given number of times, and there twice the number of
  raw lines plus one is shown to be enough. Databases are the tables with one
  function per statement. Third-party code (the LRU cache, JSON with protobuf messages, the TOML
  decoder, SHA-1), the operating system, and the answers of nodes are arguments, and what is assumed of them is
  a hypothesis.

  \<^bold>\<open>Voting.\<close> \<open>Subtransaction\<close>, \<open>Transactions\<close> and \<open>Transaction_Manager\<close> model
  \<open>internal/praefect/transactions\<close> and the RPCs of \<open>internal/praefect/service/transaction\<close>. \<open>Subtransaction_Invariant\<close>, \<open>Subtransaction_Evolution\<close>
  and \<open>Transaction_Invariant\<close> hold the invariant of the weights that were counted,
  \<open>Transaction_Props\<close> and \<open>Transaction_Manager_Props\<close> what follows for every interleaving of votes,
  timeouts, cancellations and stops: committed nodes agree and have a quorum, failures are justified,
  outcomes are final, nothing panics, and a fully voted session is decided.

  \<^bold>\<open>Routing.\<close> \<open>Praefect_Config\<close> (\<open>internal/praefect/config\<close>), \<open>Router\<close> (\<open>router_per_repository.go\<close>),
  \<open>Nodes\<close> (\<open>nodes/manager.go\<close>, the local and the disabled elector, \<open>router_node_manager.go\<close>) and \<open>Error_Tracker\<close>
  (\<open>nodes/tracker\<close>). The locale \<open>mutator_router\<close> is the contract that the coordinator relies on; both
  routers are interpretations of it. \<open>Router_Props\<close>, \<open>Nodes_Props\<close> and \<open>Praefect_Config_Props\<close> say
  which nodes a route has, who is elected, what counts as healthy, and which configurations are accepted.

  \<^bold>\<open>Stores.\<close> \<open>Repository_Store\<close> models the statements of \<open>datastore/repository_store.go\<close> and
  \<open>assignment.go\<close>, with the invariant in \<open>Repository_Store_Invariant\<close> and the generations of replicas in
  \<open>Repository_Store_Props\<close>. \<open>Replication_Events\<close> has the jobs and, as the locale \<open>event_queue\<close>, the contract of
  a queue; \<open>Memory_Queue\<close> and \<open>Postgres_Queue\<close> with \<open>Postgres_Queue_Props\<close> (\<open>datastore/memory.go\<close>, \<open>queue.go\<close>) interpret it, so that an
  event which was handed out stays with its worker. \<open>Storage_Cache\<close> models the cache of
  \<open>datastore/storage_provider.go\<close> with its notifications.

  \<^bold>\<open>Coordinator and replication.\<close> \<open>Coordinator\<close> models \<open>coordinator.go\<close>. \<open>Coordinator_Transactions\<close> connects
  the votes it registers with the voting protocol: no commit without the primary, and the nodes counted as
  updated agree with it. \<open>Coordinator_Props\<close> goes on to the store and the queue: no replica is left
  behind. \<open>Replicator\<close> and \<open>Replicator_Props\<close> (\<open>replicator.go\<close>) show that
  dequeued events are settled and that retries end.

  \<^bold>\<open>Gitaly.\<close> \<open>Go_Path\<close> models the functions of Go on file paths. \<open>Gitaly_Config\<close> and
  \<open>Gitaly_Config_Props\<close> (\<open>internal/gitaly/config\<close>) say what a validated configuration guarantees, \<open>Storage_Locator\<close>
  (\<open>config/locator.go\<close>, \<open>internal/gitaly/storage/locator.go\<close>) that requests stay in their storage and that
  storages do not share repositories. \<open>Hooks_Payload\<close> has the transaction in the metadata of a call and the payload
  in the environment of hooks (\<open>internal/transaction/txinfo\<close>, \<open>internal/git/hooks_payload.go\<close>).
  \<open>Git_Command\<close> and \<open>Git_Command_Props\<close> model the construction of git commands in \<open>internal/git\<close>: no
  option can be injected, the settings of the administrator win, and the hooks see the
  transaction that Praefect put into the call. \<open>Git_Types\<close> has object identifiers, names of references and
  versions. \<open>Concurrency_Limiter\<close> models \<open>internal/middleware/limithandler\<close>: the limit holds and nobody waits
  for nothing.

  \<^bold>\<open>Parsers.\<close> \<open>Bufio_Scanner\<close> models the scanner of Go; the locale \<open>scan_split\<close> is the
  contract of its split functions, interpreted by \<open>Pktline\<close> (\<open>internal/git/pktline\<close>) and \<open>Conflict_Parser\<close>
  (\<open>internal/git/conflict\<close>). \<open>Git_Stats\<close> (\<open>internal/git/stats\<close>) parses protocol streams. \<open>Diff_Parser\<close> and
  \<open>Diff_Props\<close> (\<open>internal/gitaly/diff\<close>) parse diffs within limits. The lemmas are round trips with the
  writing side, independence of how a stream is cut into reads, bounds and termination.

  \<^bold>\<open>Shared.\<close> \<open>Praefect_Prelude\<close> has the representation of Go values, the locales
  \<open>step_invariant\<close> and \<open>stable_fact\<close> for step relations, and the facts on weighted sums and maps.

  \<^bold>\<open>Not modelled.\<close> Network code (the gRPC proxy, backchannels, dialling), process setup and supervision,
  metrics and logging have no result that could be stated over the model. The SQL elector, the elector per repository, the
  health manager and the reconciler are each a large SQL statement with the clock of the database; the routers take their
  results as parameters. The RPC handlers of Gitaly, the wrappers of repositories, the object readers, object
  pools and housekeeping run git, libgit2 or Ruby programs, which are not part of the sources, on
  a file system; only the command lines they build go through the model. The Ruby server, the
  protocol definitions with the code generated from them, and the helpers for tests are left out. In the modelled
  files, the histograms, log fields and tracing spans are left out as well.
\<close>

end
